(* ===== verification/Go_Prelude.thy ===== *)
theory Go_Prelude
  imports Main "HOL-Library.Word" "HOL-Library.Sublist" "HOL-Library.Char_ord"
begin

text \<open>
  Shared vocabulary of the development: the parts of the Go language and of its standard
  library that several components use, with the lemmas about them.

  \<^item> 64-bit signed arithmetic (\<open>i64\<close>, the wrap-around of Go's \<open>int\<close> and
    \<open>time.Duration\<close>);
  \<^item> numbers as text: \<open>strconv.Atoi\<close>, \<open>strconv.Itoa\<close>, \<open>strconv.ParseInt\<close> with base 0,
    hexadecimal;
  \<^item> strings as byte lists (\<open>string = char list\<close>): \<open>strings.TrimSpace\<close>, \<open>HasPrefix\<close>,
    \<open>HasSuffix\<close>, \<open>ToLower\<close> on ASCII, splitting and joining;
  \<^item> the \<open>machine\<close> locale: one induction for all invariants of step relations.
\<close>

named_theorems go_int \<open>range facts of 64-bit integers\<close>
named_theorems go_str \<open>evaluation of string helpers\<close>

section \<open>64-bit signed integers\<close>

text \<open>
  Go's \<open>int\<close> (on the 64-bit targets the program is built for), \<open>int64\<close> and
  \<open>time.Duration\<close> are 64-bit two's complement. Values are modelled as \<open>int\<close>; every
  multiplication or addition that can leave the range goes through \<open>i64\<close>.
\<close>

definition i64 :: "int \<Rightarrow> int" where
  "i64 x = (x + 2 ^ 63) mod 2 ^ 64 - 2 ^ 63"

definition in_i64 :: "int \<Rightarrow> bool" where
  "in_i64 x \<longleftrightarrow> - (2 ^ 63) \<le> x \<and> x < 2 ^ 63"

lemma i64_range [go_int]: "in_i64 (i64 x)"
proof -
  have "0 \<le> (x + 2 ^ 63) mod 2 ^ 64" and "(x + 2 ^ 63) mod 2 ^ 64 < (2::int) ^ 64"
    by simp_all
  then show ?thesis by (simp add: in_i64_def i64_def)
qed

lemma i64_id [go_int]: "in_i64 x \<Longrightarrow> i64 x = x"
  by (simp add: in_i64_def i64_def mod_pos_pos_trivial)

lemma i64_sint: "i64 x = sint (word_of_int x :: 64 word)"
  by (simp add: i64_def signed_of_int signed_take_bit_eq_take_bit_shift take_bit_eq_mod)

text \<open>\<open>time.Second\<close> and \<open>time.Hour\<close>, in nanoseconds.\<close>

definition Second :: int where "Second = 1000000000"
definition Hour :: int where "Hour = 3600 * Second"

section \<open>Bytes\<close>

definition byte_of :: "char \<Rightarrow> nat" where
  "byte_of c = of_char c"

lemma byte_of_less [simp]: "byte_of c < 256"
  by (simp add: byte_of_def)

lemma char_of_byte_of [simp]: "char_of (byte_of c) = c"
  by (simp add: byte_of_def)

lemma byte_of_char_of [simp]: "n < 256 \<Longrightarrow> byte_of (char_of n) = n"
  by (simp add: byte_of_def)

definition to_lower :: "char \<Rightarrow> char" where
  "to_lower c = (if 65 \<le> byte_of c \<and> byte_of c \<le> 90 then char_of (byte_of c + 32) else c)"

text \<open>\<open>strings.ToLower\<close> on the ASCII letters; bytes above 127 are left alone. The sources
  compare its result only against ASCII words.\<close>

definition ToLower :: "string \<Rightarrow> string" where
  "ToLower s = map to_lower s"

definition HasPrefix :: "string \<Rightarrow> string \<Rightarrow> bool" where
  "HasPrefix s p \<longleftrightarrow> prefix p s"

definition HasSuffix :: "string \<Rightarrow> string \<Rightarrow> bool" where
  "HasSuffix s p \<longleftrightarrow> suffix p s"


section \<open>Splitting and joining\<close>

text \<open>\<open>strings.Split\<close> on one byte, \<open>strings.Join\<close>, and the prefix before the first
  occurrence of a byte (\<open>strings.SplitN(s, sep, 2)[0]\<close>).\<close>

fun split_on :: "char \<Rightarrow> string \<Rightarrow> string list" where
  "split_on d [] = [[]]"
| "split_on d (c # cs) =
     (if c = d then [] # split_on d cs
      else (case split_on d cs of [] \<Rightarrow> [[c]] | w # ws \<Rightarrow> (c # w) # ws))"

fun join :: "string \<Rightarrow> string list \<Rightarrow> string" where
  "join sep [] = []"
| "join sep [w] = w"
| "join sep (w # v # ws) = w @ sep @ join sep (v # ws)"

definition before_sep :: "char \<Rightarrow> string \<Rightarrow> string" where
  "before_sep d s = takeWhile (\<lambda>c. c \<noteq> d) s"

lemma split_on_not_Nil [simp]: "split_on d s \<noteq> []"
  by (induction s) (auto split: list.splits)

lemma split_on_no_sep [go_str]: "d \<notin> set w \<Longrightarrow> split_on d w = [w]"
  by (induction w) auto

lemma split_on_append [go_str]: "d \<notin> set w \<Longrightarrow> split_on d (w @ d # s) = w # split_on d s"
  by (induction w) auto

lemma split_on_join [go_str]:
  "ws \<noteq> [] \<Longrightarrow> (\<And>w. w \<in> set ws \<Longrightarrow> d \<notin> set w) \<Longrightarrow> split_on d (join [d] ws) = ws"
proof (induction ws)
  case Nil
  then show ?case by simp
next
  case (Cons w ws)
  then show ?case by (cases ws) (simp_all add: go_str)
qed

section \<open>Numbers as text\<close>

text \<open>The value of a digit, as \<open>strconv.ParseUint\<close> reads it: decimal digits, then letters of
  either case from 10.\<close>

definition digit36 :: "char \<Rightarrow> nat option" where
  "digit36 c = (let b = byte_of c; l = byte_of (to_lower c) in
     if 48 \<le> b \<and> b \<le> 57 then Some (b - 48)
     else if 97 \<le> l \<and> l \<le> 122 then Some (l - 97 + 10) else None)"

fun read_base :: "nat \<Rightarrow> nat \<Rightarrow> string \<Rightarrow> nat option" where
  "read_base b acc [] = Some acc"
| "read_base b acc (c # cs) =
     (case digit36 c of None \<Rightarrow> None
      | Some d \<Rightarrow> if b \<le> d then None else read_base b (acc * b + d) cs)"

text \<open>The lower-case digit of a value below 16, and the digits of a number.\<close>

definition digit_char :: "nat \<Rightarrow> char" where
  "digit_char d = char_of (if d < 10 then 48 + d else 87 + d)"

fun show_base :: "nat \<Rightarrow> nat \<Rightarrow> string" where
  "show_base b n = (if n < b \<or> b < 2 then [digit_char n] else show_base b (n div b) @ [digit_char (n mod b)])"

declare show_base.simps [simp del]

lemma byte_of_digit_char: "d < 16 \<Longrightarrow> byte_of (digit_char d) = (if d < 10 then 48 + d else 87 + d)"
  by (simp add: digit_char_def)

lemma digit_char_values [go_str]:
  "digit_char 0 = CHR ''0''"
  "digit_char (Suc 0) = CHR ''1''"
  "digit_char 2 = CHR ''2''"
  "digit_char 3 = CHR ''3''"
  "digit_char 4 = CHR ''4''"
  "digit_char 5 = CHR ''5''"
  "digit_char 6 = CHR ''6''"
  "digit_char 7 = CHR ''7''"
  "digit_char 8 = CHR ''8''"
  "digit_char 9 = CHR ''9''"
  "digit_char 10 = CHR ''a''"
  "digit_char 11 = CHR ''b''"
  "digit_char 12 = CHR ''c''"
  "digit_char 13 = CHR ''d''"
  "digit_char 14 = CHR ''e''"
  "digit_char 15 = CHR ''f''"
  by code_simp+

lemma digit36_digit_char [simp]: "d < 16 \<Longrightarrow> digit36 (digit_char d) = Some d"
  by (simp add: digit36_def Let_def byte_of_digit_char to_lower_def)

lemma read_base_append:
  "read_base b acc (xs @ ys) = (case read_base b acc xs of None \<Rightarrow> None | Some a \<Rightarrow> read_base b a ys)"
  by (induction xs arbitrary: acc) (auto split: option.splits)

lemma read_base_show [simp]: "2 \<le> b \<Longrightarrow> b \<le> 16 \<Longrightarrow> read_base b 0 (show_base b n) = Some n"
proof (induction b n rule: show_base.induct)
  case (1 b n)
  show ?case
  proof (cases "n < b")
    case True
    with "1.prems" show ?thesis by (subst show_base.simps) simp
  next
    case False
    have mod_b: "\<not> b \<le> n mod b" and mod_16: "n mod b < 16"
      using mod_less_divisor [of b n] "1.prems" by linarith+
    show ?thesis using False "1.prems" "1.IH" mod_b mod_16
      by (subst show_base.simps) (simp add: read_base_append mult.commute)
  qed
qed

lemma show_base_small: "n < b \<Longrightarrow> show_base b n = [digit_char n]"
  by (subst show_base.simps) simp

lemma show_base_step: "2 \<le> b \<Longrightarrow> b \<le> n \<Longrightarrow> show_base b n = show_base b (n div b) @ [digit_char (n mod b)]"
  by (subst show_base.simps) simp

lemmas show_base_eval = show_base_small show_base_step digit_char_values

lemma show_base_nonempty [simp]: "show_base b n \<noteq> []"
  by (subst show_base.simps) simp

lemma show_base_chars:
  "c \<in> set (show_base b n) \<Longrightarrow> 2 \<le> b \<Longrightarrow> b \<le> 16 \<Longrightarrow> \<exists>d < b. c = digit_char d"
proof (induction b n rule: show_base.induct)
  case (1 b n)
  show ?case
  proof (cases "n < b")
    case True
    with "1.prems" show ?thesis by (subst (asm) show_base.simps) auto
  next
    case False
    have "c \<in> set (show_base b (n div b)) \<or> c = digit_char (n mod b)"
      using "1.prems" False by (subst (asm) show_base.simps) auto
    moreover have "n mod b < b"
      by (rule mod_less_divisor) (use "1.prems" in simp)
    moreover have "\<not> (n < b \<or> b < 2)" using False "1.prems" by simp
    ultimately show ?thesis using "1.prems"(2,3) "1.IH" by blast
  qed
qed

text \<open>\<open>strconv.Itoa\<close> and \<open>strconv.Atoi\<close>. \<open>None\<close> is either error of Atoi (syntax, range).\<close>

definition Itoa :: "int \<Rightarrow> string" where
  "Itoa n = (if n < 0 then CHR ''-'' # show_base 10 (nat (- n)) else show_base 10 (nat n))"

definition sign_split :: "string \<Rightarrow> bool \<times> string" where
  "sign_split s = (case s of [] \<Rightarrow> (False, [])
     | c # cs \<Rightarrow> if c = CHR ''-'' then (True, cs) else if c = CHR ''+'' then (False, cs) else (False, s))"

definition signed_value :: "bool \<Rightarrow> nat \<Rightarrow> int option" where
  "signed_value neg n = (let v = (if neg then - int n else int n) in if in_i64 v then Some v else None)"

definition Atoi :: "string \<Rightarrow> int option" where
  "Atoi s = (let (neg, ds) = sign_split s in
     if ds = [] then None
     else case read_base 10 0 ds of None \<Rightarrow> None | Some n \<Rightarrow> signed_value neg n)"

lemma digit_char_not_sign:
  assumes "d < 16"
  shows "digit_char d \<noteq> CHR ''-''" and "digit_char d \<noteq> CHR ''+''"
proof -
  have "byte_of (digit_char d) \<noteq> 45" and "byte_of (digit_char d) \<noteq> 43"
    using assms by (simp_all add: byte_of_digit_char)
  then show "digit_char d \<noteq> CHR ''-''" and "digit_char d \<noteq> CHR ''+''"
    by (auto simp: byte_of_def)
qed

lemma sign_split_show: "sign_split (show_base 10 n) = (False, show_base 10 n)"
proof (cases "show_base 10 n")
  case Nil
  then show ?thesis by simp
next
  case (Cons c cs)
  then have "c \<in> set (show_base 10 n)" by simp
  then obtain d where "d < 10" "c = digit_char d" using show_base_chars [of c 10 n] by auto
  with Cons show ?thesis by (simp add: sign_split_def digit_char_not_sign)
qed

lemma Atoi_Itoa [simp]: "in_i64 n \<Longrightarrow> Atoi (Itoa n) = Some n"
  by (simp add: Atoi_def Itoa_def sign_split_show signed_value_def)
     (simp add: sign_split_def signed_value_def)

lemma Atoi_range [go_int]: "Atoi s = Some n \<Longrightarrow> in_i64 n"
  by (auto simp: Atoi_def signed_value_def Let_def split: if_splits option.splits prod.splits)

lemma Atoi_Nil [simp]: "Atoi [] = None"
  by (simp add: Atoi_def sign_split_def)

text \<open>\<open>strconv.ParseInt(s, 0, 64)\<close>, the parser of the \<open>flag\<close> package's integer flags: an
  optional sign, a base prefix, and underscores between digits when a base prefix (or base 10)
  allows them. \<open>underscoreOK\<close> is the automaton of the same name in \<open>strconv\<close>; its state is the
  class of the last byte seen.\<close>

datatype us_class = UsStart | UsDigit | UsUnderscore | UsOther

fun underscore_run :: "bool \<Rightarrow> us_class \<Rightarrow> string \<Rightarrow> bool" where
  "underscore_run hex saw [] = (saw \<noteq> UsUnderscore)"
| "underscore_run hex saw (c # cs) =
     (let b = byte_of c; l = byte_of (to_lower c) in
      if (48 \<le> b \<and> b \<le> 57) \<or> (hex \<and> 97 \<le> l \<and> l \<le> 102) then underscore_run hex UsDigit cs
      else if c = CHR ''_'' then (if saw \<noteq> UsDigit then False else underscore_run hex UsUnderscore cs)
      else if saw = UsUnderscore then False else underscore_run hex UsOther cs)"

definition underscoreOK :: "string \<Rightarrow> bool" where
  "underscoreOK s = (case s of
      c0 # c1 # cs \<Rightarrow>
        if c0 = CHR ''0'' \<and> to_lower c1 \<in> {CHR ''b'', CHR ''o'', CHR ''x''}
        then underscore_run (to_lower c1 = CHR ''x'') UsDigit cs
        else underscore_run False UsStart s
    | _ \<Rightarrow> underscore_run False UsStart s)"

definition base0_split :: "string \<Rightarrow> nat \<times> string" where
  "base0_split s = (case s of
      c0 # c1 # c2 # cs \<Rightarrow>
        if c0 = CHR ''0'' then
          (if to_lower c1 = CHR ''b'' then (2, c2 # cs)
           else if to_lower c1 = CHR ''o'' then (8, c2 # cs)
           else if to_lower c1 = CHR ''x'' then (16, c2 # cs)
           else (8, c1 # c2 # cs))
        else (10, s)
    | c0 # cs \<Rightarrow> if c0 = CHR ''0'' then (8, cs) else (10, s)
    | [] \<Rightarrow> (10, s))"

definition ParseInt0 :: "string \<Rightarrow> int option" where
  "ParseInt0 s = (let (neg, s0) = sign_split s in
     if s0 = [] then None
     else let (b, ds) = base0_split s0; ds' = filter (\<lambda>c. c \<noteq> CHR ''_'') ds in
       case read_base b 0 ds' of None \<Rightarrow> None
       | Some n \<Rightarrow> if CHR ''_'' \<in> set ds \<and> \<not> underscoreOK s0 then None else signed_value neg n)"

lemma ParseInt0_range [go_int]: "ParseInt0 s = Some n \<Longrightarrow> in_i64 n"
  by (auto simp: ParseInt0_def signed_value_def Let_def split: if_splits option.splits prod.splits)

text \<open>\<open>hex.EncodeToString\<close>.\<close>

definition EncodeToString :: "8 word list \<Rightarrow> string" where
  "EncodeToString bs = concat (map (\<lambda>b. [digit_char (unat b div 16), digit_char (unat b mod 16)]) bs)"


text \<open>Decimal text holds digits only: no separator of a host, a list or a CSV row.\<close>

lemma Itoa_no_special:
  assumes "c \<in> set (Itoa n)"
  shows "c = CHR ''-'' \<or> (\<exists>d < 10. c = digit_char d)"
  using assms show_base_chars [of c 10] by (auto simp: Itoa_def split: if_splits)

section \<open>White space: strings.TrimSpace\<close>

text \<open>
  \<open>unicode.IsSpace\<close> on UTF-8: the number of bytes of the white-space rune at the head of a
  byte sequence, 0 when there is none (U+0009..U+000D, U+0020, U+0085, U+00A0, U+1680,
  U+2000..U+200A, U+2028, U+2029, U+202F, U+205F, U+3000).
\<close>

definition ascii_space :: "nat \<Rightarrow> bool" where
  "ascii_space b \<longleftrightarrow> (9 \<le> b \<and> b \<le> 13) \<or> b = 32"

fun space_len :: "nat list \<Rightarrow> nat" where
  "space_len (a # b # c # r) =
     (if ascii_space a then 1
      else if a = 194 \<and> (b = 133 \<or> b = 160) then 2
      else if a = 225 \<and> b = 154 \<and> c = 128 then 3
      else if a = 226 \<and> b = 128 \<and> ((128 \<le> c \<and> c \<le> 138) \<or> c = 168 \<or> c = 169 \<or> c = 175) then 3
      else if a = 226 \<and> b = 129 \<and> c = 159 then 3
      else if a = 227 \<and> b = 128 \<and> c = 128 then 3
      else 0)"
| "space_len [a, b] = (if ascii_space a then 1 else if a = 194 \<and> (b = 133 \<or> b = 160) then 2 else 0)"
| "space_len [a] = (if ascii_space a then 1 else 0)"
| "space_len [] = 0"

definition lead_space :: "string \<Rightarrow> nat" where
  "lead_space s = space_len (map byte_of (take 3 s))"

definition trail_space :: "string \<Rightarrow> nat" where
  "trail_space s =
     (let sp = (\<lambda>k. k \<le> length s \<and> lead_space (drop (length s - k) s) = k) in
      if s \<noteq> [] \<and> sp 1 then 1 else if sp 2 then 2 else if sp 3 then 3 else 0)"

function trim_left :: "string \<Rightarrow> string" where
  "trim_left s = (if s = [] \<or> lead_space s = 0 then s else trim_left (drop (lead_space s) s))"
  by pat_completeness auto
termination by (relation "measure length") auto

function trim_right :: "string \<Rightarrow> string" where
  "trim_right s = (if s = [] \<or> trail_space s = 0 then s else trim_right (take (length s - trail_space s) s))"
  by pat_completeness auto
termination by (relation "measure length") auto

declare trim_left.simps [simp del] trim_right.simps [simp del]

definition TrimSpace :: "string \<Rightarrow> string" where
  "TrimSpace s = trim_right (trim_left s)"

lemma trim_left_suffix: "suffix (trim_left s) s"
proof (induction s rule: trim_left.induct)
  case (1 s)
  show ?case
  proof (cases "s = [] \<or> lead_space s = 0")
    case True
    then show ?thesis by (subst trim_left.simps) auto
  next
    case False
    then have "suffix (trim_left (drop (lead_space s) s)) (drop (lead_space s) s)" by (rule "1.IH")
    then have "suffix (trim_left (drop (lead_space s) s)) s" by (blast intro: suffix_order.trans suffix_drop)
    with False show ?thesis by (subst trim_left.simps) simp
  qed
qed

lemma trim_right_prefix: "prefix (trim_right s) s"
proof (induction s rule: trim_right.induct)
  case (1 s)
  show ?case
  proof (cases "s = [] \<or> trail_space s = 0")
    case True
    then show ?thesis by (subst trim_right.simps) auto
  next
    case False
    then have "prefix (trim_right (take (length s - trail_space s) s)) (take (length s - trail_space s) s)"
      by (rule "1.IH")
    then have "prefix (trim_right (take (length s - trail_space s) s)) s"
      by (blast intro: prefix_order.trans take_is_prefix)
    with False show ?thesis by (subst trim_right.simps) simp
  qed
qed

lemma TrimSpace_sublist: "sublist (TrimSpace s) s"
  unfolding TrimSpace_def
  using prefix_imp_sublist [OF trim_right_prefix] suffix_imp_sublist [OF trim_left_suffix]
  by (blast intro: sublist_order.order_trans)

section \<open>Slash-separated paths: path/filepath\<close>

text \<open>\<open>filepath.Clean\<close>, \<open>filepath.Join\<close>, \<open>filepath.Dir\<close> and \<open>path.Base\<close> on the separator
  \<open>/\<close> (the Unix builds).\<close>

fun clean_comps :: "bool \<Rightarrow> string list \<Rightarrow> string list \<Rightarrow> string list" where
  "clean_comps rooted out [] = rev out"
| "clean_comps rooted out (w # ws) =
     (if w = [] \<or> w = ''.'' then clean_comps rooted out ws
      else if w = ''..'' then
        (case out of
           [] \<Rightarrow> if rooted then clean_comps rooted out ws else clean_comps rooted [w] ws
         | p # ps \<Rightarrow> if p = ''..'' then clean_comps rooted (w # out) ws else clean_comps rooted ps ws)
      else clean_comps rooted (w # out) ws)"

definition Clean :: "string \<Rightarrow> string" where
  "Clean p = (let rooted = prefix ''/'' p;
                  s = (if rooted then ''/'' else []) @ join ''/'' (clean_comps rooted [] (split_on CHR ''/'' p))
              in if s = [] then ''.'' else s)"

definition path_Join :: "string list \<Rightarrow> string" where
  "path_Join es = (let ne = dropWhile (\<lambda>e. e = []) es in
     if ne = [] then [] else Clean (join ''/'' ne))"

definition path_Dir :: "string \<Rightarrow> string" where
  "path_Dir p = Clean (rev (dropWhile (\<lambda>c. c \<noteq> CHR ''/'') (rev p)))"

definition path_Base :: "string \<Rightarrow> string" where
  "path_Base p = (if p = [] then ''.''
     else let q = rev (dropWhile (\<lambda>c. c = CHR ''/'') (rev p)) in
       if q = [] then ''/'' else rev (takeWhile (\<lambda>c. c \<noteq> CHR ''/'') (rev q)))"

section \<open>Counting in a list\<close>

text \<open>Number of elements with a property, and how updating one element changes it.\<close>

definition cnt :: "('a \<Rightarrow> bool) \<Rightarrow> 'a list \<Rightarrow> nat" where
  "cnt P xs = length (filter P xs)"

lemma cnt_simps [simp]: "cnt P [] = 0" "cnt P (xs @ [x]) = cnt P xs + (if P x then 1 else 0)"
  by (simp_all add: cnt_def)

lemma cnt_split:
  assumes "i < length xs"
  shows "cnt P xs = cnt P (take i xs) + (if P (xs ! i) then 1 else 0) + cnt P (drop (Suc i) xs)"
    and "cnt P (xs[i := x]) = cnt P (take i xs) + (if P x then 1 else 0) + cnt P (drop (Suc i) xs)"
  using arg_cong [OF id_take_nth_drop [OF assms], of "filter P"] assms
  by (auto simp: cnt_def upd_conv_take_nth_drop)

lemma cnt_update:
  "i < length xs \<Longrightarrow> cnt P (xs[i := x]) + (if P (xs ! i) then 1 else 0) = cnt P xs + (if P x then 1 else 0)"
  using cnt_split(1) [of i xs P] cnt_split(2) [of i xs P x] by simp

lemma cnt_pos: "i < length xs \<Longrightarrow> P (xs ! i) \<Longrightarrow> 0 < cnt P xs"
  using cnt_split(1) [of i xs P] by simp

lemma cnt_nat:
  "i < length xs \<Longrightarrow> cnt P (xs[i := x]) = cnt P xs + (if P x then 1 else 0) - (if P (xs ! i) then 1 else 0)"
  using cnt_update [of i xs P x] by simp

lemma cnt_all: "(\<And>x. x \<in> set xs \<Longrightarrow> P x) \<Longrightarrow> cnt P xs = length xs"
  by (simp add: cnt_def)

lemma cnt_none: "(\<And>x. x \<in> set xs \<Longrightarrow> \<not> P x) \<Longrightarrow> cnt P xs = 0"
  by (simp add: cnt_def filter_empty_conv)

section \<open>Step relations and their invariants\<close>

text \<open>
  Every concurrent or long-running part of the program is a step relation on its state. The
  contract of an invariant is the same for all of them, so it is one locale: \<open>init\<close>
  establishes it, every step keeps it, hence it holds in every state a run reaches.
\<close>

locale machine =
  fixes init :: "'s \<Rightarrow> bool"
    and step :: "'s \<Rightarrow> 's \<Rightarrow> bool"
    and inv :: "'s \<Rightarrow> bool"
  assumes init_inv: "init s \<Longrightarrow> inv s"
    and step_inv: "step s t \<Longrightarrow> inv s \<Longrightarrow> inv t"
begin

lemma steps_inv: "step\<^sup>*\<^sup>* s t \<Longrightarrow> inv s \<Longrightarrow> inv t"
  by (induction rule: rtranclp_induct) (auto intro: step_inv)

lemma reach_inv: "init s \<Longrightarrow> step\<^sup>*\<^sup>* s t \<Longrightarrow> inv t"
  by (rule steps_inv) (auto intro: init_inv)

end

end
