(* ===== verification/Go_Json.thy ===== *)
theory Go_Json
  imports Go_Prelude
begin

text \<open>
  The part of \<open>encoding/json\<close> the program uses: decoding a JSON value into a flat struct with
  \<open>DisallowUnknownFields\<close>, and building the objects the handlers encode.

  A JSON text reaches the program as bytes. Its syntax tree is the type \<open>json\<close>; a number keeps
  its literal (\<open>JNum ''12''\<close>), because the decoder parses the literal against the Go type of the
  field. The function from bytes to the tree is a parameter of the model wherever bytes are
  decoded.
\<close>

datatype json =
    JNull
  | JBool bool
  | JNum string
  | JStr string
  | JArr "json list"
  | JObj "(string \<times> json) list"

section \<open>Matching object keys with struct tags\<close>

text \<open>
  The decoder looks for the exact tag first and then for one equal under simple case folding.
  The tags are ASCII words, so folding is lower-casing plus the two non-ASCII runes that fold
  onto ASCII letters: U+017F (long s, bytes C5 BF) and U+212A (Kelvin sign, bytes E2 84 AA).
\<close>

fun fold_name :: "string \<Rightarrow> string" where
  "fold_name [] = []"
| "fold_name [c] = [to_lower c]"
| "fold_name [c, d] = (if byte_of c = 197 \<and> byte_of d = 191 then ''s'' else [to_lower c, to_lower d])"
| "fold_name (c # d # e # cs) =
     (if byte_of c = 197 \<and> byte_of d = 191 then CHR ''s'' # fold_name (e # cs)
      else if byte_of c = 226 \<and> byte_of d = 132 \<and> byte_of e = 170 then CHR ''k'' # fold_name cs
      else to_lower c # fold_name (d # e # cs))"

definition find_field :: "(string \<times> 'f) list \<Rightarrow> string \<Rightarrow> 'f option" where
  "find_field fs k = (case map_of fs k of Some f \<Rightarrow> Some f
     | None \<Rightarrow> map_of (map (\<lambda>(t, f). (fold_name t, f)) fs) (fold_name k))"

lemma find_field_exact [simp]: "map_of fs k = Some f \<Longrightarrow> find_field fs k = Some f"
  by (simp add: find_field_def)

section \<open>Decoding into a struct\<close>

text \<open>
  A struct type is its list of tags, each with the decoder of that field: \<open>None\<close> is a type
  mismatch. A key that matches no tag is an error (\<open>DisallowUnknownFields\<close>); a repeated key
  decodes again over the earlier value; \<open>null\<close> leaves the struct alone; any other value that is
  not an object is an error.
\<close>

type_synonym 'r field_dec = "json \<Rightarrow> 'r \<Rightarrow> 'r option"

fun decode_fields :: "(string \<times> 'r field_dec) list \<Rightarrow> (string \<times> json) list \<Rightarrow> 'r \<Rightarrow> 'r option" where
  "decode_fields fs [] r = Some r"
| "decode_fields fs ((k, v) # kvs) r =
     (case find_field fs k of None \<Rightarrow> None
      | Some d \<Rightarrow> (case d v r of None \<Rightarrow> None | Some r' \<Rightarrow> decode_fields fs kvs r'))"

fun decode_struct :: "(string \<times> 'r field_dec) list \<Rightarrow> json \<Rightarrow> 'r \<Rightarrow> 'r option" where
  "decode_struct fs JNull r = Some r"
| "decode_struct fs (JObj kvs) r = decode_fields fs kvs r"
| "decode_struct fs _ r = None"

text \<open>Field decoders: \<open>string\<close>, \<open>int64\<close>, and a pointer, which \<open>null\<close> resets to nil.\<close>

fun dec_string :: "(string \<Rightarrow> 'r \<Rightarrow> 'r) \<Rightarrow> 'r field_dec" where
  "dec_string upd JNull r = Some r"
| "dec_string upd (JStr s) r = Some (upd s r)"
| "dec_string upd _ r = None"

fun dec_int :: "(int \<Rightarrow> 'r \<Rightarrow> 'r) \<Rightarrow> 'r field_dec" where
  "dec_int upd JNull r = Some r"
| "dec_int upd (JNum l) r = (case Atoi l of None \<Rightarrow> None | Some n \<Rightarrow> Some (upd n r))"
| "dec_int upd _ r = None"

fun dec_string_ptr :: "(string option \<Rightarrow> 'r \<Rightarrow> 'r) \<Rightarrow> 'r field_dec" where
  "dec_string_ptr upd JNull r = Some (upd None r)"
| "dec_string_ptr upd (JStr s) r = Some (upd (Some s) r)"
| "dec_string_ptr upd _ r = None"

fun dec_int_ptr :: "(int option \<Rightarrow> 'r \<Rightarrow> 'r) \<Rightarrow> 'r field_dec" where
  "dec_int_ptr upd JNull r = Some (upd None r)"
| "dec_int_ptr upd (JNum l) r = (case Atoi l of None \<Rightarrow> None | Some n \<Rightarrow> Some (upd (Some n) r))"
| "dec_int_ptr upd _ r = None"

text \<open>An invariant that every field decoder keeps holds of the decoded struct.\<close>

lemma decode_fields_inv:
  assumes "decode_fields fs kvs r = Some r'" and "P r"
    and "\<And>t d v s s'. (t, d) \<in> set fs \<Longrightarrow> d v s = Some s' \<Longrightarrow> P s \<Longrightarrow> P s'"
  shows "P r'"
  using assms(1,2)
proof (induction kvs arbitrary: r)
  case Nil
  then show ?case by simp
next
  case (Cons kv kvs)
  obtain k v where kv: "kv = (k, v)" by (cases kv)
  with Cons.prems obtain d s where d: "find_field fs k = Some d" and s: "d v r = Some s"
    and rest: "decode_fields fs kvs s = Some r'"
    by (auto split: option.splits)
  have "\<exists>t. (t, d) \<in> set fs"
    using d by (auto simp: find_field_def split: option.splits dest!: map_of_SomeD)
  then obtain t where "(t, d) \<in> set fs" ..
  then have "P s" using s Cons.prems(2) by (rule assms(3))
  with rest show ?case by (rule Cons.IH)
qed

end
