(* ===== verification/Config.thy ===== *)
theory Config
  imports Go_Json
begin

text \<open>
  \<open>internal/config/config.go\<close>: the configuration record, its four layers (compiled-in defaults,
  JSON file, environment, command-line flags), and the environment-only loader \<open>Load\<close>. The flag
  parser and \<open>LoadWithSources\<close>, which composes the layers, are in theory \<open>Config_Load\<close>.
\<close>

section \<open>The configuration\<close>

type_synonym mode = string

definition ModeSize :: mode where "ModeSize = ''size''"
definition ModeTime :: mode where "ModeTime = ''time''"

text \<open>\<open>Duration\<close> is a \<open>time.Duration\<close>: nanoseconds in 64 bits.\<close>

record config =
  Host :: string
  Port :: string
  Mode :: mode
  Duration :: int
  DownloadMB :: int
  UploadMB :: int
  Streams :: int
  MaxConcurrent :: int
  WarmupMs :: int
  DBPath :: string
  HistoryRetentionDays :: int
  RatePerMin :: int
  ConfigFilePath :: string
  GeoIPDBPath :: string
  GeoIPLicenseKey :: string
  GeoIPEdition :: string

definition defaults :: config where
  "defaults = \<lparr>Host = ''::'', Port = ''8080'', Mode = ModeTime, Duration = 15 * Second,
     DownloadMB = 25, UploadMB = 10, Streams = 4, MaxConcurrent = 10, WarmupMs = 500,
     DBPath = ''./speedtest.db'', HistoryRetentionDays = 90, RatePerMin = 0,
     ConfigFilePath = [], GeoIPDBPath = [], GeoIPLicenseKey = [], GeoIPEdition = ''GeoLite2-City''\<rparr>"

text \<open>\<open>clamp\<close> keeps the existing value when the new one is out of range.\<close>

definition clamp :: "int \<Rightarrow> int \<Rightarrow> int \<Rightarrow> int \<Rightarrow> int" where
  "clamp n lo hi fallback = (if n < lo \<or> n > hi then fallback else n)"

text \<open>\<open>time.Duration(n) * time.Second\<close>: the product is taken modulo \<open>2 ^ 64\<close>.\<close>

definition secs :: "int \<Rightarrow> int" where
  "secs n = i64 (n * Second)"

section \<open>The JSON file layer\<close>

record jsonConfig =
  j_Host :: "string option"
  j_Port :: "string option"
  j_Mode :: "string option"
  j_DurationSec :: "int option"
  j_DownloadMB :: "int option"
  j_UploadMB :: "int option"
  j_Streams :: "int option"
  j_MaxConcurrent :: "int option"
  j_WarmupMs :: "int option"
  j_DBPath :: "string option"
  j_HistoryRetentionDays :: "int option"
  j_RatePerMin :: "int option"
  j_GeoIPDBPath :: "string option"
  j_GeoIPLicenseKey :: "string option"
  j_GeoIPEdition :: "string option"

definition jsonConfig0 :: jsonConfig where
  "jsonConfig0 = \<lparr>j_Host = None, j_Port = None, j_Mode = None, j_DurationSec = None,
     j_DownloadMB = None, j_UploadMB = None, j_Streams = None, j_MaxConcurrent = None,
     j_WarmupMs = None, j_DBPath = None, j_HistoryRetentionDays = None, j_RatePerMin = None,
     j_GeoIPDBPath = None, j_GeoIPLicenseKey = None, j_GeoIPEdition = None\<rparr>"

definition jsonConfig_fields :: "(string \<times> jsonConfig field_dec) list" where
  "jsonConfig_fields =
    [(''host'', dec_string_ptr (\<lambda>x j. j\<lparr>j_Host := x\<rparr>)),
     (''port'', dec_string_ptr (\<lambda>x j. j\<lparr>j_Port := x\<rparr>)),
     (''mode'', dec_string_ptr (\<lambda>x j. j\<lparr>j_Mode := x\<rparr>)),
     (''duration_sec'', dec_int_ptr (\<lambda>x j. j\<lparr>j_DurationSec := x\<rparr>)),
     (''download_mb'', dec_int_ptr (\<lambda>x j. j\<lparr>j_DownloadMB := x\<rparr>)),
     (''upload_mb'', dec_int_ptr (\<lambda>x j. j\<lparr>j_UploadMB := x\<rparr>)),
     (''streams'', dec_int_ptr (\<lambda>x j. j\<lparr>j_Streams := x\<rparr>)),
     (''max_concurrent'', dec_int_ptr (\<lambda>x j. j\<lparr>j_MaxConcurrent := x\<rparr>)),
     (''warmup_ms'', dec_int_ptr (\<lambda>x j. j\<lparr>j_WarmupMs := x\<rparr>)),
     (''db_path'', dec_string_ptr (\<lambda>x j. j\<lparr>j_DBPath := x\<rparr>)),
     (''history_retention_days'', dec_int_ptr (\<lambda>x j. j\<lparr>j_HistoryRetentionDays := x\<rparr>)),
     (''rate_per_min'', dec_int_ptr (\<lambda>x j. j\<lparr>j_RatePerMin := x\<rparr>)),
     (''geoip_db_path'', dec_string_ptr (\<lambda>x j. j\<lparr>j_GeoIPDBPath := x\<rparr>)),
     (''geoip_license_key'', dec_string_ptr (\<lambda>x j. j\<lparr>j_GeoIPLicenseKey := x\<rparr>)),
     (''geoip_edition'', dec_string_ptr (\<lambda>x j. j\<lparr>j_GeoIPEdition := x\<rparr>))]"

text \<open>
  \<open>readJSONFile\<close>: \<open>open_file\<close> is \<open>os.Open\<close> with the content it makes readable (\<open>None\<close> when it
  fails), \<open>parse\<close> the decoder's reader of one JSON value (\<open>None\<close> for malformed text).
\<close>

datatype file_error = OpenError | DecodeError

definition readJSONFile ::
    "(string \<Rightarrow> string option) \<Rightarrow> (string \<Rightarrow> json option) \<Rightarrow> string \<Rightarrow> file_error + jsonConfig" where
  "readJSONFile open_file parse path =
     (case open_file path of None \<Rightarrow> Inl OpenError
      | Some content \<Rightarrow>
          (case parse content of None \<Rightarrow> Inl DecodeError
           | Some v \<Rightarrow>
               (case decode_struct jsonConfig_fields v jsonConfig0 of None \<Rightarrow> Inl DecodeError
                | Some jc \<Rightarrow> Inr jc)))"

text \<open>
  The overlays. Each assignment of the source reads and writes one field only, so an overlay is
  one record update with the source's conditions inside.
\<close>

definition mode_of :: "string \<Rightarrow> mode \<Rightarrow> mode" where
  "mode_of v old = (if v = ModeSize then ModeSize else if v = ModeTime then ModeTime else old)"

definition applyJSON :: "config \<Rightarrow> jsonConfig \<Rightarrow> config" where
  "applyJSON cfg fc = cfg\<lparr>
     Host := (case j_Host fc of None \<Rightarrow> Host cfg | Some v \<Rightarrow> v),
     Port := (case j_Port fc of None \<Rightarrow> Port cfg | Some v \<Rightarrow> if Atoi v \<noteq> None then v else Port cfg),
     Mode := (case j_Mode fc of None \<Rightarrow> Mode cfg | Some v \<Rightarrow> mode_of v (Mode cfg)),
     Duration := (case j_DurationSec fc of None \<Rightarrow> Duration cfg
                  | Some n \<Rightarrow> if n \<ge> 1 then secs n else Duration cfg),
     DownloadMB := (case j_DownloadMB fc of None \<Rightarrow> DownloadMB cfg
                    | Some n \<Rightarrow> clamp n 1 10240 (DownloadMB cfg)),
     UploadMB := (case j_UploadMB fc of None \<Rightarrow> UploadMB cfg | Some n \<Rightarrow> clamp n 1 10240 (UploadMB cfg)),
     Streams := (case j_Streams fc of None \<Rightarrow> Streams cfg | Some n \<Rightarrow> clamp n 1 32 (Streams cfg)),
     MaxConcurrent := (case j_MaxConcurrent fc of None \<Rightarrow> MaxConcurrent cfg
                       | Some n \<Rightarrow> clamp n 1 100 (MaxConcurrent cfg)),
     WarmupMs := (case j_WarmupMs fc of None \<Rightarrow> WarmupMs cfg | Some n \<Rightarrow> clamp n 0 10000 (WarmupMs cfg)),
     DBPath := (case j_DBPath fc of None \<Rightarrow> DBPath cfg | Some v \<Rightarrow> v),
     HistoryRetentionDays := (case j_HistoryRetentionDays fc of None \<Rightarrow> HistoryRetentionDays cfg
                              | Some n \<Rightarrow> clamp n 0 3650 (HistoryRetentionDays cfg)),
     RatePerMin := (case j_RatePerMin fc of None \<Rightarrow> RatePerMin cfg
                    | Some n \<Rightarrow> clamp n 0 100000 (RatePerMin cfg)),
     GeoIPDBPath := (case j_GeoIPDBPath fc of None \<Rightarrow> GeoIPDBPath cfg | Some v \<Rightarrow> v),
     GeoIPLicenseKey := (case j_GeoIPLicenseKey fc of None \<Rightarrow> GeoIPLicenseKey cfg | Some v \<Rightarrow> v),
     GeoIPEdition := (case j_GeoIPEdition fc of None \<Rightarrow> GeoIPEdition cfg
                      | Some v \<Rightarrow> if v \<noteq> [] then v else GeoIPEdition cfg)\<rparr>"

section \<open>The environment layer\<close>

text \<open>\<open>env_int\<close> is the shape shared by the integer variables of \<open>overlayEnv\<close>: unset, empty,
  unparseable and out-of-range values all leave the field alone.\<close>

definition env_overlay_int :: "string \<Rightarrow> int \<Rightarrow> int \<Rightarrow> int \<Rightarrow> int" where
  "env_overlay_int v lo hi old =
     (if v \<noteq> [] then (case Atoi v of None \<Rightarrow> old | Some n \<Rightarrow> clamp n lo hi old) else old)"

definition overlayEnv :: "config \<Rightarrow> (string \<Rightarrow> string) \<Rightarrow> config" where
  "overlayEnv cfg env = cfg\<lparr>
     Host := (let v = env ''SPEEDTEST_HOST'' in if v \<noteq> [] then v else Host cfg),
     Port := (let v = env ''SPEEDTEST_PORT'' in
              if v \<noteq> [] then (if Atoi v \<noteq> None then v else Port cfg) else Port cfg),
     Mode := (let v = env ''SPEEDTEST_MODE'' in if v \<noteq> [] then mode_of v (Mode cfg) else Mode cfg),
     Duration := (let v = env ''SPEEDTEST_DURATION'' in
              if v \<noteq> [] then (case Atoi v of None \<Rightarrow> Duration cfg
                                | Some n \<Rightarrow> if n \<ge> 1 then secs n else Duration cfg)
              else Duration cfg),
     DownloadMB := env_overlay_int (env ''SPEEDTEST_DOWNLOAD_SIZE'') 1 10240 (DownloadMB cfg),
     UploadMB := env_overlay_int (env ''SPEEDTEST_UPLOAD_SIZE'') 1 10240 (UploadMB cfg),
     Streams := env_overlay_int (env ''SPEEDTEST_STREAMS'') 1 32 (Streams cfg),
     MaxConcurrent := env_overlay_int (env ''SPEEDTEST_MAX_CONCURRENT'') 1 100 (MaxConcurrent cfg),
     WarmupMs := env_overlay_int (env ''SPEEDTEST_WARMUP_MS'') 0 10000 (WarmupMs cfg),
     DBPath := (let v = env ''SPEEDTEST_DB_PATH'' in if v \<noteq> [] then v else DBPath cfg),
     HistoryRetentionDays :=
       env_overlay_int (env ''SPEEDTEST_HISTORY_RETENTION_DAYS'') 0 3650 (HistoryRetentionDays cfg),
     RatePerMin := env_overlay_int (env ''SPEEDTEST_RATE_PER_MIN'') 0 100000 (RatePerMin cfg),
     GeoIPDBPath := (let v = env ''SPEEDTEST_GEOIP_DB'' in if v \<noteq> [] then v else GeoIPDBPath cfg),
     GeoIPLicenseKey :=
       (let v = env ''SPEEDTEST_GEOIP_LICENSE_KEY'' in if v \<noteq> [] then v else GeoIPLicenseKey cfg),
     GeoIPEdition :=
       (let v = env ''SPEEDTEST_GEOIP_EDITION'' in if v \<noteq> [] then v else GeoIPEdition cfg)\<rparr>"

section \<open>Load: the environment-only loader\<close>

text \<open>The process environment as a map; \<open>os.Getenv\<close> reads an unset variable as empty,
  \<open>os.LookupEnv\<close> tells the two apart.\<close>

type_synonym environ = "string \<rightharpoonup> string"

definition Getenv :: "environ \<Rightarrow> string \<Rightarrow> string" where
  "Getenv e k = (case e k of None \<Rightarrow> [] | Some v \<Rightarrow> v)"

definition envStr :: "environ \<Rightarrow> string \<Rightarrow> string \<Rightarrow> string" where
  "envStr e key dflt = (let v = Getenv e key in if v \<noteq> [] then v else dflt)"

definition envStrAllowEmpty :: "environ \<Rightarrow> string \<Rightarrow> string \<Rightarrow> string" where
  "envStrAllowEmpty e key dflt = (case e key of None \<Rightarrow> dflt | Some v \<Rightarrow> v)"

definition envPort :: "environ \<Rightarrow> string \<Rightarrow> string \<Rightarrow> string" where
  "envPort e key dflt = (let v = Getenv e key in
     if v = [] then dflt else if Atoi v = None then dflt else v)"

definition envMode :: "environ \<Rightarrow> string \<Rightarrow> mode \<Rightarrow> mode" where
  "envMode e key dflt = (let v = Getenv e key in
     if v = ModeSize then ModeSize else if v = ModeTime then ModeTime else dflt)"

definition envDuration :: "environ \<Rightarrow> string \<Rightarrow> int \<Rightarrow> int" where
  "envDuration e key defaultSecs = (let v = Getenv e key in
     if v = [] then secs defaultSecs
     else (case Atoi v of None \<Rightarrow> secs defaultSecs
           | Some n \<Rightarrow> if n < 1 then secs defaultSecs else secs n))"

definition envInt :: "environ \<Rightarrow> string \<Rightarrow> int \<Rightarrow> int \<Rightarrow> int \<Rightarrow> int" where
  "envInt e key dflt lo hi = (let v = Getenv e key in
     if v = [] then dflt
     else (case Atoi v of None \<Rightarrow> dflt
           | Some n \<Rightarrow> if n < lo then dflt else if n > hi then hi else n))"

definition Load :: "environ \<Rightarrow> config" where
  "Load e = \<lparr>
     Host = envStr e ''SPEEDTEST_HOST'' ''::'',
     Port = envPort e ''SPEEDTEST_PORT'' ''8080'',
     Mode = envMode e ''SPEEDTEST_MODE'' ModeTime,
     Duration = envDuration e ''SPEEDTEST_DURATION'' 15,
     DownloadMB = envInt e ''SPEEDTEST_DOWNLOAD_SIZE'' 25 1 10240,
     UploadMB = envInt e ''SPEEDTEST_UPLOAD_SIZE'' 10 1 10240,
     Streams = envInt e ''SPEEDTEST_STREAMS'' 4 1 32,
     MaxConcurrent = envInt e ''SPEEDTEST_MAX_CONCURRENT'' 10 1 100,
     WarmupMs = envInt e ''SPEEDTEST_WARMUP_MS'' 500 0 10000,
     DBPath = envStrAllowEmpty e ''SPEEDTEST_DB_PATH'' ''./speedtest.db'',
     HistoryRetentionDays = envInt e ''SPEEDTEST_HISTORY_RETENTION_DAYS'' 90 0 3650,
     RatePerMin = envInt e ''SPEEDTEST_RATE_PER_MIN'' 0 0 100000,
     ConfigFilePath = envStrAllowEmpty e ''SPEEDTEST_CONFIG'' [],
     GeoIPDBPath = envStrAllowEmpty e ''SPEEDTEST_GEOIP_DB'' [],
     GeoIPLicenseKey = envStrAllowEmpty e ''SPEEDTEST_GEOIP_LICENSE_KEY'' [],
     GeoIPEdition = envStr e ''SPEEDTEST_GEOIP_EDITION'' ''GeoLite2-City''\<rparr>"

section \<open>Addr\<close>

definition Addr :: "config \<Rightarrow> string" where
  "Addr c = (let host = Host c;
                 host' = (if CHR '':'' \<in> set host \<and> \<not> HasPrefix host ''['' then ''['' @ host @ '']'' else host)
             in host' @ '':'' @ Port c)"


section \<open>Well-formed configurations\<close>

text \<open>
  What every layer guarantees of its result, given that it holds of what lies underneath. The
  bounds are the ones the overlays clamp to; a duration is only known to be a 64-bit value,
  because \<open>secs\<close> wraps around.
\<close>

definition wf_config :: "config \<Rightarrow> bool" where
  "wf_config c \<longleftrightarrow>
     Mode c \<in> {ModeSize, ModeTime} \<and> Atoi (Port c) \<noteq> None \<and> in_i64 (Duration c) \<and>
     DownloadMB c \<in> {1..10240} \<and> UploadMB c \<in> {1..10240} \<and> Streams c \<in> {1..32} \<and>
     MaxConcurrent c \<in> {1..100} \<and> WarmupMs c \<in> {0..10000} \<and>
     HistoryRetentionDays c \<in> {0..3650} \<and> RatePerMin c \<in> {0..100000} \<and> GeoIPEdition c \<noteq> []"

lemma clamp_in [simp]: "old \<in> {lo..hi} \<Longrightarrow> clamp n lo hi old \<in> {lo..hi}"
  by (simp add: clamp_def)

lemma env_overlay_int_in [simp]: "old \<in> {lo..hi} \<Longrightarrow> env_overlay_int v lo hi old \<in> {lo..hi}"
  by (auto simp: env_overlay_int_def clamp_def split: option.splits)

lemma mode_of_in [simp]: "old \<in> {ModeSize, ModeTime} \<Longrightarrow> mode_of v old \<in> {ModeSize, ModeTime}"
  by (simp add: mode_of_def)

lemma secs_i64 [simp]: "in_i64 (secs n)"
  by (simp add: secs_def i64_range)

lemma secs_exact: "1 \<le> n \<Longrightarrow> n \<le> 9223372036 \<Longrightarrow> secs n = n * Second"
  unfolding secs_def by (rule i64_id) (simp add: in_i64_def Second_def)

lemma Atoi_8080: "Atoi ''8080'' = Some 8080"
  by code_simp

lemma wf_defaults: "wf_config defaults"
  by (simp add: wf_config_def defaults_def ModeTime_def Atoi_8080 in_i64_def Second_def)

text \<open>The contract of a layer, and what it gives for any sequence of layers of its kind.\<close>

locale config_layer =
  fixes overlay :: "config \<Rightarrow> 'l \<Rightarrow> config"
  assumes keeps_wf: "wf_config c \<Longrightarrow> wf_config (overlay c l)"
begin

lemma over_defaults: "wf_config (overlay defaults l)"
  by (rule keeps_wf) (rule wf_defaults)

lemma foldl_wf: "wf_config c \<Longrightarrow> wf_config (foldl overlay c ls)"
  by (induction ls arbitrary: c) (auto intro: keeps_wf)

end

lemma applyJSON_wf: "wf_config c \<Longrightarrow> wf_config (applyJSON c fc)"
  unfolding wf_config_def
  by (intro conjI) (auto simp: applyJSON_def mode_of_def clamp_def split: option.splits)

interpretation json_layer: config_layer applyJSON
  by unfold_locales (rule applyJSON_wf)

lemma overlayEnv_wf: "wf_config c \<Longrightarrow> wf_config (overlayEnv c env)"
  unfolding wf_config_def
  by (intro conjI) (auto simp: overlayEnv_def mode_of_def env_overlay_int_def clamp_def Let_def
      split: option.splits)

interpretation env_layer: config_layer overlayEnv
  by unfold_locales (rule overlayEnv_wf)

text \<open>\<open>Load\<close> saturates at the upper bound instead of ignoring the value, and is well-formed too.\<close>

lemma envInt_bounds:
  assumes "lo \<le> dflt" and "dflt \<le> hi"
  shows "lo \<le> envInt e k dflt lo hi" and "envInt e k dflt lo hi \<le> hi"
  using assms by (auto simp: envInt_def Let_def split: option.splits)

lemma Load_wf: "wf_config (Load e)"
  unfolding wf_config_def
  by (intro conjI; simp add: Load_def envInt_bounds)
     (auto simp: envMode_def envPort_def envDuration_def envStr_def Let_def Atoi_8080 split: option.splits)

end
