(* ===== verification/Config_Load.thy ===== *)
theory Config_Load
  imports Config
begin

text \<open>
  The rest of \<open>internal/config/config.go\<close>: the command-line parser \<open>parseCLI\<close> over the standard
  \<open>flag\<close> package, the flag overlay \<open>applyCLI\<close>, the search for the configuration file, and
  \<open>LoadWithSources\<close>.
\<close>

section \<open>Flag values\<close>

record cliValues =
  cli_configPath :: string
  cli_host :: string
  cli_port :: string
  cli_mode :: string
  cli_durationSec :: int
  cli_streams :: int
  cli_downloadMB :: int
  cli_uploadMB :: int
  cli_maxConcurrent :: int
  cli_warmupMs :: int
  cli_dbPath :: string
  cli_ratePerMin :: int
  cli_geoIPDBPath :: string
  cli_geoIPLicenseKey :: string
  cli_geoIPEdition :: string
  setHost :: bool
  setPort :: bool
  setMode :: bool
  setDurationSec :: bool
  setStreams :: bool
  setDownloadMB :: bool
  setUploadMB :: bool
  setMaxConcurrent :: bool
  setWarmupMs :: bool
  setDBPath :: bool
  setRatePerMin :: bool
  setGeoIPDBPath :: bool
  setGeoIPLicenseKey :: bool
  setGeoIPEdition :: bool

definition cli0 :: cliValues where
  "cli0 = \<lparr>cli_configPath = [], cli_host = [], cli_port = [], cli_mode = [], cli_durationSec = 0,
     cli_streams = 0, cli_downloadMB = 0, cli_uploadMB = 0, cli_maxConcurrent = 0, cli_warmupMs = 0,
     cli_dbPath = [], cli_ratePerMin = 0, cli_geoIPDBPath = [], cli_geoIPLicenseKey = [],
     cli_geoIPEdition = [], setHost = False, setPort = False, setMode = False,
     setDurationSec = False, setStreams = False, setDownloadMB = False, setUploadMB = False,
     setMaxConcurrent = False, setWarmupMs = False, setDBPath = False, setRatePerMin = False,
     setGeoIPDBPath = False, setGeoIPLicenseKey = False, setGeoIPEdition = False\<rparr>"

record CLIOpts =
  ShowVersion :: bool


section \<open>The flag package\<close>

text \<open>
  What \<open>fs.StringVar\<close>, \<open>fs.IntVar\<close> and \<open>fs.BoolVar\<close> register: the type of the flag decides how
  its text is read (\<open>strconv.ParseInt\<close> with base 0, \<open>strconv.ParseBool\<close>).
\<close>

datatype flag_var =
    StringVar "string \<Rightarrow> cliValues \<Rightarrow> cliValues"
  | IntVar "int \<Rightarrow> cliValues \<Rightarrow> cliValues"
  | BoolVar "bool \<Rightarrow> CLIOpts \<Rightarrow> CLIOpts"

definition formal :: "(string \<times> flag_var) list" where
  "formal =
    [(''config'', StringVar (\<lambda>x c. c\<lparr>cli_configPath := x\<rparr>)),
     (''host'', StringVar (\<lambda>x c. c\<lparr>cli_host := x\<rparr>)),
     (''port'', StringVar (\<lambda>x c. c\<lparr>cli_port := x\<rparr>)),
     (''mode'', StringVar (\<lambda>x c. c\<lparr>cli_mode := x\<rparr>)),
     (''duration'', IntVar (\<lambda>x c. c\<lparr>cli_durationSec := x\<rparr>)),
     (''streams'', IntVar (\<lambda>x c. c\<lparr>cli_streams := x\<rparr>)),
     (''download-mb'', IntVar (\<lambda>x c. c\<lparr>cli_downloadMB := x\<rparr>)),
     (''upload-mb'', IntVar (\<lambda>x c. c\<lparr>cli_uploadMB := x\<rparr>)),
     (''max-concurrent'', IntVar (\<lambda>x c. c\<lparr>cli_maxConcurrent := x\<rparr>)),
     (''warmup-ms'', IntVar (\<lambda>x c. c\<lparr>cli_warmupMs := x\<rparr>)),
     (''db-path'', StringVar (\<lambda>x c. c\<lparr>cli_dbPath := x\<rparr>)),
     (''rate-per-min'', IntVar (\<lambda>x c. c\<lparr>cli_ratePerMin := x\<rparr>)),
     (''geoip-db'', StringVar (\<lambda>x c. c\<lparr>cli_geoIPDBPath := x\<rparr>)),
     (''geoip-license-key'', StringVar (\<lambda>x c. c\<lparr>cli_geoIPLicenseKey := x\<rparr>)),
     (''geoip-edition'', StringVar (\<lambda>x c. c\<lparr>cli_geoIPEdition := x\<rparr>)),
     (''version'', BoolVar (\<lambda>x opts. opts\<lparr>ShowVersion := x\<rparr>))]"

definition ParseBool :: "string \<Rightarrow> bool option" where
  "ParseBool s =
     (if s \<in> {''1'', ''t'', ''T'', ''TRUE'', ''true'', ''True''} then Some True
      else if s \<in> {''0'', ''f'', ''F'', ''FALSE'', ''false'', ''False''} then Some False
      else None)"

record flag_state =
  fs_cli :: cliValues
  fs_opts :: CLIOpts
  fs_actual :: "string list"

fun set_flag :: "flag_var \<Rightarrow> string \<Rightarrow> flag_state \<Rightarrow> flag_state option" where
  "set_flag (StringVar upd) v st = Some (st\<lparr>fs_cli := upd v (fs_cli st)\<rparr>)"
| "set_flag (IntVar upd) v st =
     (case ParseInt0 v of None \<Rightarrow> None | Some n \<Rightarrow> Some (st\<lparr>fs_cli := upd n (fs_cli st)\<rparr>))"
| "set_flag (BoolVar upd) v st =
     (case ParseBool v of None \<Rightarrow> None | Some b \<Rightarrow> Some (st\<lparr>fs_opts := upd b (fs_opts st)\<rparr>))"

text \<open>One argument: the end of the flags (a non-flag, \<open>-\<close> or \<open>--\<close>), bad syntax, or a flag name
  with the value after its first \<open>=\<close>.\<close>

datatype flag_token = FlagEnd | FlagBad | FlagTok string "string option"

definition tokenise :: "string \<Rightarrow> flag_token" where
  "tokenise s =
     (if length s < 2 \<or> hd s \<noteq> CHR ''-'' then FlagEnd
      else if s = ''--'' then FlagEnd
      else let name = drop (if s ! 1 = CHR ''-'' then 2 else 1) s in
        if name = [] \<or> hd name = CHR ''-'' \<or> hd name = CHR ''='' then FlagBad
        else let n = before_sep CHR ''='' name in
          FlagTok n (if n = name then None else Some (drop (Suc (length n)) name)))"

datatype flag_error = ErrHelp | ErrFlag

function flag_parse :: "string list \<Rightarrow> flag_state \<Rightarrow> flag_error + flag_state" where
  "flag_parse [] st = Inr st"
| "flag_parse (s # args) st =
     (case tokenise s of
        FlagEnd \<Rightarrow> Inr st
      | FlagBad \<Rightarrow> Inl ErrFlag
      | FlagTok name v \<Rightarrow>
          (case map_of formal name of
             None \<Rightarrow> if name = ''help'' \<or> name = ''h'' then Inl ErrHelp else Inl ErrFlag
           | Some fv \<Rightarrow>
               (case (case v of Some x \<Rightarrow> Some (x, args)
                      | None \<Rightarrow> (case fv of BoolVar _ \<Rightarrow> Some (''true'', args)
                                | _ \<Rightarrow> (case args of [] \<Rightarrow> None | x # args' \<Rightarrow> Some (x, args')))) of
                  None \<Rightarrow> Inl ErrFlag
                | Some (x, rest) \<Rightarrow>
                    (case set_flag fv x st of
                       None \<Rightarrow> Inl ErrFlag
                     | Some st' \<Rightarrow> flag_parse rest (st'\<lparr>fs_actual := name # fs_actual st'\<rparr>)))))"
  by pat_completeness auto
termination
  by (relation "measure (\<lambda>(args, st). length args)")
     (auto split: option.splits flag_var.splits list.splits)

declare flag_parse.simps(2) [simp del]

section \<open>parseCLI and applyCLI\<close>

definition parseCLI :: "string list \<Rightarrow> flag_error + (cliValues \<times> CLIOpts)" where
  "parseCLI args =
     (case flag_parse args \<lparr>fs_cli = cli0, fs_opts = \<lparr>ShowVersion = False\<rparr>, fs_actual = []\<rparr> of
        Inl e \<Rightarrow> Inl e
      | Inr st \<Rightarrow>
          (let visited = (\<lambda>name. name \<in> set (fs_actual st)) in
           Inr ((fs_cli st)\<lparr>
             setHost := visited ''host'', setPort := visited ''port'', setMode := visited ''mode'',
             setDurationSec := visited ''duration'', setStreams := visited ''streams'',
             setDownloadMB := visited ''download-mb'', setUploadMB := visited ''upload-mb'',
             setMaxConcurrent := visited ''max-concurrent'', setWarmupMs := visited ''warmup-ms'',
             setDBPath := visited ''db-path'', setRatePerMin := visited ''rate-per-min'',
             setGeoIPDBPath := visited ''geoip-db'',
             setGeoIPLicenseKey := visited ''geoip-license-key'',
             setGeoIPEdition := visited ''geoip-edition''\<rparr>, fs_opts st)))"

definition applyCLI :: "config \<Rightarrow> cliValues \<Rightarrow> config" where
  "applyCLI cfg cli = cfg\<lparr>
     Host := (if setHost cli then cli_host cli else Host cfg),
     Port := (if setPort cli then (if Atoi (cli_port cli) \<noteq> None then cli_port cli else Port cfg)
              else Port cfg),
     Mode := (if setMode cli then mode_of (cli_mode cli) (Mode cfg) else Mode cfg),
     Duration := (if setDurationSec cli \<and> cli_durationSec cli \<ge> 1 then secs (cli_durationSec cli)
                  else Duration cfg),
     Streams := (if setStreams cli then clamp (cli_streams cli) 1 32 (Streams cfg) else Streams cfg),
     DownloadMB := (if setDownloadMB cli then clamp (cli_downloadMB cli) 1 10240 (DownloadMB cfg)
                    else DownloadMB cfg),
     UploadMB := (if setUploadMB cli then clamp (cli_uploadMB cli) 1 10240 (UploadMB cfg)
                  else UploadMB cfg),
     MaxConcurrent := (if setMaxConcurrent cli then clamp (cli_maxConcurrent cli) 1 100 (MaxConcurrent cfg)
                       else MaxConcurrent cfg),
     WarmupMs := (if setWarmupMs cli then clamp (cli_warmupMs cli) 0 10000 (WarmupMs cfg) else WarmupMs cfg),
     DBPath := (if setDBPath cli then cli_dbPath cli else DBPath cfg),
     RatePerMin := (if setRatePerMin cli then clamp (cli_ratePerMin cli) 0 100000 (RatePerMin cfg)
                    else RatePerMin cfg),
     GeoIPDBPath := (if setGeoIPDBPath cli then cli_geoIPDBPath cli else GeoIPDBPath cfg),
     GeoIPLicenseKey := (if setGeoIPLicenseKey cli then cli_geoIPLicenseKey cli else GeoIPLicenseKey cfg),
     GeoIPEdition := (if setGeoIPEdition cli \<and> cli_geoIPEdition cli \<noteq> [] then cli_geoIPEdition cli
                      else GeoIPEdition cfg)\<rparr>"

lemma applyCLI_wf: "wf_config c \<Longrightarrow> wf_config (applyCLI c cli)"
  unfolding wf_config_def
  by (intro conjI) (auto simp: applyCLI_def mode_of_def clamp_def)

interpretation cli_layer: config_layer applyCLI
  by unfold_locales (rule applyCLI_wf)

section \<open>Finding the configuration file\<close>

text \<open>\<open>stat p\<close> is \<open>os.Stat\<close>: \<open>None\<close> on an error, \<open>Some d\<close> with \<open>d\<close> telling a directory.\<close>

fun fileSystemSearch :: "(string \<Rightarrow> bool option) \<Rightarrow> string list \<Rightarrow> string" where
  "fileSystemSearch stat [] = []"
| "fileSystemSearch stat (p # ps) =
     (if p = [] then fileSystemSearch stat ps
      else if stat p = Some False then p else fileSystemSearch stat ps)"

definition xdgConfigPath :: "(string \<Rightarrow> string) \<Rightarrow> string" where
  "xdgConfigPath env =
     (let xdg = env ''XDG_CONFIG_HOME'' in
      if xdg \<noteq> [] then path_Join [xdg, ''speedtest'', ''config.json'']
      else let home = env ''HOME'' in
        if home \<noteq> [] then path_Join [home, ''.config'', ''speedtest'', ''config.json''] else [])"

definition configPath :: "string \<Rightarrow> (string \<Rightarrow> string) \<Rightarrow> (string list \<Rightarrow> string) \<Rightarrow> string" where
  "configPath cliPath env search =
     (if cliPath \<noteq> [] then cliPath
      else let p = env ''SPEEDTEST_CONFIG'' in
        if p \<noteq> [] then p
        else search [''./speedtest.json'', xdgConfigPath env, ''/etc/speedtest/config.json''])"

section \<open>LoadWithSources\<close>

datatype load_error = CliErr flag_error | FileErr string file_error

definition LoadWithSources ::
    "(string \<Rightarrow> bool option) \<Rightarrow> (string \<Rightarrow> string option) \<Rightarrow> (string \<Rightarrow> json option) \<Rightarrow>
     string list \<Rightarrow> (string \<Rightarrow> string) \<Rightarrow> load_error + (config \<times> CLIOpts)" where
  "LoadWithSources stat open_file parse args env =
     (case parseCLI args of
        Inl e \<Rightarrow> Inl (CliErr e)
      | Inr (cli, opts) \<Rightarrow>
          (let path = configPath (cli_configPath cli) env (fileSystemSearch stat);
               cfg0 = defaults\<lparr>ConfigFilePath := path\<rparr>
           in case (if path \<noteq> [] then
                      (case readJSONFile open_file parse path of
                         Inl e \<Rightarrow> Inl (FileErr path e)
                       | Inr fc \<Rightarrow> Inr (applyJSON cfg0 fc))
                    else Inr cfg0) of
                Inl e \<Rightarrow> Inl e
              | Inr cfg1 \<Rightarrow>
                  (let cfg = applyCLI (overlayEnv cfg1 env) cli;
                       v = env ''SPEEDTEST_CONFIG'';
                       cfg' = (if ConfigFilePath cfg = [] \<and> v \<noteq> [] then cfg\<lparr>ConfigFilePath := v\<rparr> else cfg)
                   in Inr (cfg', opts))))"


section \<open>One overlay for all layers\<close>

text \<open>
  Abstract view: a layer is a \<open>patch\<close>, one optional setting per field (the record of the JSON file
  serves for it), and every layer is applied the same way. \<open>fld\<close> is that way for one field: a
  setting is taken when it passes the field's check, otherwise the value underneath stays.
\<close>

definition fld :: "('a \<Rightarrow> bool) \<Rightarrow> ('a \<Rightarrow> 'b) \<Rightarrow> 'b \<Rightarrow> 'a option \<Rightarrow> 'b" where
  "fld ok f old p = (case p of None \<Rightarrow> old | Some v \<Rightarrow> if ok v then f v else old)"

definition pick :: "('a \<Rightarrow> bool) \<Rightarrow> 'a option \<Rightarrow> 'a option \<Rightarrow> 'a option" where
  "pick ok p q = (case q of None \<Rightarrow> p | Some v \<Rightarrow> if ok v then q else p)"

lemma fld_fld [simp]: "fld ok f (fld ok f old p) q = fld ok f old (pick ok p q)"
  by (auto simp: fld_def pick_def split: option.splits)

definition between :: "int \<Rightarrow> int \<Rightarrow> int \<Rightarrow> bool" where
  "between lo hi n \<longleftrightarrow> lo \<le> n \<and> n \<le> hi"

definition is_port :: "string \<Rightarrow> bool" where
  "is_port v \<longleftrightarrow> Atoi v \<noteq> None"

definition is_mode :: "string \<Rightarrow> bool" where
  "is_mode v \<longleftrightarrow> v = ModeSize \<or> v = ModeTime"

definition any :: "string \<Rightarrow> bool" where
  "any v \<longleftrightarrow> True"

lemma applyJSON_fld:
  "applyJSON c p = c\<lparr>
     Host := fld any id (Host c) (j_Host p), Port := fld is_port id (Port c) (j_Port p),
     Mode := fld is_mode id (Mode c) (j_Mode p),
     Duration := fld (\<lambda>n. 1 \<le> n) secs (Duration c) (j_DurationSec p),
     DownloadMB := fld (between 1 10240) id (DownloadMB c) (j_DownloadMB p),
     UploadMB := fld (between 1 10240) id (UploadMB c) (j_UploadMB p),
     Streams := fld (between 1 32) id (Streams c) (j_Streams p),
     MaxConcurrent := fld (between 1 100) id (MaxConcurrent c) (j_MaxConcurrent p),
     WarmupMs := fld (between 0 10000) id (WarmupMs c) (j_WarmupMs p),
     DBPath := fld any id (DBPath c) (j_DBPath p),
     HistoryRetentionDays := fld (between 0 3650) id (HistoryRetentionDays c) (j_HistoryRetentionDays p),
     RatePerMin := fld (between 0 100000) id (RatePerMin c) (j_RatePerMin p),
     GeoIPDBPath := fld any id (GeoIPDBPath c) (j_GeoIPDBPath p),
     GeoIPLicenseKey := fld any id (GeoIPLicenseKey c) (j_GeoIPLicenseKey p),
     GeoIPEdition := fld (\<lambda>v. v \<noteq> []) id (GeoIPEdition c) (j_GeoIPEdition p)\<rparr>"
proof -
  have clamp_fld: "\<And>x lo hi old. (case x of None \<Rightarrow> old | Some n \<Rightarrow> clamp n lo hi old) = fld (between lo hi) id old x"
    by (auto simp: fld_def between_def clamp_def split: option.splits)
  have any_fld: "\<And>x old. (case x of None \<Rightarrow> old | Some v \<Rightarrow> v) = fld any id old x"
    by (auto simp: fld_def any_def split: option.splits)
  have mode_fld: "\<And>x old. (case x of None \<Rightarrow> old | Some v \<Rightarrow> mode_of v old) = fld is_mode id old x"
    by (auto simp: fld_def is_mode_def mode_of_def split: option.splits)
  have other_fld: "\<And>x old. (case x of None \<Rightarrow> old | Some v \<Rightarrow> if Atoi v \<noteq> None then v else old) = fld is_port id old x"
    "\<And>x old. (case x of None \<Rightarrow> old | Some n \<Rightarrow> if n \<ge> 1 then secs n else old) = fld (\<lambda>n. 1 \<le> n) secs old x"
    "\<And>x old. (case x of None \<Rightarrow> old | Some v \<Rightarrow> if v \<noteq> [] then v else old) = fld (\<lambda>v. v \<noteq> []) id old x"
    by (auto simp: fld_def is_port_def split: option.splits)
  show ?thesis
    unfolding applyJSON_def clamp_fld any_fld mode_fld other_fld ..
qed

text \<open>Two patches in sequence are one: the later valid setting wins, field by field.\<close>

definition merge_patch :: "jsonConfig \<Rightarrow> jsonConfig \<Rightarrow> jsonConfig" where
  "merge_patch p q = \<lparr>
     j_Host = pick any (j_Host p) (j_Host q), j_Port = pick is_port (j_Port p) (j_Port q),
     j_Mode = pick is_mode (j_Mode p) (j_Mode q),
     j_DurationSec = pick (\<lambda>n. 1 \<le> n) (j_DurationSec p) (j_DurationSec q),
     j_DownloadMB = pick (between 1 10240) (j_DownloadMB p) (j_DownloadMB q),
     j_UploadMB = pick (between 1 10240) (j_UploadMB p) (j_UploadMB q),
     j_Streams = pick (between 1 32) (j_Streams p) (j_Streams q),
     j_MaxConcurrent = pick (between 1 100) (j_MaxConcurrent p) (j_MaxConcurrent q),
     j_WarmupMs = pick (between 0 10000) (j_WarmupMs p) (j_WarmupMs q),
     j_DBPath = pick any (j_DBPath p) (j_DBPath q),
     j_HistoryRetentionDays = pick (between 0 3650) (j_HistoryRetentionDays p) (j_HistoryRetentionDays q),
     j_RatePerMin = pick (between 0 100000) (j_RatePerMin p) (j_RatePerMin q),
     j_GeoIPDBPath = pick any (j_GeoIPDBPath p) (j_GeoIPDBPath q),
     j_GeoIPLicenseKey = pick any (j_GeoIPLicenseKey p) (j_GeoIPLicenseKey q),
     j_GeoIPEdition = pick (\<lambda>v. v \<noteq> []) (j_GeoIPEdition p) (j_GeoIPEdition q)\<rparr>"

lemma applyJSON_merge: "applyJSON (applyJSON c p) q = applyJSON c (merge_patch p q)"
  by (simp add: applyJSON_fld merge_patch_def)

text \<open>The environment and the command line as patches.\<close>

definition nonempty :: "string \<Rightarrow> string option" where
  "nonempty v = (if v = [] then None else Some v)"

definition env_patch :: "(string \<Rightarrow> string) \<Rightarrow> jsonConfig" where
  "env_patch env = \<lparr>
     j_Host = nonempty (env ''SPEEDTEST_HOST''), j_Port = nonempty (env ''SPEEDTEST_PORT''),
     j_Mode = nonempty (env ''SPEEDTEST_MODE''), j_DurationSec = Atoi (env ''SPEEDTEST_DURATION''),
     j_DownloadMB = Atoi (env ''SPEEDTEST_DOWNLOAD_SIZE''),
     j_UploadMB = Atoi (env ''SPEEDTEST_UPLOAD_SIZE''), j_Streams = Atoi (env ''SPEEDTEST_STREAMS''),
     j_MaxConcurrent = Atoi (env ''SPEEDTEST_MAX_CONCURRENT''),
     j_WarmupMs = Atoi (env ''SPEEDTEST_WARMUP_MS''), j_DBPath = nonempty (env ''SPEEDTEST_DB_PATH''),
     j_HistoryRetentionDays = Atoi (env ''SPEEDTEST_HISTORY_RETENTION_DAYS''),
     j_RatePerMin = Atoi (env ''SPEEDTEST_RATE_PER_MIN''),
     j_GeoIPDBPath = nonempty (env ''SPEEDTEST_GEOIP_DB''),
     j_GeoIPLicenseKey = nonempty (env ''SPEEDTEST_GEOIP_LICENSE_KEY''),
     j_GeoIPEdition = nonempty (env ''SPEEDTEST_GEOIP_EDITION'')\<rparr>"

definition given :: "bool \<Rightarrow> 'a \<Rightarrow> 'a option" where
  "given b v = (if b then Some v else None)"

definition cli_patch :: "cliValues \<Rightarrow> jsonConfig" where
  "cli_patch cli = \<lparr>
     j_Host = given (setHost cli) (cli_host cli), j_Port = given (setPort cli) (cli_port cli),
     j_Mode = given (setMode cli) (cli_mode cli),
     j_DurationSec = given (setDurationSec cli) (cli_durationSec cli),
     j_DownloadMB = given (setDownloadMB cli) (cli_downloadMB cli),
     j_UploadMB = given (setUploadMB cli) (cli_uploadMB cli),
     j_Streams = given (setStreams cli) (cli_streams cli),
     j_MaxConcurrent = given (setMaxConcurrent cli) (cli_maxConcurrent cli),
     j_WarmupMs = given (setWarmupMs cli) (cli_warmupMs cli),
     j_DBPath = given (setDBPath cli) (cli_dbPath cli), j_HistoryRetentionDays = None,
     j_RatePerMin = given (setRatePerMin cli) (cli_ratePerMin cli),
     j_GeoIPDBPath = given (setGeoIPDBPath cli) (cli_geoIPDBPath cli),
     j_GeoIPLicenseKey = given (setGeoIPLicenseKey cli) (cli_geoIPLicenseKey cli),
     j_GeoIPEdition = given (setGeoIPEdition cli) (cli_geoIPEdition cli)\<rparr>"

lemma overlayEnv_patch: "overlayEnv c env = applyJSON c (env_patch env)"
proof -
  have int: "\<And>v lo hi old. env_overlay_int v lo hi old = fld (between lo hi) id old (Atoi v)"
    by (auto simp: env_overlay_int_def fld_def between_def clamp_def split: option.splits)
  have str: "\<And>v old. (if v \<noteq> [] then v else old) = fld any id old (nonempty v)"
    "\<And>v old. (if v \<noteq> [] then v else old) = fld (\<lambda>v. v \<noteq> []) id old (nonempty v)"
    "\<And>v old. (if v \<noteq> [] then (if Atoi v \<noteq> None then v else old) else old) = fld is_port id old (nonempty v)"
    "\<And>v old. (if v \<noteq> [] then mode_of v old else old) = fld is_mode id old (nonempty v)"
    "\<And>v old. (if v \<noteq> [] then (case Atoi v of None \<Rightarrow> old | Some n \<Rightarrow> if n \<ge> 1 then secs n else old) else old)
        = fld (\<lambda>n. 1 \<le> n) secs old (Atoi v)"
    by (auto simp: fld_def nonempty_def any_def is_port_def is_mode_def mode_of_def split: option.splits)
  show ?thesis
    by (simp only: overlayEnv_def applyJSON_fld env_patch_def Let_def int str jsonConfig.simps)
       (simp add: fld_def nonempty_def any_def)
qed

lemma applyCLI_patch: "applyCLI c cli = applyJSON c (cli_patch cli)"
  by (simp add: applyCLI_def applyJSON_fld cli_patch_def given_def fld_def between_def clamp_def
      is_port_def is_mode_def mode_of_def any_def)


section \<open>A concrete run\<close>

text \<open>A concrete run: a flag of each syntax over an environment, with no file.\<close>

definition demo_args :: "string list" where
  "demo_args = [''--port'', ''9090'', ''-streams=8'']"

definition demo_env :: "string \<Rightarrow> string" where
  "demo_env k = (if k = ''SPEEDTEST_MODE'' then ''size'' else if k = ''SPEEDTEST_PORT'' then ''7070'' else [])"

definition demo_cfg :: config where
  "demo_cfg = defaults\<lparr>Port := ''9090'', Mode := ModeSize, Streams := 8\<rparr>"

lemma demo_load:
  "LoadWithSources (\<lambda>_. None) (\<lambda>_. None) (\<lambda>_. None) demo_args demo_env = Inr (demo_cfg, \<lparr>ShowVersion = False\<rparr>)"
  by code_simp

lemma demo_cli:
  "parseCLI [''--config'', ''/x''] = Inr (cli0\<lparr>cli_configPath := ''/x''\<rparr>, \<lparr>ShowVersion = False\<rparr>)"
  by code_simp

section \<open>Properties of the loader\<close>

lemma applyJSON_path: "applyJSON (c\<lparr>ConfigFilePath := x\<rparr>) p = (applyJSON c p)\<lparr>ConfigFilePath := x\<rparr>"
  by (simp add: applyJSON_fld)

lemma load_cases:
  assumes "LoadWithSources stat open_file parse args env = Inr (cfg, opts)"
  obtains cli fc where "parseCLI args = Inr (cli, opts)"
    and "(if configPath (cli_configPath cli) env (fileSystemSearch stat) = [] then fc = jsonConfig0
          else readJSONFile open_file parse (configPath (cli_configPath cli) env (fileSystemSearch stat)) = Inr fc)"
    and "cfg = (applyCLI (overlayEnv (applyJSON defaults fc) env) cli)
           \<lparr>ConfigFilePath := configPath (cli_configPath cli) env (fileSystemSearch stat)\<rparr>"
proof -
  have nofile: "applyJSON c jsonConfig0 = c" for c
    by (simp add: applyJSON_fld jsonConfig0_def fld_def)
  have path_upd: "(applyCLI (overlayEnv (applyJSON (c\<lparr>ConfigFilePath := x\<rparr>) fc) env) cli)
      = (applyCLI (overlayEnv (applyJSON c fc) env) cli)\<lparr>ConfigFilePath := x\<rparr>" for c x fc cli
    by (simp only: applyCLI_patch overlayEnv_patch applyJSON_merge applyJSON_path)
  obtain cli where cli: "parseCLI args = Inr (cli, opts)"
    using assms by (auto simp: LoadWithSources_def Let_def split: sum.splits prod.splits if_splits)
  let ?path = "configPath (cli_configPath cli) env (fileSystemSearch stat)"
  have echo: "?path = [] \<Longrightarrow> env ''SPEEDTEST_CONFIG'' = []"
    by (auto simp: configPath_def Let_def split: if_splits)
  show thesis
  proof (cases "?path = []")
    case True
    have "cfg = (applyCLI (overlayEnv (applyJSON defaults jsonConfig0) env) cli)\<lparr>ConfigFilePath := ?path\<rparr>"
      using assms cli True echo path_upd [where c = defaults and x = "[]" and fc = jsonConfig0 and cli = cli]
      by (simp add: LoadWithSources_def Let_def nofile)
    with True cli show ?thesis by (intro that [of cli jsonConfig0]) simp_all
  next
    case False
    then obtain fc where fc: "readJSONFile open_file parse ?path = Inr fc"
      using assms cli by (auto simp: LoadWithSources_def Let_def split: sum.splits)
    have "cfg = (applyCLI (overlayEnv (applyJSON defaults fc) env) cli)\<lparr>ConfigFilePath := ?path\<rparr>"
      using assms cli False fc path_upd [where c = defaults and x = ?path and fc = fc and cli = cli]
      by (simp add: LoadWithSources_def Let_def)
    with False cli fc show ?thesis by (intro that [of cli fc]) simp_all
  qed
qed

lemma wf_ConfigFilePath [simp]: "wf_config (c\<lparr>ConfigFilePath := x\<rparr>) = wf_config c"
  by (simp add: wf_config_def)

lemma load_wf:
  assumes "LoadWithSources stat open_file parse args env = Inr (cfg, opts)"
  shows "wf_config cfg"
  using assms
  by (rule load_cases)
     (simp add: cli_layer.keeps_wf env_layer.keeps_wf json_layer.over_defaults)



text \<open>C27: precedence. A successful load is the defaults patched once, where each field takes the
  highest of command line, environment and file that gives it a valid value.\<close>

theorem LoadWithSources_precedence:
  assumes "LoadWithSources stat open_file parse args env = Inr (cfg, opts)"
  shows "\<exists>cli fc path. parseCLI args = Inr (cli, opts) \<and>
           path = configPath (cli_configPath cli) env (fileSystemSearch stat) \<and>
           (path = [] \<and> fc = jsonConfig0 \<or> readJSONFile open_file parse path = Inr fc) \<and>
           cfg = (applyJSON defaults (merge_patch (merge_patch fc (env_patch env)) (cli_patch cli)))
                   \<lparr>ConfigFilePath := path\<rparr>"
  using assms
  by (rule load_cases)
     (auto simp: overlayEnv_patch applyCLI_patch applyJSON_merge split: if_splits)

theorem LoadWithSources_precedence_witness:
  "\<exists>cli fc path. parseCLI demo_args = Inr (cli, \<lparr>ShowVersion = False\<rparr>) \<and>
     path = configPath (cli_configPath cli) demo_env (fileSystemSearch (\<lambda>_. None)) \<and>
     (path = [] \<and> fc = jsonConfig0 \<or> readJSONFile (\<lambda>_. None) (\<lambda>_. None) path = Inr fc) \<and>
     demo_cfg = (applyJSON defaults (merge_patch (merge_patch fc (env_patch demo_env)) (cli_patch cli)))
                   \<lparr>ConfigFilePath := path\<rparr>"
  by (rule LoadWithSources_precedence [OF demo_load])

lemma explicit_missing:
  assumes "parseCLI args = Inr (cli, opts)"
    and "configPath (cli_configPath cli) env (fileSystemSearch stat) = p" and "p \<noteq> []"
    and "open_file p = None"
  shows "LoadWithSources stat open_file parse args env = Inl (FileErr p OpenError)"
  using assms by (simp add: LoadWithSources_def readJSONFile_def Let_def)

lemma search_none: "(\<forall>p. stat p \<noteq> Some False) \<Longrightarrow> fileSystemSearch stat ps = []"
  by (induction ps) auto

lemma no_file:
  assumes "parseCLI args = Inr (cli, opts)"
    and "configPath (cli_configPath cli) env (fileSystemSearch stat) = []"
  shows "LoadWithSources stat open_file parse args env = Inr (applyCLI (overlayEnv defaults env) cli, opts)"
proof -
  have "env ''SPEEDTEST_CONFIG'' = []"
    using assms(2) by (auto simp: configPath_def Let_def split: if_splits)
  moreover have "defaults\<lparr>ConfigFilePath := []\<rparr> = defaults"
    by (simp add: defaults_def)
  ultimately show ?thesis
    using assms by (simp add: LoadWithSources_def Let_def)
qed

definition explicit_path :: "cliValues \<Rightarrow> (string \<Rightarrow> string) \<Rightarrow> string" where
  "explicit_path cli env = (if cli_configPath cli \<noteq> [] then cli_configPath cli else env ''SPEEDTEST_CONFIG'')"





text \<open>A duration of \<open>n\<close> seconds from the environment is \<open>n\<close> seconds of nanoseconds exactly when
  \<open>n\<close> is at most 9223372036; above that the 64-bit product wraps around (there is no upper bound on
  the setting).\<close>

theorem overlayEnv_duration_exact_iff:
  assumes "Atoi (env ''SPEEDTEST_DURATION'') = Some n" and "1 \<le> n"
  shows "Duration (overlayEnv c env) = n * Second \<longleftrightarrow> n \<le> 9223372036"
proof -
  have "env ''SPEEDTEST_DURATION'' \<noteq> []" using assms(1) by auto
  then have d: "Duration (overlayEnv c env) = secs n"
    using assms by (simp add: overlayEnv_def Let_def)
  show ?thesis
  proof
    assume "Duration (overlayEnv c env) = n * Second"
    then have "in_i64 (n * Second)" using secs_i64 [of n] d by simp
    then show "n \<le> 9223372036" by (simp add: in_i64_def Second_def)
  next
    assume "n \<le> 9223372036"
    with assms(2) show "Duration (overlayEnv c env) = n * Second" by (simp add: d secs_exact)
  qed
qed

lemma Atoi_30: "Atoi ''30'' = Some 30"
  by code_simp

theorem overlayEnv_duration_exact_iff_witness:
  "Duration (overlayEnv defaults (\<lambda>k. ''30'')) = 30 * Second \<longleftrightarrow> (30::int) \<le> 9223372036"
  by (rule overlayEnv_duration_exact_iff) (simp_all add: Atoi_30)

lemma Atoi_9223372037: "Atoi ''9223372037'' = Some 9223372037"
  by (simp add: Atoi_def sign_split_def digit36_def byte_of_def to_lower_def signed_value_def in_i64_def)

text \<open>The smallest wrapping value already gives a negative duration.\<close>

lemma duration_wraps_negative: "Duration (overlayEnv c (\<lambda>k. ''9223372037'')) < 0"
  by (simp add: overlayEnv_def Atoi_9223372037 secs_def i64_def Second_def)

section \<open>Load and LoadWithSources compared\<close>

text \<open>
  The two loaders read the same variables. They agree when no integer variable is above its upper
  bound and none of the four variables that \<open>Load\<close> reads with \<open>envStrAllowEmpty\<close> is set but empty.
\<close>

definition int_vars :: "(string \<times> int) list" where
  "int_vars = [(''SPEEDTEST_DOWNLOAD_SIZE'', 10240), (''SPEEDTEST_UPLOAD_SIZE'', 10240),
     (''SPEEDTEST_STREAMS'', 32), (''SPEEDTEST_MAX_CONCURRENT'', 100), (''SPEEDTEST_WARMUP_MS'', 10000),
     (''SPEEDTEST_HISTORY_RETENTION_DAYS'', 3650), (''SPEEDTEST_RATE_PER_MIN'', 100000)]"

definition may_be_empty_vars :: "string list" where
  "may_be_empty_vars = [''SPEEDTEST_DB_PATH'', ''SPEEDTEST_CONFIG'', ''SPEEDTEST_GEOIP_DB'',
     ''SPEEDTEST_GEOIP_LICENSE_KEY'']"

definition plain_environ :: "environ \<Rightarrow> bool" where
  "plain_environ e \<longleftrightarrow>
     list_all (\<lambda>(k, hi). case Atoi (Getenv e k) of None \<Rightarrow> True | Some n \<Rightarrow> n \<le> hi) int_vars \<and>
     list_all (\<lambda>k. e k \<noteq> Some []) may_be_empty_vars"

lemma envInt_overlay:
  "(case Atoi (Getenv e k) of None \<Rightarrow> True | Some n \<Rightarrow> n \<le> hi) \<Longrightarrow>
     envInt e k d lo hi = env_overlay_int (Getenv e k) lo hi d"
  by (auto simp: envInt_def env_overlay_int_def clamp_def Let_def split: option.splits)

lemma envStrAllowEmpty_overlay:
  "e k \<noteq> Some [] \<Longrightarrow> envStrAllowEmpty e k d = (if Getenv e k \<noteq> [] then Getenv e k else d)"
  by (auto simp: envStrAllowEmpty_def Getenv_def split: option.splits)

lemma env_field_overlay:
  "envStr e k d = (let v = Getenv e k in if v \<noteq> [] then v else d)"
  "envPort e k d = (let v = Getenv e k in if v \<noteq> [] then (if Atoi v \<noteq> None then v else d) else d)"
  "envMode e k m = (let v = Getenv e k in if v \<noteq> [] then mode_of v m else m)"
  "envDuration e k n = (let v = Getenv e k in if v \<noteq> [] then
     (case Atoi v of None \<Rightarrow> secs n | Some i \<Rightarrow> if i \<ge> 1 then secs i else secs n) else secs n)"
  "e k \<noteq> Some [] \<Longrightarrow> envStrAllowEmpty e k d = (let v = Getenv e k in if v \<noteq> [] then v else d)"
  by (auto simp: envStr_def envPort_def envMode_def envDuration_def mode_of_def ModeSize_def ModeTime_def
      envStrAllowEmpty_overlay Let_def split: option.splits)

lemma secs_15: "secs 15 = 15 * Second"
  by (rule secs_exact) simp_all

text \<open>On such environments \<open>Load\<close> is the environment layer over the defaults.\<close>

theorem Load_eq_overlayEnv:
  assumes "plain_environ e"
  shows "Load e = overlayEnv (defaults\<lparr>ConfigFilePath := Getenv e ''SPEEDTEST_CONFIG''\<rparr>) (Getenv e)"
  by (rule config.equality; use assms [unfolded plain_environ_def int_vars_def may_be_empty_vars_def list.pred_inject prod.case] in
    \<open>simp add: Load_def overlayEnv_def defaults_def envInt_overlay env_field_overlay secs_15 Let_def
        split: option.split\<close>)

theorem Load_eq_overlayEnv_witness:
  "Load [''SPEEDTEST_DURATION'' \<mapsto> ''30''] =
     overlayEnv (defaults\<lparr>ConfigFilePath := Getenv [''SPEEDTEST_DURATION'' \<mapsto> ''30''] ''SPEEDTEST_CONFIG''\<rparr>)
       (Getenv [''SPEEDTEST_DURATION'' \<mapsto> ''30''])"
  by (rule Load_eq_overlayEnv) (simp add: plain_environ_def int_vars_def may_be_empty_vars_def Getenv_def)

text \<open>Where they differ. An empty \<open>SPEEDTEST_DB_PATH\<close> switches the history off under \<open>Load\<close> and
  is ignored by the layered loader; a value above an upper bound is capped by \<open>Load\<close> and ignored by
  the layered loader.\<close>

theorem Load_layered_differences:
  "DBPath (Load (e(''SPEEDTEST_DB_PATH'' \<mapsto> []))) = [] \<and>
   DBPath (overlayEnv c (Getenv (e(''SPEEDTEST_DB_PATH'' \<mapsto> [])))) = DBPath c \<and>
   Streams (Load (e(''SPEEDTEST_STREAMS'' \<mapsto> ''33''))) = 32 \<and>
   Streams (overlayEnv c (Getenv (e(''SPEEDTEST_STREAMS'' \<mapsto> ''33'')))) = Streams c"
proof -
  have "Atoi ''33'' = Some 33" by code_simp
  then show ?thesis
    by (simp add: Load_def overlayEnv_def envStrAllowEmpty_def envInt_def env_overlay_int_def clamp_def Getenv_def)
qed

section \<open>Flag syntax\<close>

definition takes_value :: "string \<Rightarrow> bool" where
  "takes_value name \<longleftrightarrow> (case map_of formal name of Some (StringVar _) \<Rightarrow> True | Some (IntVar _) \<Rightarrow> True | _ \<Rightarrow> False)"

lemma formal_name: "map_of formal name = Some fv \<Longrightarrow>
    name \<noteq> [] \<and> hd name \<noteq> CHR ''-'' \<and> CHR ''='' \<notin> set name"
  by (auto simp: formal_def split: if_splits)

lemma before_sep_append: "d \<notin> set w \<Longrightarrow> before_sep d (w @ d # s) = w"
  by (induction w) (auto simp: before_sep_def)

lemma before_sep_id: "d \<notin> set w \<Longrightarrow> before_sep d w = w"
  by (induction w) (auto simp: before_sep_def)

lemma tokenise_flag:
  assumes "name \<noteq> []" and "hd name \<noteq> CHR ''-''" and "CHR ''='' \<notin> set name" and "dashes \<in> {''-'', ''--''}"
  shows "tokenise (dashes @ name) = FlagTok name None"
    and "tokenise (dashes @ name @ ''='' @ v) = FlagTok name (Some v)"
proof -
  obtain c cs where name: "name = c # cs" "c \<noteq> CHR ''-''" "c \<noteq> CHR ''=''" "CHR ''='' \<notin> set cs"
    using assms by (cases name) auto
  have "before_sep CHR ''='' name = name" "before_sep CHR ''='' (name @ CHR ''='' # v) = name"
    using assms(3) by (simp_all add: before_sep_id before_sep_append)
  with assms(4) name show "tokenise (dashes @ name) = FlagTok name None"
    and "tokenise (dashes @ name @ ''='' @ v) = FlagTok name (Some v)"
    by (auto simp: tokenise_def Let_def)
qed

text \<open>The four spellings of a flag with a value are the same: one or two dashes, and the value
  after an equals sign or as the next argument.\<close>

theorem flag_spellings:
  assumes "takes_value name" and "dashes \<in> {''-'', ''--''}"
  shows "flag_parse ((dashes @ name @ ''='' @ v) # args) st = flag_parse ((''--'' @ name) # v # args) st"
proof -
  obtain fv where fv: "map_of formal name = Some fv" and kind: "\<forall>b. fv \<noteq> BoolVar b"
    using assms(1) by (auto simp: takes_value_def split: option.splits flag_var.splits)
  have n: "name \<noteq> []" "hd name \<noteq> CHR ''-''" "CHR ''='' \<notin> set name"
    using formal_name [OF fv] by auto
  have "tokenise (''--'' @ name) = FlagTok name None" by (rule tokenise_flag(1) [OF n]) simp
  moreover have "tokenise (dashes @ name @ ''='' @ v) = FlagTok name (Some v)"
    by (rule tokenise_flag(2) [OF n assms(2)])
  ultimately show ?thesis
    using fv kind by (cases fv) (simp_all add: flag_parse.simps(2))
qed

theorem flag_spellings_witness:
  "flag_parse [''-port=9090''] \<lparr>fs_cli = cli0, fs_opts = \<lparr>ShowVersion = False\<rparr>, fs_actual = []\<rparr> =
   flag_parse [''--port'', ''9090''] \<lparr>fs_cli = cli0, fs_opts = \<lparr>ShowVersion = False\<rparr>, fs_actual = []\<rparr>"
  using flag_spellings [of "''port''" "''-''" "''9090''" "[]"]
  by (simp add: takes_value_def formal_def)

end
