(* ===== verification/Http.thy ===== *)
theory Http
  imports Go_Json
begin

text \<open>
  The view of \<open>net/http\<close> the handlers have: a parsed request and a reply. A handler is a function
  from the state it uses and the request to a reply and the new state. The header maps are keyed by
  canonical names, and \<open>Query\<close> is the parsed query string (\<open>r.URL.Query()\<close>), both as \<open>net/http\<close>
  hands them over.
\<close>

section \<open>Requests\<close>

text \<open>How reading a body ends: at its end, or with an error (client gone, bad framing).\<close>

datatype read_end = EOF | ReadError | MaxBytesError

record request =
  Method :: string
  Path :: string
  Query :: "(string \<times> string) list"
  Header :: "(string \<times> string) list"
  RemoteAddr :: string
  Body :: "string list"
  BodyEnd :: read_end

definition first_value :: "(string \<times> string) list \<Rightarrow> string \<Rightarrow> string" where
  "first_value kvs k = (case map_of kvs k of None \<Rightarrow> [] | Some v \<Rightarrow> v)"

definition query_Get :: "request \<Rightarrow> string \<Rightarrow> string" where
  "query_Get r k = first_value (Query r) k"

definition header_Get :: "request \<Rightarrow> string \<Rightarrow> string" where
  "header_Get r k = first_value (Header r) k"

definition MethodGet :: string where "MethodGet = ''GET''"
definition MethodPost :: string where "MethodPost = ''POST''"

section \<open>Replies\<close>

text \<open>
  The payload is text, a JSON value, or a number of bytes of the shared random buffer. \<open>headers\<close> are
  the ones set before the status line goes out.
\<close>

datatype payload = Text string | Json json | RandomBytes int

record reply =
  status :: int
  headers :: "string \<rightharpoonup> string"
  payload :: payload

definition StatusOK :: int where "StatusOK = 200"
definition StatusCreated :: int where "StatusCreated = 201"
definition StatusBadRequest :: int where "StatusBadRequest = 400"
definition StatusMethodNotAllowed :: int where "StatusMethodNotAllowed = 405"
definition StatusTooManyRequests :: int where "StatusTooManyRequests = 429"
definition StatusInternalServerError :: int where "StatusInternalServerError = 500"
definition StatusServiceUnavailable :: int where "StatusServiceUnavailable = 503"

lemmas status_codes = StatusOK_def StatusCreated_def StatusBadRequest_def StatusMethodNotAllowed_def
  StatusTooManyRequests_def StatusInternalServerError_def StatusServiceUnavailable_def

text \<open>\<open>http.Error\<close> over the headers set so far: plain text, and no content length.\<close>

definition http_Error :: "(string \<rightharpoonup> string) \<Rightarrow> string \<Rightarrow> int \<Rightarrow> reply" where
  "http_Error h msg code = \<lparr>status = code,
     headers = (h(''Content-Length'' := None))
       (''Content-Type'' \<mapsto> ''text/plain; charset=utf-8'', ''X-Content-Type-Options'' \<mapsto> ''nosniff''),
     payload = Text (msg @ [char_of (10::nat)])\<rparr>"

definition method_not_allowed :: reply where
  "method_not_allowed = http_Error Map.empty ''method not allowed'' StatusMethodNotAllowed"

text \<open>\<open>writeJSON\<close> of \<open>handler.go\<close>: status 200 over the headers set so far.\<close>

definition writeJSON :: "(string \<rightharpoonup> string) \<Rightarrow> json \<Rightarrow> reply" where
  "writeJSON h v = \<lparr>status = StatusOK, headers = h(''Content-Type'' \<mapsto> ''application/json''), payload = Json v\<rparr>"

definition jint :: "int \<Rightarrow> json" where
  "jint n = JNum (Itoa n)"

end
