(* ===== verification/Net_IP.thy ===== *)
theory Net_IP
  imports Go_Prelude
begin

text \<open>
  IP addresses as package \<open>net\<close> of the standard library has them: \<open>net.ParseIP\<close>,
  \<open>(net.IP).String\<close>, the address classes and \<open>net.SplitHostPort\<close>. \<open>net.ParseIP\<close> always yields the
  16-byte form (an IPv4 address is IPv4-mapped), so an address is a list of 16 bytes and nil is
  \<open>None\<close>.
\<close>

unbundle bit_operations_syntax

type_synonym ip = "8 word list"

section \<open>Parsing\<close>

subsection \<open>Dotted decimal\<close>

text \<open>\<open>parseIPv4Fields\<close>: exactly four fields, each with at least one digit, only decimal digits, no
  leading zero, and a value of at most 255.\<close>

definition decimal_digit :: "char \<Rightarrow> bool" where
  "decimal_digit c \<longleftrightarrow> 48 \<le> byte_of c \<and> byte_of c \<le> 57"

definition parse_octet :: "string \<Rightarrow> 8 word option" where
  "parse_octet w =
     (if w = [] \<or> \<not> list_all decimal_digit w \<or> (length w > 1 \<and> hd w = CHR ''0'') then None
      else case read_base 10 0 w of None \<Rightarrow> None | Some n \<Rightarrow> if n > 255 then None else Some (word_of_nat n))"

fun all_some :: "'a option list \<Rightarrow> 'a list option" where
  "all_some [] = Some []"
| "all_some (x # xs) = (case x of None \<Rightarrow> None | Some v \<Rightarrow>
     (case all_some xs of None \<Rightarrow> None | Some vs \<Rightarrow> Some (v # vs)))"

definition parseIPv4Fields :: "string \<Rightarrow> 8 word list option" where
  "parseIPv4Fields s = (let ws = split_on CHR ''.'' s in
     if length ws = 4 then all_some (map parse_octet ws) else None)"

definition v4_prefix :: "8 word list" where
  "v4_prefix = replicate 10 0 @ [255, 255]"

definition parseIPv4 :: "string \<Rightarrow> ip option" where
  "parseIPv4 s = map_option (\<lambda>bs. v4_prefix @ bs) (parseIPv4Fields s)"

subsection \<open>Colon-separated hexadecimal\<close>

text \<open>The longest run of hexadecimal digits at the head: how many, their value and the rest. More
  than four digits is an error.\<close>

definition hex_digit :: "char \<Rightarrow> nat option" where
  "hex_digit c = (case digit36 c of Some d \<Rightarrow> if d < 16 then Some d else None | None \<Rightarrow> None)"

fun hex_group :: "nat \<Rightarrow> nat \<Rightarrow> string \<Rightarrow> (nat \<times> nat \<times> string) option" where
  "hex_group off acc [] = Some (off, acc, [])"
| "hex_group off acc (c # cs) =
     (case hex_digit c of None \<Rightarrow> Some (off, acc, c # cs)
      | Some d \<Rightarrow> if off > 3 then None else hex_group (Suc off) (acc * 16 + d) cs)"

text \<open>
  The loop of \<open>parseIPv6\<close>: \<open>bs\<close> are the bytes stored so far (the source's index \<open>i\<close> is their
  number), \<open>ell\<close> the position of the ellipsis, \<open>s\<close> the text left. The result is that state after
  the loop.
\<close>

function parse6 :: "8 word list \<Rightarrow> nat option \<Rightarrow> string \<Rightarrow> (8 word list \<times> nat option \<times> string) option" where
  "parse6 bs ell s =
     (if length bs < 16 then
        (case hex_group 0 0 s of
           None \<Rightarrow> None
         | Some (off, acc, rest) \<Rightarrow>
             if off = 0 then None
             else if rest \<noteq> [] \<and> hd rest = CHR ''.'' then
               (if ell = None \<and> length bs \<noteq> 12 then None
                else if length bs + 4 > 16 then None
                else (case parseIPv4Fields s of None \<Rightarrow> None | Some q \<Rightarrow> Some (bs @ q, ell, [])))
             else
               (let bs' = bs @ [word_of_nat (acc div 256), word_of_nat (acc mod 256)] in
                case rest of
                  [] \<Rightarrow> Some (bs', ell, [])
                | c # s1 \<Rightarrow>
                    if c \<noteq> CHR '':'' then None
                    else if s1 = [] then None
                    else if hd s1 = CHR '':'' then
                      (if ell \<noteq> None then None
                       else if tl s1 = [] then Some (bs', Some (length bs'), [])
                       else parse6 bs' (Some (length bs')) (tl s1))
                    else parse6 bs' ell s1))
      else Some (bs, ell, s))"
  by pat_completeness auto
termination
  by (relation "measure (\<lambda>(bs, ell, s). 16 - length bs)") auto

declare parse6.simps [simp del]

definition expand6 :: "8 word list \<times> nat option \<times> string \<Rightarrow> ip option" where
  "expand6 r = (case r of (bs, ell, s) \<Rightarrow>
     if s \<noteq> [] then None
     else if length bs < 16 then
       (case ell of None \<Rightarrow> None
        | Some e \<Rightarrow> Some (take e bs @ replicate (16 - length bs) 0 @ drop e bs))
     else if ell \<noteq> None then None else Some bs)"

text \<open>A zone (\<open>%\<close>) makes \<open>net.ParseIP\<close> fail, with or without text after it.\<close>

definition parseIPv6 :: "string \<Rightarrow> ip option" where
  "parseIPv6 s =
     (if CHR ''%'' \<in> set s then None
      else if prefix ''::'' s then
        (if drop 2 s = [] then Some (replicate 16 0)
         else Option.bind (parse6 [] (Some 0) (drop 2 s)) expand6)
      else Option.bind (parse6 [] None s) expand6)"

text \<open>\<open>netip.ParseAddr\<close> decides on the first of \<open>.\<close>, \<open>:\<close> and \<open>%\<close>.\<close>

fun addr_kind :: "string \<Rightarrow> char option" where
  "addr_kind [] = None"
| "addr_kind (c # cs) = (if c \<in> {CHR ''.'', CHR '':'', CHR ''%''} then Some c else addr_kind cs)"

definition ParseIP :: "string \<Rightarrow> ip option" where
  "ParseIP s = (case addr_kind s of
       Some c \<Rightarrow> if c = CHR ''.'' then parseIPv4 s else if c = CHR '':'' then parseIPv6 s else None
     | None \<Rightarrow> None)"

section \<open>Printing\<close>

definition To4 :: "ip \<Rightarrow> 8 word list option" where
  "To4 p = (if length p = 16 \<and> take 12 p = v4_prefix then Some (drop 12 p) else None)"

fun u16s :: "8 word list \<Rightarrow> nat list" where
  "u16s (a # b # r) = (unat a * 256 + unat b) # u16s r"
| "u16s _ = []"

text \<open>The run of zero groups that \<open>appendTo6\<close> shortens: the first of the longest runs of at least
  two, as start and end; \<open>(255, 255)\<close> when there is none.\<close>

definition zero_end :: "nat list \<Rightarrow> nat \<Rightarrow> nat" where
  "zero_end gs i = i + length (takeWhile (\<lambda>g. g = 0) (drop i gs))"

fun zero_run :: "nat list \<Rightarrow> nat list \<Rightarrow> nat \<times> nat \<Rightarrow> nat \<times> nat" where
  "zero_run gs [] best = best"
| "zero_run gs (i # is) (zs, ze) =
     (let j = zero_end gs i; l = j - i in
      zero_run gs is (if l \<ge> 2 \<and> l > ze - zs then (i, j) else (zs, ze)))"

definition hex_groups :: "nat list \<Rightarrow> string" where
  "hex_groups gs = join '':'' (map (show_base 16) gs)"

definition show6 :: "nat list \<Rightarrow> string" where
  "show6 gs = (case zero_run gs [0..<8] (255, 255) of (zs, ze) \<Rightarrow>
     if zs < 8 then hex_groups (take zs gs) @ ''::'' @ hex_groups (drop ze gs)
     else hex_groups gs)"

definition ip_String :: "ip \<Rightarrow> string" where
  "ip_String p = (case To4 p of
       Some q \<Rightarrow> join ''.'' (map (\<lambda>b. show_base 10 (unat b)) q)
     | None \<Rightarrow> show6 (u16s p))"

section \<open>Address classes\<close>

definition IsLoopback :: "ip \<Rightarrow> bool" where
  "IsLoopback p = (case To4 p of Some q \<Rightarrow> q ! 0 = 127 | None \<Rightarrow> p = replicate 15 0 @ [1])"

definition IsPrivate :: "ip \<Rightarrow> bool" where
  "IsPrivate p = (case To4 p of
       Some q \<Rightarrow> q ! 0 = 10 \<or> (q ! 0 = 172 \<and> q ! 1 AND 0xf0 = 16) \<or> (q ! 0 = 192 \<and> q ! 1 = 168)
     | None \<Rightarrow> length p = 16 \<and> p ! 0 AND 0xfe = 0xfc)"

definition IsLinkLocalUnicast :: "ip \<Rightarrow> bool" where
  "IsLinkLocalUnicast p = (case To4 p of
       Some q \<Rightarrow> q ! 0 = 169 \<and> q ! 1 = 254
     | None \<Rightarrow> length p = 16 \<and> p ! 0 = 0xfe \<and> p ! 1 AND 0xc0 = 0x80)"

definition IsLinkLocalMulticast :: "ip \<Rightarrow> bool" where
  "IsLinkLocalMulticast p = (case To4 p of
       Some q \<Rightarrow> q ! 0 = 224 \<and> q ! 1 = 0 \<and> q ! 2 = 0
     | None \<Rightarrow> length p = 16 \<and> p ! 0 = 0xff \<and> p ! 1 AND 0x0f = 0x02)"

text \<open>An \<open>IPNet\<close>: network number and mask, of the length of the family. \<open>Contains\<close> compares the
  4-byte form of the address when it has one.\<close>

record IPNet =
  net_IP :: "8 word list"
  net_Mask :: "8 word list"

definition Contains :: "IPNet \<Rightarrow> ip \<Rightarrow> bool" where
  "Contains n p = (let x = (case To4 p of Some q \<Rightarrow> q | None \<Rightarrow> p) in
     length x = length (net_IP n) \<and>
     list_all (\<lambda>(a, m, b). a AND m = b AND m) (zip (net_IP n) (zip (net_Mask n) x)))"

section \<open>Host and port\<close>

text \<open>
  \<open>net.SplitHostPort\<close>: the port follows the last colon; a host in brackets may hold colons, one
  without brackets may not; stray brackets are errors. \<open>None\<close> is any of its errors.
\<close>

definition last_colon :: "string \<Rightarrow> nat option" where
  "last_colon s = (if CHR '':'' \<in> set s
     then Some (length s - 1 - length (takeWhile (\<lambda>c. c \<noteq> CHR '':'') (rev s))) else None)"

definition SplitHostPort :: "string \<Rightarrow> (string \<times> string) option" where
  "SplitHostPort hp = (case last_colon hp of None \<Rightarrow> None
     | Some i \<Rightarrow>
         if hd hp = CHR ''['' then
           (if CHR '']'' \<notin> set hp then None
            else let e = length (takeWhile (\<lambda>c. c \<noteq> CHR '']'') hp) in
              if e + 1 \<noteq> i then None
              else let host = drop 1 (take e hp) in
                if CHR ''['' \<in> set (drop 1 hp) then None
                else if CHR '']'' \<in> set (drop (e + 1) hp) then None
                else Some (host, drop (i + 1) hp))
         else let host = take i hp in
           if CHR '':'' \<in> set host then None
           else if CHR ''['' \<in> set hp then None
           else if CHR '']'' \<in> set hp then None
           else Some (host, drop (i + 1) hp))"


section \<open>Parsing what was printed\<close>

text \<open>The canonical text of an address parses back to the address. First the digits.\<close>

lemma hd_show_base: "2 \<le> b \<Longrightarrow> b \<le> 16 \<Longrightarrow> 0 < n \<Longrightarrow> \<exists>d. 0 < d \<and> d < b \<and> hd (show_base b n) = digit_char d"
proof (induction b n rule: show_base.induct)
  case (1 b n)
  show ?case
  proof (cases "n < b")
    case True
    with "1.prems" show ?thesis by (auto simp: show_base_small)
  next
    case False
    then have "0 < n div b" using "1.prems" by (simp add: div_greater_zero_iff)
    with False "1.prems" "1.IH" show ?thesis by (simp add: show_base_step)
  qed
qed

lemma digit_char_eq_0: "d < 16 \<Longrightarrow> digit_char d = CHR ''0'' \<longleftrightarrow> d = 0"
proof
  assume d: "d < 16" and "digit_char d = CHR ''0''"
  then have "byte_of (digit_char d) = 48" by (simp add: byte_of_def)
  with d show "d = 0" by (simp add: byte_of_digit_char split: if_splits)
next
  have "char_of (byte_of CHR ''0'') = CHR ''0''" by (rule char_of_byte_of)
  moreover have "byte_of CHR ''0'' = 48" by (simp add: byte_of_def)
  moreover assume "d = 0"
  ultimately show "digit_char d = CHR ''0''" by (simp add: digit_char_def)
qed

lemma decimal_chars: "c \<in> set (show_base 10 n) \<Longrightarrow> decimal_digit c \<and> c \<notin> {CHR ''.'', CHR '':'', CHR ''%''}"
proof -
  assume "c \<in> set (show_base 10 n)"
  then obtain d where d: "d < 10" "c = digit_char d" using show_base_chars [of c 10 n] by auto
  then have b: "byte_of c = 48 + d" by (simp add: byte_of_digit_char)
  with d have "byte_of c \<noteq> 46" "byte_of c \<noteq> 58" "byte_of c \<noteq> 37" by simp_all
  then show ?thesis using b d by (auto simp: decimal_digit_def byte_of_def)
qed

lemma parse_octet_show: "parse_octet (show_base 10 (unat (b :: 8 word))) = Some b"
proof -
  have b: "unat b < 256" by (rule order_less_le_trans [OF unsigned_less]) simp
  have "\<not> (1 < length (show_base 10 (unat b)) \<and> hd (show_base 10 (unat b)) = CHR ''0'')"
  proof (cases "unat b = 0")
    case True
    then show ?thesis by (simp add: show_base_small)
  next
    case False
    then obtain d where "0 < d" "d < 10" "hd (show_base 10 (unat b)) = digit_char d"
      using hd_show_base [of 10 "unat b"] by auto
    then show ?thesis by (simp add: digit_char_eq_0)
  qed
  moreover have "list_all decimal_digit (show_base 10 (unat b))"
    by (simp add: list_all_iff decimal_chars)
  ultimately show ?thesis using b by (simp add: parse_octet_def)
qed

lemma all_some_map [simp]: "all_some (map (\<lambda>x. Some (f x)) xs) = Some (map f xs)"
  by (induction xs) auto

lemma parseIPv4_show:
  assumes "length q = 4"
  shows "parseIPv4Fields (join ''.'' (map (\<lambda>b. show_base 10 (unat b)) q)) = Some q"
proof -
  have "split_on CHR ''.'' (join [CHR ''.''] (map (\<lambda>b. show_base 10 (unat b)) q)) = map (\<lambda>b. show_base 10 (unat b)) q"
    using assms decimal_chars by (intro split_on_join) auto
  then show ?thesis
    using assms by (simp add: parseIPv4Fields_def parse_octet_show comp_def)
qed

lemma addr_kind_skip: "(\<And>c. c \<in> set w \<Longrightarrow> c \<notin> {CHR ''.'', CHR '':'', CHR ''%''}) \<Longrightarrow> addr_kind (w @ s) = addr_kind s"
  by (induction w) auto

lemma length_4: "length q = 4 \<longleftrightarrow> (\<exists>a b c d. q = [a, b, c, d])"
  by (auto simp: numeral_eq_Suc length_Suc_conv)

lemma ParseIP_v4:
  assumes "length q = 4"
  shows "ParseIP (join ''.'' (map (\<lambda>b. show_base 10 (unat b)) q)) = Some (v4_prefix @ q)"
proof -
  obtain a b c d where q: "q = [a, b, c, d]" using assms by (auto simp: length_4)
  have "addr_kind (join ''.'' (map (\<lambda>b. show_base 10 (unat b)) q)) = Some CHR ''.''"
    using decimal_chars by (simp add: q addr_kind_skip)
  then show ?thesis
    by (simp add: ParseIP_def parseIPv4_def parseIPv4_show [OF assms])
qed

text \<open>One hexadecimal group, and what ends it.\<close>

definition ends_group :: "string \<Rightarrow> bool" where
  "ends_group s \<longleftrightarrow> (case s of [] \<Rightarrow> True | c # _ \<Rightarrow> c = CHR '':'')"

lemma hex_digit_char [simp]: "d < 16 \<Longrightarrow> hex_digit (digit_char d) = Some d"
  by (simp add: hex_digit_def)

lemma hex_digit_colon: "hex_digit CHR '':'' = None"
  by code_simp

lemma hex_group_end: "ends_group s \<Longrightarrow> hex_group off acc s = Some (off, acc, s)"
  by (cases s) (auto simp: ends_group_def hex_digit_colon)

lemma hex_group_digits:
  "(\<And>d. d \<in> set ds \<Longrightarrow> d < 16) \<Longrightarrow> off + length ds \<le> 4 \<Longrightarrow> ends_group s \<Longrightarrow>
   hex_group off acc (map digit_char ds @ s) = Some (off + length ds, foldl (\<lambda>a d. a * 16 + d) acc ds, s)"
  by (induction ds arbitrary: off acc) (auto simp: hex_group_end)

lemma show_base_16_digits:
  "\<exists>ds. show_base 16 n = map digit_char ds \<and> (\<forall>d \<in> set ds. d < 16) \<and> foldl (\<lambda>a d. a * 16 + d) 0 ds = n
     \<and> ds \<noteq> [] \<and> (\<forall>k > 0. n < 16 ^ k \<longrightarrow> length ds \<le> k)"
proof (induction "16 :: nat" n rule: show_base.induct)
  case (1 n)
  show ?case
  proof (cases "n < 16")
    case True
    then show ?thesis by (intro exI [of _ "[n]"]) (auto simp: show_base_small)
  next
    case False
    with 1 obtain ds where ds: "show_base 16 (n div 16) = map digit_char ds" "\<forall>d \<in> set ds. d < 16"
      "foldl (\<lambda>a d. a * 16 + d) 0 ds = n div 16" "\<forall>k > 0. n div 16 < 16 ^ k \<longrightarrow> length ds \<le> k"
      by auto
    have "length ds + 1 \<le> k" if pos: "0 < k" and less: "n < 16 ^ k" for k
    proof -
      obtain j where j: "k = Suc j" using pos by (cases k) auto
      have "n div 16 < 16 ^ j" using less j by (simp add: less_mult_imp_div_less mult.commute)
      moreover have "0 < j" using False less j by (cases j) auto
      ultimately show ?thesis using ds(4) j by auto
    qed
    with ds False show ?thesis
      by (intro exI [of _ "ds @ [n mod 16]"]) (auto simp: show_base_step)
  qed
qed

lemma hex_group_show:
  assumes "g < 65536" and "ends_group s"
  shows "\<exists>off. off > 0 \<and> hex_group 0 0 (show_base 16 g @ s) = Some (off, g, s)"
proof -
  obtain ds where ds: "show_base 16 g = map digit_char ds" "\<forall>d \<in> set ds. d < 16"
    "foldl (\<lambda>a d. a * 16 + d) 0 ds = g" "ds \<noteq> []" "\<forall>k > 0. g < 16 ^ k \<longrightarrow> length ds \<le> k"
    using show_base_16_digits [of g] by auto
  have "length ds \<le> 4" using ds(5) assms(1) by auto
  then show ?thesis
    using hex_group_digits [of ds 0 s 0] ds assms(2) by auto
qed


text \<open>A sequence of groups: the loop stores their bytes.\<close>

definition g_bytes :: "nat \<Rightarrow> 8 word list" where
  "g_bytes g = [word_of_nat (g div 256), word_of_nat (g mod 256)]"

definition bytes_of :: "nat list \<Rightarrow> 8 word list" where
  "bytes_of gs = concat (map g_bytes gs)"

lemma bytes_of_simps [simp]:
  "bytes_of [] = []" "bytes_of (g # gs) = g_bytes g @ bytes_of gs"
  "bytes_of (gs @ hs) = bytes_of gs @ bytes_of hs" "bytes_of (replicate n 0) = replicate (2 * n) 0"
  by (simp_all add: bytes_of_def) (induction n, simp_all add: g_bytes_def)

lemma length_g_bytes [simp]: "length (g_bytes g) = 2"
  by (simp add: g_bytes_def)

lemma length_bytes_of [simp]: "length (bytes_of gs) = 2 * length gs"
  by (induction gs) auto

lemma hex_chars: "c \<in> set (show_base 16 g) \<Longrightarrow> c \<notin> {CHR '':'', CHR ''.'', CHR ''%''}"
proof -
  assume "c \<in> set (show_base 16 g)"
  then obtain d where d: "d < 16" "c = digit_char d" using show_base_chars [of c 16 g] by auto
  then have "byte_of c \<noteq> 58" "byte_of c \<noteq> 46" "byte_of c \<noteq> 37" by (simp_all add: byte_of_digit_char)
  then show ?thesis by (auto simp: byte_of_def)
qed

lemma show_16_Cons: obtains c cs where "show_base 16 g = c # cs" and "c \<noteq> CHR '':''"
  using hex_chars [of _ g] by (cases "show_base 16 g") auto

lemma hex_groups_simps:
  "hex_groups [] = []" "hex_groups [g] = show_base 16 g"
  "gs \<noteq> [] \<Longrightarrow> hex_groups (g # gs) = show_base 16 g @ CHR '':'' # hex_groups gs"
  by (simp_all add: hex_groups_def) (cases gs; simp)

lemma hex_groups_Cons: "gs \<noteq> [] \<Longrightarrow> \<exists>c cs. hex_groups gs = c # cs \<and> c \<noteq> CHR '':''"
proof (cases gs)
  case (Cons g hs)
  obtain c cs where "show_base 16 g = c # cs" "c \<noteq> CHR '':''" by (rule show_16_Cons [of g])
  with Cons show ?thesis by (cases "hs = []") (simp_all add: hex_groups_simps)
qed simp

lemma hex_groups_eq_Nil [simp]: "hex_groups gs = [] \<longleftrightarrow> gs = []"
  using hex_groups_Cons [of gs] by (cases gs) (auto simp: hex_groups_simps)

lemma parse6_group:
  assumes "length bs < 16" and "g < 65536" and "ends_group s"
  shows "parse6 bs ell (show_base 16 g @ s) =
    (case s of [] \<Rightarrow> Some (bs @ g_bytes g, ell, [])
     | _ # s1 \<Rightarrow>
        if s1 = [] then None
        else if hd s1 = CHR '':'' then
          (if ell \<noteq> None then None
           else if tl s1 = [] then Some (bs @ g_bytes g, Some (length bs + 2), [])
           else parse6 (bs @ g_bytes g) (Some (length bs + 2)) (tl s1))
        else parse6 (bs @ g_bytes g) ell s1)"
proof -
  obtain off where off: "0 < off" "hex_group 0 0 (show_base 16 g @ s) = Some (off, g, s)"
    using hex_group_show [OF assms(2,3)] by auto
  have "\<not> (s \<noteq> [] \<and> hd s = CHR ''.'')"
    using assms(3) by (cases s) (auto simp: ends_group_def)
  with off assms show ?thesis
    by (subst parse6.simps) (auto simp: ends_group_def Let_def g_bytes_def split: list.splits)
qed

lemma parse6_groups:
  assumes "gs \<noteq> []" and "\<And>g. g \<in> set gs \<Longrightarrow> g < 65536" and "length bs + 2 * length gs \<le> 16"
  shows "parse6 bs ell (hex_groups gs) = Some (bs @ bytes_of gs, ell, [])"
  using assms
proof (induction gs arbitrary: bs)
  case Nil
  then show ?case by simp
next
  case (Cons g gs)
  show ?case
  proof (cases "gs = []")
    case True
    with Cons.prems show ?thesis
      using parse6_group [of bs g "[]" ell] by (simp add: hex_groups_simps ends_group_def)
  next
    case False
    then obtain c cs where "hex_groups gs = c # cs" "c \<noteq> CHR '':''" using hex_groups_Cons by blast
    with False Cons show ?thesis
      using parse6_group [of bs g "CHR '':'' # hex_groups gs" ell] by (simp add: hex_groups_simps ends_group_def)
  qed
qed

lemma parse6_groups_ellipsis:
  assumes "gs \<noteq> []" and "\<And>g. g \<in> set gs \<Longrightarrow> g < 65536" and "length bs + 2 * length gs \<le> 16"
  shows "parse6 bs None (hex_groups gs @ ''::'' @ t) =
    (if t = [] then Some (bs @ bytes_of gs, Some (length bs + 2 * length gs), [])
     else parse6 (bs @ bytes_of gs) (Some (length bs + 2 * length gs)) t)"
  using assms
proof (induction gs arbitrary: bs)
  case Nil
  then show ?case by simp
next
  case (Cons g gs)
  show ?case
  proof (cases "gs = []")
    case True
    with Cons.prems show ?thesis
      using parse6_group [of bs g "''::'' @ t" None] by (simp add: hex_groups_simps ends_group_def)
  next
    case False
    then obtain c cs where "hex_groups gs = c # cs" "c \<noteq> CHR '':''" using hex_groups_Cons by blast
    with False Cons show ?thesis
      using parse6_group [of bs g "CHR '':'' # hex_groups gs @ ''::'' @ t" None]
      by (simp add: hex_groups_simps ends_group_def)
  qed
qed

text \<open>The run of zeros that printing leaves out.\<close>

definition run_ok :: "nat list \<Rightarrow> nat \<times> nat \<Rightarrow> bool" where
  "run_ok gs r \<longleftrightarrow> (case r of (zs, ze) \<Rightarrow> (zs = 255 \<and> ze = 255) \<or>
     (zs + 2 \<le> ze \<and> ze \<le> length gs \<and> gs = take zs gs @ replicate (ze - zs) 0 @ drop ze gs))"

lemma zero_end_ok:
  assumes "i \<le> length gs"
  shows "zero_end gs i \<le> length gs" and "gs = take i gs @ replicate (zero_end gs i - i) 0 @ drop (zero_end gs i) gs"
proof -
  let ?r = "takeWhile (\<lambda>g. g = 0) (drop i gs)"
  have "length ?r \<le> length (drop i gs)" by (rule length_takeWhile_le)
  with assms show "zero_end gs i \<le> length gs" by (simp add: zero_end_def)
  have "?r = replicate (length ?r) 0" by (rule replicate_length_same [symmetric]) (auto dest: set_takeWhileD)
  moreover have "drop (zero_end gs i) gs = dropWhile (\<lambda>g. g = 0) (drop i gs)"
    by (simp add: zero_end_def dropWhile_eq_drop add.commute)
  ultimately have "drop i gs = replicate (zero_end gs i - i) 0 @ drop (zero_end gs i) gs"
    by (metis add_diff_cancel_left' takeWhile_dropWhile_id zero_end_def)
  then show "gs = take i gs @ replicate (zero_end gs i - i) 0 @ drop (zero_end gs i) gs"
    by (metis append_take_drop_id)
qed

lemma zero_run_ok: "run_ok gs best \<Longrightarrow> (\<And>i. i \<in> set is \<Longrightarrow> i \<le> length gs) \<Longrightarrow> run_ok gs (zero_run gs is best)"
proof (induction gs "is" best rule: zero_run.induct)
  case (1 gs best)
  then show ?case by simp
next
  case (2 gs i "is" zs ze)
  let ?j = "zero_end gs i"
  have "run_ok gs (if ?j - i \<ge> 2 \<and> ?j - i > ze - zs then (i, ?j) else (zs, ze))"
    using "2.prems" zero_end_ok [of i gs] by (auto simp: run_ok_def)
  then show ?case using "2.IH" "2.prems"(2) by (simp add: Let_def)
qed

lemma unat_byte: "unat (b :: 8 word) < 256"
  by (rule order_less_le_trans [OF unsigned_less]) simp

lemma g_bytes_pair: "g_bytes (unat a * 256 + unat b) = [a, b]"
  using unat_byte [of b] by (simp add: g_bytes_def)

lemma u16s_bytes: "even (length p) \<Longrightarrow> bytes_of (u16s p) = p"
  by (induction p rule: u16s.induct) (auto simp: g_bytes_pair)

lemma length_u16s: "length (u16s p) = length p div 2"
  by (induction p rule: u16s.induct) auto

lemma u16s_bound: "g \<in> set (u16s p) \<Longrightarrow> g < 65536"
proof (induction p rule: u16s.induct)
  case (1 a b r)
  then show ?case using unat_byte [of a] unat_byte [of b] by auto
qed auto

lemma expand6_ellipsis:
  assumes "length p = 16" and "p = x @ replicate n 0 @ y" and "0 < n"
  shows "expand6 (x @ y, Some (length x), []) = Some p"
  using assms by (simp add: expand6_def)

lemma hex_groups_chars: "c \<in> set (hex_groups gs) \<Longrightarrow> c \<noteq> CHR ''.'' \<and> c \<noteq> CHR ''%''"
proof (induction gs)
  case (Cons g gs)
  then show ?case using hex_chars [of c g] by (cases "gs = []") (auto simp: hex_groups_simps)
qed (simp add: hex_groups_simps)

lemma hex_groups_colon: "2 \<le> length gs \<Longrightarrow> CHR '':'' \<in> set (hex_groups gs)"
  by (cases gs) (auto simp: hex_groups_simps Suc_le_length_iff numeral_2_eq_2 neq_Nil_conv)

lemma addr_kind_colon: "CHR '':'' \<in> set s \<Longrightarrow> (\<And>c. c \<in> set s \<Longrightarrow> c \<noteq> CHR ''.'' \<and> c \<noteq> CHR ''%'') \<Longrightarrow>
    addr_kind s = Some CHR '':''"
  by (induction s) auto

lemma show6_cases:
  assumes "length gs = 8"
  obtains "show6 gs = hex_groups gs"
  | A n B where "show6 gs = hex_groups A @ ''::'' @ hex_groups B" and "gs = A @ replicate n 0 @ B" and "2 \<le> n"
proof -
  obtain zs ze where r: "zero_run gs [0..<8] (255, 255) = (zs, ze)" by (cases "zero_run gs [0..<8] (255, 255)")
  have "run_ok gs (zs, ze)"
    using zero_run_ok [of gs "(255, 255)" "[0..<8]"] assms by (simp add: r) (simp add: run_ok_def)
  then consider "zs = 255" | "zs + 2 \<le> ze" "ze \<le> 8" "gs = take zs gs @ replicate (ze - zs) 0 @ drop ze gs"
    using assms by (auto simp: run_ok_def)
  then show thesis
  proof cases
    case 1
    with r that(1) show ?thesis by (simp add: show6_def)
  next
    case 2
    show ?thesis
      by (rule that(2) [of "take zs gs" "drop ze gs" "ze - zs"]) (use 2 r in \<open>simp_all add: show6_def\<close>)
  qed
qed

lemma show6_kind:
  assumes "length gs = 8"
  shows "addr_kind (show6 gs) = Some CHR '':'' \<and> CHR ''%'' \<notin> set (show6 gs)"
proof -
  have chars: "c \<noteq> CHR ''.'' \<and> c \<noteq> CHR ''%''" if "c \<in> set (show6 gs)" for c
    by (rule show6_cases [OF assms]; use hex_groups_chars \<open>c \<in> set (show6 gs)\<close> in auto)
  have "CHR '':'' \<in> set (show6 gs)"
    by (rule show6_cases [OF assms]) (use assms hex_groups_colon [of gs] in auto)
  then show ?thesis using addr_kind_colon chars by blast
qed

lemma not_prefix_colons: "gs \<noteq> [] \<Longrightarrow> \<not> prefix ''::'' (hex_groups gs @ t)"
  using hex_groups_Cons [of gs] by auto

lemma parseIPv6_show6:
  assumes "length p = 16"
  shows "parseIPv6 (show6 (u16s p)) = Some p"
proof -
  let ?gs = "u16s p"
  have len: "length ?gs = 8" and bytes: "bytes_of ?gs = p" using assms by (simp_all add: length_u16s u16s_bytes)
  have no_zone: "CHR ''%'' \<notin> set (show6 ?gs)" using show6_kind [OF len] by simp
  from len show ?thesis
  proof (rule show6_cases)
    assume s: "show6 ?gs = hex_groups ?gs"
    have "?gs \<noteq> []" using len by auto
    then show ?thesis
      using no_zone not_prefix_colons [of ?gs "[]"] parse6_groups [of ?gs "[]" None] u16s_bound [of _ p] len bytes assms
      by (simp add: s parseIPv6_def expand6_def)
  next
    fix A n B
    assume s: "show6 ?gs = hex_groups A @ ''::'' @ hex_groups B" and gs: "?gs = A @ replicate n 0 @ B" and n: "2 \<le> n"
    have bound: "g < 65536" if "g \<in> set A \<union> set B" for g using u16s_bound [of g p] that gs by auto
    have p: "p = bytes_of A @ replicate (2 * n) 0 @ bytes_of B" using bytes gs by simp
    have l: "length A + n + length B = 8" using len gs by simp
    have e: "expand6 (bytes_of A @ bytes_of B, Some (2 * length A), []) = Some p"
      using expand6_ellipsis [OF assms p] n by simp
    show ?thesis
    proof (cases "A = []")
      case True
      have "Option.bind (parse6 [] (Some 0) (hex_groups B)) expand6 = Some p" if "B \<noteq> []"
        using parse6_groups [OF that, of "[]" "Some 0"] bound l e True by simp
      moreover have "p = replicate 16 0" if "B = []" using p l True that by simp
      ultimately show ?thesis using no_zone True by (simp add: s parseIPv6_def hex_groups_simps)
    next
      case False
      have "parse6 [] None (hex_groups A @ ''::'' @ hex_groups B) = Some (bytes_of A @ bytes_of B, Some (2 * length A), [])"
        using parse6_groups_ellipsis [OF False, of "[]" "hex_groups B"] parse6_groups [of B "bytes_of A" "Some (2 * length A)"]
          bound l n by (cases "B = []") simp_all
      then show ?thesis
        using no_zone not_prefix_colons [OF False, of "''::'' @ hex_groups B"] e by (simp add: s parseIPv6_def)
    qed
  qed
qed

lemma ParseIP_String:
  assumes "length p = 16"
  shows "ParseIP (ip_String p) = Some p"
proof (cases "To4 p")
  case None
  then show ?thesis
    using show6_kind [of "u16s p"] parseIPv6_show6 [OF assms] assms
    by (simp add: ip_String_def ParseIP_def length_u16s)
next
  case (Some q)
  then have "length q = 4" and "p = v4_prefix @ q"
    using assms by (auto simp: To4_def split: if_splits) (metis append_take_drop_id)
  then show ?thesis using Some ParseIP_v4 by (simp add: ip_String_def)
qed


text \<open>Every parsed address has 16 bytes, so printing and parsing again is the identity on it.\<close>

lemma all_some_length: "all_some xs = Some ys \<Longrightarrow> length ys = length xs"
  by (induction xs arbitrary: ys) (auto split: option.splits)

lemma parseIPv4Fields_length: "parseIPv4Fields s = Some q \<Longrightarrow> length q = 4"
  by (auto simp: parseIPv4Fields_def Let_def split: if_splits dest: all_some_length)

lemma parse6_step_cases:
  assumes "parse6 bs ell s = Some r" and "length bs < 16"
  shows "\<exists>g. (\<exists>q. parseIPv4Fields s = Some q \<and> length bs + 4 \<le> 16 \<and> r = (bs @ q, ell, [])) \<or>
     r = (bs @ g_bytes g, ell, []) \<or> r = (bs @ g_bytes g, Some (length bs + 2), []) \<or>
     (\<exists>t. parse6 (bs @ g_bytes g) (Some (length bs + 2)) t = Some r) \<or>
     (\<exists>t. parse6 (bs @ g_bytes g) ell t = Some r)"
proof -
  obtain off acc rest where hg: "hex_group 0 0 s = Some (off, acc, rest)"
    using assms by (subst (asm) parse6.simps) (auto split: option.splits)
  show ?thesis
  proof (cases "rest \<noteq> [] \<and> hd rest = CHR ''.''")
    case True
    with assms hg show ?thesis
      by (subst (asm) parse6.simps) (auto split: if_splits option.splits)
  next
    case False
    with assms hg show ?thesis
      by (intro exI [of _ acc], subst (asm) parse6.simps)
         (cases rest; auto simp: Let_def g_bytes_def split: if_splits)
  qed
qed

lemma parse6_shape:
  assumes "parse6 bs ell s = Some (bs', ell', s')"
    and "length bs \<le> 16" and "even (length bs)" and "\<And>e. ell = Some e \<Longrightarrow> e \<le> length bs"
  shows "length bs' \<le> 16 \<and> (\<forall>e. ell' = Some e \<longrightarrow> e \<le> length bs')"
  using assms
proof (induction "16 - length bs" arbitrary: bs ell s rule: less_induct)
  case less
  show ?case
  proof (cases "length bs < 16")
    case False
    with less.prems show ?thesis by (subst (asm) parse6.simps) auto
  next
    case True
    have room: "length bs + 2 \<le> 16" using True less.prems(3) by presburger
    have rec: "length bs' \<le> 16 \<and> (\<forall>e. ell' = Some e \<longrightarrow> e \<le> length bs')"
      if "parse6 (bs @ g_bytes g) l t = Some (bs', ell', s')" and "\<And>e. l = Some e \<Longrightarrow> e \<le> length bs + 2" for g l t
      by (rule less.hyps [OF _ that(1)]) (use True room less.prems(3) that(2) in auto)
    from parse6_step_cases [OF less.prems(1) True] show ?thesis
      using rec room less.prems(4) by (elim exE disjE) (force dest: parseIPv4Fields_length)+
  qed
qed

lemma expand6_length:
  assumes "parse6 bs ell s = Some r" and "expand6 r = Some p"
    and "length bs \<le> 16" and "even (length bs)" and "\<And>e. ell = Some e \<Longrightarrow> e \<le> length bs"
  shows "length p = 16"
proof -
  obtain bs' ell' s' where r: "r = (bs', ell', s')" by (cases r)
  then have "length bs' \<le> 16 \<and> (\<forall>e. ell' = Some e \<longrightarrow> e \<le> length bs')"
    using parse6_shape [of bs ell s bs' ell' s'] assms by auto
  with assms(2) r show ?thesis by (auto simp: expand6_def split: if_splits option.splits)
qed

lemma ParseIP_length: "ParseIP s = Some p \<Longrightarrow> length p = 16"
  by (auto simp: ParseIP_def parseIPv4_def parseIPv6_def v4_prefix_def Option.bind_eq_Some_conv
      dest: parseIPv4Fields_length expand6_length split: option.splits if_splits)

lemma ParseIP_canonical: "ParseIP s = Some p \<Longrightarrow> ParseIP (ip_String p) = Some p"
  by (intro ParseIP_String ParseIP_length)

end
