(* ===== verification/Client_IP.thy ===== *)
theory Client_IP
  imports Http Net_IP
begin

text \<open>
  \<open>ClientIP\<close> of \<open>internal/handler/handler.go\<close>: the address a request is attributed to. The proxy
  headers count only when the direct peer is a loopback or private address, and only when they hold
  a valid address.
\<close>

section \<open>Trusted peers\<close>

definition privateCIDRs :: "IPNet list" where
  "privateCIDRs =
    [\<lparr>net_IP = [10, 0, 0, 0], net_Mask = [255, 0, 0, 0]\<rparr>,
     \<lparr>net_IP = [172, 16, 0, 0], net_Mask = [255, 240, 0, 0]\<rparr>,
     \<lparr>net_IP = [192, 168, 0, 0], net_Mask = [255, 255, 0, 0]\<rparr>,
     \<lparr>net_IP = 0xfc # replicate 15 0, net_Mask = 0xfe # replicate 15 0\<rparr>]"

definition isPrivateOrLoopback :: "string \<Rightarrow> bool" where
  "isPrivateOrLoopback ipStr = (case ParseIP ipStr of None \<Rightarrow> False
     | Some p \<Rightarrow> if IsLoopback p then True else list_ex (\<lambda>network. Contains network p) privateCIDRs)"

section \<open>ClientIP\<close>

text \<open>The host of the direct peer: the remote address without its port.\<close>

definition peer_host :: "request \<Rightarrow> string" where
  "peer_host r = (case SplitHostPort (RemoteAddr r) of None \<Rightarrow> RemoteAddr r | Some (host, _) \<Rightarrow> host)"

definition ClientIP :: "request \<Rightarrow> string" where
  "ClientIP r = (let host = peer_host r in
     if isPrivateOrLoopback host then
       (let xff = header_Get r ''X-Forwarded-For'';
            fwd = (if xff \<noteq> [] then ParseIP (TrimSpace (before_sep CHR '','' xff)) else None)
        in case fwd of
             Some parsed \<Rightarrow> ip_String parsed
           | None \<Rightarrow>
               (let xri = header_Get r ''X-Real-Ip'';
                    real = (if xri \<noteq> [] then ParseIP (TrimSpace xri) else None)
                in case real of Some parsed \<Rightarrow> ip_String parsed | None \<Rightarrow> host))
     else host)"

lemma peer_host_Header [simp]: "peer_host (r\<lparr>Header := h\<rparr>) = peer_host r"
  by (simp add: peer_host_def split: option.split)

section \<open>The table of networks against the address classes\<close>

text \<open>Masking a byte with all ones or none, and the two partial masks of the table.\<close>

lemma and_255 [simp]: "(x :: 8 word) AND 255 = x"
proof -
  have "(255 :: 8 word) = - 1" by simp
  then show ?thesis by (simp only: word_and_max)
qed

lemma zero_masks: "list_all (\<lambda>(a, m, b). (a :: 8 word) AND m = b AND m) (zip (replicate n 0) (zip (replicate n 0) xs))"
proof (induction n arbitrary: xs)
  case (Suc n)
  then show ?case by (cases xs) auto
qed simp

lemma To4_length: "To4 p = Some q \<Longrightarrow> \<exists>a b c d. q = [a, b, c, d]"
  by (auto simp: To4_def length_4 [symmetric] split: if_splits)

lemma class_v4:
  assumes "To4 p = Some [a, b, c, d]"
  shows "list_ex (\<lambda>network. Contains network p) privateCIDRs = IsPrivate p"
  using assms by (auto simp: privateCIDRs_def Contains_def IsPrivate_def)

lemma class_v6:
  assumes "To4 p = None" and "length p = 16"
  shows "list_ex (\<lambda>network. Contains network p) privateCIDRs = IsPrivate p"
proof -
  obtain a r where p: "p = a # r" using assms(2) by (cases p) auto
  show ?thesis
    using assms zero_masks [of 15 r]
    by (auto simp: privateCIDRs_def Contains_def IsPrivate_def p simp del: replicate.simps)
qed

lemma table_is_class: "length p = 16 \<Longrightarrow> list_ex (\<lambda>network. Contains network p) privateCIDRs = IsPrivate p"
  using class_v4 class_v6 To4_length by (cases "To4 p") blast+


lemma isPrivateOrLoopback_None: "ParseIP s = None \<Longrightarrow> \<not> isPrivateOrLoopback s"
  by (simp add: isPrivateOrLoopback_def)

section \<open>Properties\<close>

text \<open>A concrete proxied request, used by the witnesses below.\<close>

definition proxied :: request where
  "proxied = \<lparr>Method = ''GET'', Path = ''/api/ip'', Query = [],
     Header = [(''X-Forwarded-For'', ''2001:DB8::0:1 , 10.0.0.9'')], RemoteAddr = ''10.0.0.1:4711'',
     Body = [], BodyEnd = EOF\<rparr>"

definition direct :: request where
  "direct = proxied\<lparr>RemoteAddr := ''203.0.113.5:4711''\<rparr>"

lemma peer_proxied: "peer_host proxied = ''10.0.0.1''"
  by code_simp

lemma trusted_proxied: "isPrivateOrLoopback ''10.0.0.1''"
  by code_simp

lemma peer_direct: "peer_host direct = ''203.0.113.5''"
  by code_simp

lemma untrusted_direct: "\<not> isPrivateOrLoopback ''203.0.113.5''"
  by code_simp

lemma forwarded_proxied:
  "ParseIP (TrimSpace (before_sep CHR '','' (header_Get proxied ''X-Forwarded-For''))) =
     Some [0x20, 1, 0xd, 0xb8, 0, 0, 0, 0, 0, 0, 0, 0, 0, 0, 0, 1]"
  by code_simp

text \<open>C39: the networks of the table are exactly the loopback and private address classes of package
  \<open>net\<close>: a peer is trusted when its text parses to an address of one of them.\<close>

theorem isPrivateOrLoopback_iff:
  "isPrivateOrLoopback s \<longleftrightarrow> (\<exists>p. ParseIP s = Some p \<and> (IsLoopback p \<or> IsPrivate p))"
  using table_is_class ParseIP_length
  by (auto simp: isPrivateOrLoopback_def split: option.splits)

text \<open>C22: a client that connects from a public address cannot choose its address: whatever headers it
  sends, it is attributed to the peer of the connection.\<close>

theorem ClientIP_untrusted_peer:
  assumes "\<not> isPrivateOrLoopback (peer_host r)"
  shows "ClientIP (r\<lparr>Header := h\<rparr>) = peer_host r"
  using assms by (simp add: ClientIP_def)

theorem ClientIP_untrusted_peer_witness:
  "ClientIP (direct\<lparr>Header := [(''X-Real-Ip'', ''127.0.0.1'')]\<rparr>) = peer_host direct"
  by (rule ClientIP_untrusted_peer) (simp add: peer_direct untrusted_direct)

text \<open>Behind a trusted peer the first element of \<open>X-Forwarded-For\<close> is used when it is an
  address, in canonical form: parsing the result gives that same address.\<close>

theorem ClientIP_forwarded:
  assumes "isPrivateOrLoopback (peer_host r)"
    and "ParseIP (TrimSpace (before_sep CHR '','' (header_Get r ''X-Forwarded-For''))) = Some p"
  shows "ClientIP r = ip_String p \<and> ParseIP (ClientIP r) = Some p"
proof -
  have "ParseIP (TrimSpace (before_sep CHR '','' [])) = None" by code_simp
  with assms(2) have "header_Get r ''X-Forwarded-For'' \<noteq> []" by auto
  with assms have "ClientIP r = ip_String p" by (simp add: ClientIP_def Let_def)
  with assms(2) show ?thesis by (simp add: ParseIP_canonical)
qed

theorem ClientIP_forwarded_witness:
  "ClientIP proxied = ''2001:db8::1''"
proof -
  have "ip_String [0x20, 1, 0xd, 0xb8, 0, 0, 0, 0, 0, 0, 0, 0, 0, 0, 0, 1] = ''2001:db8::1''"
    by (simp add: ip_String_def To4_def v4_prefix_def show6_def zero_end_def hex_groups_def show_base_eval upt_rec)
  then show ?thesis
    using ClientIP_forwarded [of proxied, OF _ forwarded_proxied] by (simp add: peer_proxied trusted_proxied)
qed

text \<open>Nothing else can get into the result: it is the host of the peer, or, behind a trusted peer
  only, the canonical text of an address.\<close>

theorem ClientIP_peer_or_address:
  "ClientIP r = peer_host r \<or>
   (isPrivateOrLoopback (peer_host r) \<and> (\<exists>p. ParseIP (ClientIP r) = Some p \<and> ClientIP r = ip_String p))"
  by (auto simp: ClientIP_def Let_def ParseIP_canonical split: option.splits)

end
