(* ===== verification/Go_Float.thy ===== *)
theory Go_Float
  imports Complex_Main
begin

text \<open>
  The \<open>float64\<close> values of the results: the two infinities, NaN, negative zero and the finite ones by
  their value. Only comparisons are computed with them, and those are exact.
\<close>

datatype float64 = NaN | PInf | NInf | NZero | Fin rat

fun value_of :: "float64 \<Rightarrow> rat" where
  "value_of (Fin q) = q"
| "value_of _ = 0"

definition IsNaN :: "float64 \<Rightarrow> bool" where
  "IsNaN v \<longleftrightarrow> v = NaN"

definition IsInf0 :: "float64 \<Rightarrow> bool" where
  "IsInf0 v \<longleftrightarrow> v = PInf \<or> v = NInf"

definition finite_float :: "float64 \<Rightarrow> bool" where
  "finite_float v \<longleftrightarrow> \<not> IsNaN v \<and> \<not> IsInf0 v"

text \<open>The \<open><\<close> of Go: false when an operand is NaN; the zeros are equal.\<close>

definition flt :: "float64 \<Rightarrow> float64 \<Rightarrow> bool" where
  "flt a b \<longleftrightarrow>
     (if IsNaN a \<or> IsNaN b then False
      else if a = NInf then b \<noteq> NInf
      else if b = NInf then False
      else if b = PInf then a \<noteq> PInf
      else if a = PInf then False
      else value_of a < value_of b)"

lemma flt_Fin [simp]: "flt (Fin a) (Fin b) \<longleftrightarrow> a < b"
  by (simp add: flt_def IsNaN_def)

lemma flt_NZero [simp]: "flt NZero (Fin b) \<longleftrightarrow> 0 < b" "flt (Fin a) NZero \<longleftrightarrow> a < 0"
  by (simp_all add: flt_def IsNaN_def)

end
