(* ===== verification/Store.thy ===== *)
theory Store
  imports Go_Prelude Go_Float "HOL-Library.Monad_Syntax"
begin

text \<open>
  \<open>internal/store\<close>: the \<open>Store\<close> interface with the \<open>Result\<close> record, and its SQLite implementation.
  The database engine is a library: it is a pair of functions, \<open>sql_exec\<close> and \<open>sql_query\<close>, on a state
  of its own, that take the statements of the source. What the code relies on, the meaning of those
  statements on a table, is the hypothesis \<open>sqlite_laws\<close>.
\<close>

section \<open>Results\<close>

record result =
  ID :: int
  CreatedAt :: int
  DownloadMbps :: float64
  UploadMbps :: float64
  LatencyIdleMs :: float64
  LatencyLoadedMs :: float64
  DownloadJitterMs :: float64
  UploadJitterMs :: float64
  PacketLoss :: float64
  BufferbloatGrade :: string
  ClientIPAddr :: string
  ClientIPLocation :: string
  UserAgent :: string
  SettingsJSON :: string

definition result0 :: result where
  "result0 = \<lparr>ID = 0, CreatedAt = 0, DownloadMbps = Fin 0, UploadMbps = Fin 0, LatencyIdleMs = Fin 0,
     LatencyLoadedMs = Fin 0, DownloadJitterMs = Fin 0, UploadJitterMs = Fin 0, PacketLoss = Fin 0,
     BufferbloatGrade = [], ClientIPAddr = [], ClientIPLocation = [], UserAgent = [], SettingsJSON = []\<rparr>"

text \<open>The \<open>Store\<close> interface, with the state of the backend passed along; \<open>None\<close> is an error.\<close>

record 'db store_ops =
  Save :: "int \<Rightarrow> result \<Rightarrow> 'db \<Rightarrow> result option \<times> 'db"
  List :: "int \<Rightarrow> int \<Rightarrow> 'db \<Rightarrow> result list option \<times> 'db"
  Count :: "'db \<Rightarrow> int option \<times> 'db"
  Delete :: "int \<Rightarrow> 'db \<Rightarrow> bool option \<times> 'db"
  DeleteAll :: "'db \<Rightarrow> int option \<times> 'db"
  PruneOlderThan :: "int \<Rightarrow> 'db \<Rightarrow> int option \<times> 'db"

section \<open>Statements and their meaning\<close>

datatype sqlval = VInt int | VReal float64 | VText string

type_synonym row = "(string \<times> sqlval) list"

text \<open>A table: its columns with their defaults (all are \<open>NOT NULL\<close>), its rows, and the largest id ever
  given out (\<open>AUTOINCREMENT\<close>). \<open>None\<close> is a database without the table.\<close>

record table =
  columns :: "(string \<times> sqlval) list"
  rows :: "row list"
  seq :: int

datatype stmt =
    CreateTableIfNotExists "(string \<times> sqlval) list"
  | TableInfo
  | AddColumn string sqlval
  | Insert "string list"
  | SelectNewest "string list"
  | SelectCount
  | DeleteById
  | DeleteRows
  | DeleteOlder

record exec_result =
  LastInsertId :: "int option"
  RowsAffected :: "int option"

text \<open>What a \<open>REAL NOT NULL\<close> column does with a value: NaN is NULL, which the column refuses; negative
  zero is stored as zero.\<close>

fun stored :: "sqlval \<Rightarrow> sqlval option" where
  "stored (VReal NaN) = None"
| "stored (VReal NZero) = Some (VReal (Fin 0))"
| "stored v = Some v"

fun stored_all :: "sqlval list \<Rightarrow> sqlval list option" where
  "stored_all [] = Some []"
| "stored_all (v # vs) = (case (stored v, stored_all vs) of (Some x, Some xs) \<Rightarrow> Some (x # xs) | _ \<Rightarrow> None)"

definition col :: "row \<Rightarrow> string \<Rightarrow> sqlval" where
  "col r c = (case map_of r c of Some v \<Rightarrow> v | None \<Rightarrow> VText [])"

fun int_of :: "sqlval \<Rightarrow> int" where
  "int_of (VInt n) = n"
| "int_of _ = 0"

text \<open>A new row: the values given for the named columns, the defaults for the others, and a new id.\<close>

definition insert_row :: "string list \<Rightarrow> sqlval list \<Rightarrow> table \<Rightarrow> table option" where
  "insert_row cs vs t =
     (if \<not> set cs \<subseteq> fst ` set (columns t) \<or> length cs \<noteq> length vs then None
      else (case stored_all vs of None \<Rightarrow> None
        | Some xs \<Rightarrow> Some (t\<lparr>seq := seq t + 1,
            rows := rows t @ [(''id'', VInt (seq t + 1)) #
              map (\<lambda>(c, d). (c, case map_of (zip cs xs) c of Some v \<Rightarrow> v | None \<Rightarrow> d)) (columns t)]\<rparr>)))"

text \<open>\<open>ORDER BY created_at DESC, id DESC\<close>: two stable sorts.\<close>

definition newest_rows :: "row list \<Rightarrow> row list" where
  "newest_rows rs = sort_key (\<lambda>r. - int_of (col r ''created_at'')) (sort_key (\<lambda>r. - int_of (col r ''id'')) rs)"

definition removed :: "(row \<Rightarrow> bool) \<Rightarrow> table \<Rightarrow> table \<times> exec_result" where
  "removed p t = (t\<lparr>rows := filter (\<lambda>r. \<not> p r) (rows t)\<rparr>,
     \<lparr>LastInsertId = Some (seq t), RowsAffected = Some (int (length (filter p (rows t))))\<rparr>)"

definition no_rows :: exec_result where
  "no_rows = \<lparr>LastInsertId = Some 0, RowsAffected = Some 0\<rparr>"

text \<open>The documented effect of a statement that succeeds; \<open>None\<close> where the engine must refuse it.\<close>

fun exec_meaning :: "stmt \<Rightarrow> sqlval list \<Rightarrow> table option \<Rightarrow> (table option \<times> exec_result) option" where
  "exec_meaning (CreateTableIfNotExists cs) [] t =
     Some (Some (case t of Some x \<Rightarrow> x | None \<Rightarrow> \<lparr>columns = cs, rows = [], seq = 0\<rparr>), no_rows)"
| "exec_meaning (AddColumn c d) [] (Some t) =
     (if c \<in> fst ` set (columns t) then None
      else Some (Some (t\<lparr>columns := columns t @ [(c, d)], rows := map (\<lambda>r. r @ [(c, d)]) (rows t)\<rparr>), no_rows))"
| "exec_meaning (Insert cs) vs (Some t) =
     (case insert_row cs vs t of None \<Rightarrow> None
      | Some t' \<Rightarrow> Some (Some t', \<lparr>LastInsertId = Some (seq t'), RowsAffected = Some 1\<rparr>))"
| "exec_meaning DeleteById [VInt n] (Some t) =
     (case removed (\<lambda>r. col r ''id'' = VInt n) t of (t', x) \<Rightarrow> Some (Some t', x))"
| "exec_meaning DeleteRows [] (Some t) = (case removed (\<lambda>r. True) t of (t', x) \<Rightarrow> Some (Some t', x))"
| "exec_meaning DeleteOlder [VInt n] (Some t) =
     (case removed (\<lambda>r. int_of (col r ''created_at'') < n) t of (t', x) \<Rightarrow> Some (Some t', x))"
| "exec_meaning _ _ _ = None"

fun query_meaning :: "stmt \<Rightarrow> sqlval list \<Rightarrow> table option \<Rightarrow> sqlval list list option" where
  "query_meaning TableInfo [] t =
     Some (case t of None \<Rightarrow> [] | Some x \<Rightarrow> map (\<lambda>c. [VText c]) (''id'' # map fst (columns x)))"
| "query_meaning (SelectNewest cs) [VInt l, VInt n] (Some t) =
     (if set cs \<subseteq> insert ''id'' (fst ` set (columns t))
      then Some (map (\<lambda>r. map (col r) cs) (take (nat l) (drop (nat n) (newest_rows (rows t))))) else None)"
| "query_meaning SelectCount [] (Some t) = Some [[VInt (int (length (rows t)))]]"
| "query_meaning _ _ _ = None"

text \<open>The engine: a call may fail for reasons of its own (a cancelled context, a full disk), and then
  nothing has happened; a call that succeeds does what the statement means.\<close>

record 'db engine =
  sql_exec :: "stmt \<Rightarrow> sqlval list \<Rightarrow> 'db \<Rightarrow> exec_result option \<times> 'db"
  sql_query :: "stmt \<Rightarrow> sqlval list \<Rightarrow> 'db \<Rightarrow> sqlval list list option \<times> 'db"

definition sqlite_laws :: "'db engine \<Rightarrow> ('db \<Rightarrow> table option) \<Rightarrow> bool" where
  "sqlite_laws e tbl \<longleftrightarrow>
     (\<forall>s vs db. case sql_exec e s vs db of
        (None, db') \<Rightarrow> tbl db' = tbl db
      | (Some x, db') \<Rightarrow> exec_meaning s vs (tbl db) = Some (tbl db', x)) \<and>
     (\<forall>s vs db. case sql_query e s vs db of
        (None, db') \<Rightarrow> tbl db' = tbl db
      | (Some rs, db') \<Rightarrow> query_meaning s vs (tbl db) = Some rs \<and> tbl db' = tbl db)"

text \<open>An engine in memory, that fails never: the laws can hold.\<close>

definition mem_engine :: "table option engine" where
  "mem_engine = \<lparr>
     sql_exec = (\<lambda>s vs t. case exec_meaning s vs t of None \<Rightarrow> (None, t) | Some (t', x) \<Rightarrow> (Some x, t')),
     sql_query = (\<lambda>s vs t. (query_meaning s vs t, t))\<rparr>"

lemma mem_engine_laws: "sqlite_laws mem_engine id"
  by (auto simp: sqlite_laws_def mem_engine_def split: option.splits)

section \<open>The schema and Open\<close>

definition schemaInit :: "(string \<times> sqlval) list" where
  "schemaInit = [(''created_at'', VInt 0), (''download_mbps'', VReal (Fin 0)), (''upload_mbps'', VReal (Fin 0)),
     (''latency_idle_ms'', VReal (Fin 0)), (''latency_loaded_ms'', VReal (Fin 0)),
     (''download_jitter_ms'', VReal (Fin 0)), (''upload_jitter_ms'', VReal (Fin 0)),
     (''packet_loss'', VReal (Fin 0)), (''bufferbloat_grade'', VText []), (''client_ip'', VText []),
     (''client_ip_location'', VText []), (''user_agent'', VText []), (''settings_json'', VText [])]"

text \<open>The columns of a database from before the geoip migration.\<close>

definition schema_before_geoip :: "(string \<times> sqlval) list" where
  "schema_before_geoip = filter (\<lambda>(c, _). c \<noteq> ''client_ip_location'') schemaInit"

definition ensureColumn :: "'db engine \<Rightarrow> string \<Rightarrow> stmt \<Rightarrow> 'db \<Rightarrow> bool \<times> 'db" where
  "ensureColumn e column migration db =
     (case sql_query e TableInfo [] db of
        (None, db) \<Rightarrow> (False, db)
      | (Some rs, db) \<Rightarrow>
          if list_ex (\<lambda>r. hd r = VText column) rs then (True, db)
          else (case sql_exec e migration [] db of (x, db) \<Rightarrow> (x \<noteq> None, db)))"

text \<open>\<open>opened\<close> is the connection, if opening and pinging the file work.\<close>

definition Open :: "'db engine \<Rightarrow> 'db option \<Rightarrow> 'db option" where
  "Open e opened =
     (case opened of None \<Rightarrow> None
      | Some db \<Rightarrow>
          (case sql_exec e (CreateTableIfNotExists schemaInit) [] db of
             (None, db) \<Rightarrow> None
           | (Some _, db) \<Rightarrow>
               (case ensureColumn e ''client_ip_location'' (AddColumn ''client_ip_location'' (VText [])) db of
                  (ok, db) \<Rightarrow> if ok then Some db else None)))"

section \<open>The operations\<close>

definition insert_columns :: "string list" where
  "insert_columns = [''created_at'', ''download_mbps'', ''upload_mbps'', ''latency_idle_ms'', ''latency_loaded_ms'',
     ''download_jitter_ms'', ''upload_jitter_ms'', ''packet_loss'', ''bufferbloat_grade'', ''client_ip'',
     ''client_ip_location'', ''user_agent'', ''settings_json'']"

definition insert_args :: "result \<Rightarrow> sqlval list" where
  "insert_args r = [VInt (CreatedAt r), VReal (DownloadMbps r), VReal (UploadMbps r), VReal (LatencyIdleMs r),
     VReal (LatencyLoadedMs r), VReal (DownloadJitterMs r), VReal (UploadJitterMs r), VReal (PacketLoss r),
     VText (BufferbloatGrade r), VText (ClientIPAddr r), VText (ClientIPLocation r), VText (UserAgent r),
     VText (SettingsJSON r)]"

definition sq_Save :: "'db engine \<Rightarrow> int \<Rightarrow> result \<Rightarrow> 'db \<Rightarrow> result option \<times> 'db" where
  "sq_Save e now r db =
     (let r = (if CreatedAt r = 0 then r\<lparr>CreatedAt := now\<rparr> else r) in
      case sql_exec e (Insert insert_columns) (insert_args r) db of
        (None, db) \<Rightarrow> (None, db)
      | (Some res, db) \<Rightarrow> (case LastInsertId res of None \<Rightarrow> (None, db) | Some i \<Rightarrow> (Some (r\<lparr>ID := i\<rparr>), db)))"

definition select_columns :: "string list" where
  "select_columns = [''id'', ''created_at'', ''download_mbps'', ''upload_mbps'', ''latency_idle_ms'',
     ''latency_loaded_ms'', ''download_jitter_ms'', ''upload_jitter_ms'', ''packet_loss'', ''bufferbloat_grade'',
     ''client_ip'', ''client_ip_location'', ''user_agent'', ''settings_json'']"

text \<open>\<open>rows.Scan\<close> into the fields, by position; a value of another type does not scan.\<close>

fun scan_int :: "sqlval \<Rightarrow> int option" where
  "scan_int (VInt n) = Some n"
| "scan_int _ = None"

fun scan_real :: "sqlval \<Rightarrow> float64 option" where
  "scan_real (VReal x) = Some x"
| "scan_real _ = None"

fun scan_text :: "sqlval \<Rightarrow> string option" where
  "scan_text (VText s) = Some s"
| "scan_text _ = None"

definition scan_row :: "sqlval list \<Rightarrow> result option" where
  "scan_row vs = (if length vs \<noteq> 14 then None else do {
     i \<leftarrow> scan_int (vs ! 0); c \<leftarrow> scan_int (vs ! 1); d \<leftarrow> scan_real (vs ! 2); u \<leftarrow> scan_real (vs ! 3);
     li \<leftarrow> scan_real (vs ! 4); ll \<leftarrow> scan_real (vs ! 5); dj \<leftarrow> scan_real (vs ! 6); uj \<leftarrow> scan_real (vs ! 7);
     p \<leftarrow> scan_real (vs ! 8); g \<leftarrow> scan_text (vs ! 9); ip \<leftarrow> scan_text (vs ! 10); loc \<leftarrow> scan_text (vs ! 11);
     ua \<leftarrow> scan_text (vs ! 12); js \<leftarrow> scan_text (vs ! 13);
     Some \<lparr>ID = i, CreatedAt = c, DownloadMbps = d, UploadMbps = u, LatencyIdleMs = li, LatencyLoadedMs = ll,
       DownloadJitterMs = dj, UploadJitterMs = uj, PacketLoss = p, BufferbloatGrade = g, ClientIPAddr = ip,
       ClientIPLocation = loc, UserAgent = ua, SettingsJSON = js\<rparr>})"

fun scanRows :: "sqlval list list \<Rightarrow> result list option" where
  "scanRows [] = Some []"
| "scanRows (r # rs) = (case scan_row r of None \<Rightarrow> None
     | Some x \<Rightarrow> (case scanRows rs of None \<Rightarrow> None | Some xs \<Rightarrow> Some (x # xs)))"

definition sq_List :: "'db engine \<Rightarrow> int \<Rightarrow> int \<Rightarrow> 'db \<Rightarrow> result list option \<times> 'db" where
  "sq_List e limit offset db =
     (if limit \<le> 0 then (None, db)
      else
        (let offset = (if offset < 0 then 0 else offset) in
         case sql_query e (SelectNewest select_columns) [VInt limit, VInt offset] db of
           (None, db) \<Rightarrow> (None, db)
         | (Some rs, db) \<Rightarrow> (scanRows rs, db)))"

definition sq_Count :: "'db engine \<Rightarrow> 'db \<Rightarrow> int option \<times> 'db" where
  "sq_Count e db =
     (case sql_query e SelectCount [] db of
        (Some [[VInt n]], db) \<Rightarrow> (Some n, db)
      | (_, db) \<Rightarrow> (None, db))"

definition sq_Delete :: "'db engine \<Rightarrow> int \<Rightarrow> 'db \<Rightarrow> bool option \<times> 'db" where
  "sq_Delete e i db =
     (case sql_exec e DeleteById [VInt i] db of
        (None, db) \<Rightarrow> (None, db)
      | (Some res, db) \<Rightarrow> (map_option (\<lambda>n. 0 < n) (RowsAffected res), db))"

definition sq_DeleteAll :: "'db engine \<Rightarrow> 'db \<Rightarrow> int option \<times> 'db" where
  "sq_DeleteAll e db =
     (case sql_exec e DeleteRows [] db of (None, db) \<Rightarrow> (None, db) | (Some res, db) \<Rightarrow> (RowsAffected res, db))"

definition sq_PruneOlderThan :: "'db engine \<Rightarrow> int \<Rightarrow> 'db \<Rightarrow> int option \<times> 'db" where
  "sq_PruneOlderThan e cutoffMs db =
     (if cutoffMs \<le> 0 then (Some 0, db)
      else (case sql_exec e DeleteOlder [VInt cutoffMs] db of
              (None, db) \<Rightarrow> (None, db) | (Some res, db) \<Rightarrow> (RowsAffected res, db)))"

definition sqlite_store :: "'db engine \<Rightarrow> 'db store_ops" where
  "sqlite_store e = \<lparr>Save = sq_Save e, List = sq_List e, Count = sq_Count e, Delete = sq_Delete e,
     DeleteAll = sq_DeleteAll e, PruneOlderThan = sq_PruneOlderThan e\<rparr>"

section \<open>The contract of a store\<close>

text \<open>What a stored float reads back as, and the order of a listing.\<close>

fun norm :: "float64 \<Rightarrow> float64" where
  "norm NZero = Fin 0"
| "norm x = x"

definition persisted :: "result \<Rightarrow> result" where
  "persisted r = r\<lparr>DownloadMbps := norm (DownloadMbps r), UploadMbps := norm (UploadMbps r),
     LatencyIdleMs := norm (LatencyIdleMs r), LatencyLoadedMs := norm (LatencyLoadedMs r),
     DownloadJitterMs := norm (DownloadJitterMs r), UploadJitterMs := norm (UploadJitterMs r),
     PacketLoss := norm (PacketLoss r)\<rparr>"

definition newest :: "result list \<Rightarrow> result list" where
  "newest rs = sort_key (\<lambda>r. - CreatedAt r) (sort_key (\<lambda>r. - ID r) rs)"

definition newer :: "result \<Rightarrow> result \<Rightarrow> bool" where
  "newer a b \<longleftrightarrow> CreatedAt b < CreatedAt a \<or> CreatedAt a = CreatedAt b \<and> ID b \<le> ID a"

lemma set_newest [simp]: "set (newest rs) = set rs" and length_newest [simp]: "length (newest rs) = length rs"
  by (simp_all add: newest_def)

lemma insort_key_newer:
  "sorted_wrt newer xs \<Longrightarrow> (\<And>x. x \<in> set xs \<Longrightarrow> ID x \<le> ID a) \<Longrightarrow>
     sorted_wrt newer (insort_key (\<lambda>r. - CreatedAt r) a xs)"
  by (induction xs) (auto simp: newer_def set_insort_key)

lemma sorted_newest: "sorted_wrt newer (newest rs)"
proof -
  have "sorted_wrt newer (sort_key (\<lambda>r. - CreatedAt r) xs)" if "sorted_wrt (\<lambda>a b. ID b \<le> ID a) xs" for xs
    using that by (induction xs) (auto intro!: insort_key_newer)
  moreover have "sorted_wrt (\<lambda>a b. ID b \<le> ID a) (sort_key (\<lambda>r. - ID r) rs)"
    using sorted_sort_key [of "\<lambda>r. - ID r" rs] by (simp add: sorted_map)
  ultimately show ?thesis by (simp add: newest_def)
qed

text \<open>What was saved last comes first, unless the clock has gone back.\<close>

lemma newest_snoc:
  assumes "\<And>y. y \<in> set rs \<Longrightarrow> CreatedAt y \<le> CreatedAt x" and "\<And>y. y \<in> set rs \<Longrightarrow> ID y < ID x"
  shows "\<exists>ys. newest (rs @ [x]) = x # ys \<and> set ys \<subseteq> insert x (set rs)"
proof -
  have "length (newest (rs @ [x])) \<noteq> 0" by simp
  then obtain y ys where y: "newest (rs @ [x]) = y # ys" by (cases "newest (rs @ [x])") auto
  have sub: "set (y # ys) = insert x (set rs)" by (simp flip: y)
  moreover have "newer y z" if "z \<in> set ys" for z using sorted_newest [of "rs @ [x]"] that by (simp add: y)
  ultimately have "y = x" using assms by (fastforce simp: newer_def)
  with y sub show ?thesis by auto
qed

text \<open>
  The promises of the \<open>Store\<close> interface over the abstract contents of a backend, a list of results in
  the order they were saved. A failed call changes nothing.
\<close>

locale result_store =
  fixes st :: "'db store_ops"
    and contents :: "'db \<Rightarrow> result list"
    and ok :: "'db \<Rightarrow> bool"
  assumes ids: "ok db \<Longrightarrow> distinct (map ID (contents db))"
    and save_ok: "ok db \<Longrightarrow> Save st now r db = (Some r', db') \<Longrightarrow>
      ok db' \<and> contents db' = contents db @ [persisted r'] \<and>
      r' = r\<lparr>CreatedAt := (if CreatedAt r = 0 then now else CreatedAt r), ID := ID r'\<rparr> \<and>
      (\<forall>x \<in> set (contents db). ID x < ID r')"
    and save_err: "ok db \<Longrightarrow> Save st now r db = (None, db') \<Longrightarrow> ok db' \<and> contents db' = contents db"
    and list_ok: "ok db \<Longrightarrow> List st l n db = (Some rs, db') \<Longrightarrow>
      0 < l \<and> rs = take (nat l) (drop (nat n) (newest (contents db)))"
    and list_keeps: "ok db \<Longrightarrow> List st l n db = (x, db') \<Longrightarrow> ok db' \<and> contents db' = contents db"
    and count_ok: "ok db \<Longrightarrow> Count st db = (Some k, db') \<Longrightarrow> k = int (length (contents db))"
    and count_keeps: "ok db \<Longrightarrow> Count st db = (y, db') \<Longrightarrow> ok db' \<and> contents db' = contents db"
    and delete_ok: "ok db \<Longrightarrow> Delete st i db = (Some b, db') \<Longrightarrow>
      ok db' \<and> contents db' = filter (\<lambda>x. ID x \<noteq> i) (contents db) \<and> (b \<longleftrightarrow> i \<in> ID ` set (contents db))"
    and delete_err: "ok db \<Longrightarrow> Delete st i db = (None, db') \<Longrightarrow> ok db' \<and> contents db' = contents db"
    and delete_all_ok: "ok db \<Longrightarrow> DeleteAll st db = (Some k, db') \<Longrightarrow>
      ok db' \<and> contents db' = [] \<and> k = int (length (contents db))"
    and delete_all_err: "ok db \<Longrightarrow> DeleteAll st db = (None, db') \<Longrightarrow> ok db' \<and> contents db' = contents db"
    and prune_ok: "ok db \<Longrightarrow> PruneOlderThan st cutoff db = (Some k, db') \<Longrightarrow>
      ok db' \<and> contents db' = (if cutoff \<le> 0 then contents db else filter (\<lambda>x. cutoff \<le> CreatedAt x) (contents db)) \<and>
      k = int (length (contents db)) - int (length (contents db'))"
    and prune_err: "ok db \<Longrightarrow> PruneOlderThan st cutoff db = (None, db') \<Longrightarrow> ok db' \<and> contents db' = contents db"
begin

lemma save_keeps: "ok db \<Longrightarrow> Save st now r db = (x, db') \<Longrightarrow> ok db'"
  using save_ok save_err by (cases x) blast+

text \<open>A listing is in order, without repetitions, and a page of the whole.\<close>

lemma list_sorted:
  assumes "ok db" and "List st l n db = (Some rs, db')"
  shows "sorted_wrt newer rs \<and> distinct (map ID rs) \<and> set rs \<subseteq> set (contents db)"
proof -
  let ?all = "newest (contents db)"
  have rs: "rs = take (nat l) (drop (nat n) ?all)" using list_ok [OF assms] by simp
  have "distinct (map ID ?all)"
    using ids [OF assms(1)] by (simp add: newest_def distinct_map)
  then show ?thesis
    using sorted_newest [of "contents db"] set_newest [of "contents db"]
    by (auto simp: rs distinct_map sorted_wrt_take sorted_wrt_drop distinct_take distinct_drop
        dest!: in_set_takeD in_set_dropD elim: inj_on_subset intro: inj_on_subset)
qed

lemma list_has_saved:
  assumes "ok db" and "Save st now r db = (Some r', db1)"
    and "\<And>x. x \<in> set (contents db) \<Longrightarrow> CreatedAt x \<le> CreatedAt r'"
    and "List st l n db1 = (Some rs, db2)" and "n \<le> 0"
  shows "rs \<noteq> [] \<and> hd rs = persisted r'"
proof -
  have s: "ok db1" "contents db1 = contents db @ [persisted r']" "\<forall>x \<in> set (contents db). ID x < ID r'"
    using save_ok [OF assms(1,2)] by auto
  note l = list_ok [OF s(1) assms(4)]
  obtain ys where y: "newest (contents db1) = persisted r' # ys"
    using newest_snoc [of "contents db" "persisted r'"] assms(3) s(2,3) by (auto simp: persisted_def)
  then show ?thesis using l assms(5) by (auto simp: take_Cons')
qed

end

section \<open>SQLite keeps the contract\<close>

definition row_result :: "row \<Rightarrow> result option" where
  "row_result r = scan_row (map (col r) select_columns)"

definition schema_ok :: "table \<Rightarrow> bool" where
  "schema_ok t \<longleftrightarrow> distinct (map fst (columns t)) \<and> set insert_columns \<subseteq> fst ` set (columns t) \<and>
     ''id'' \<notin> fst ` set (columns t)"

definition rows_ok :: "table \<Rightarrow> bool" where
  "rows_ok t \<longleftrightarrow> (\<forall>r \<in> set (rows t). \<exists>x. row_result r = Some x \<and> ID x \<le> seq t) \<and>
     distinct (map (\<lambda>r. col r ''id'') (rows t))"

definition store_ok :: "('db \<Rightarrow> table option) \<Rightarrow> 'db \<Rightarrow> bool" where
  "store_ok tbl db \<longleftrightarrow> (\<exists>t. tbl db = Some t \<and> schema_ok t \<and> rows_ok t)"

definition table_results :: "table \<Rightarrow> result list" where
  "table_results t = map (\<lambda>r. the (row_result r)) (rows t)"

definition stored_results :: "('db \<Rightarrow> table option) \<Rightarrow> 'db \<Rightarrow> result list" where
  "stored_results tbl db = (case tbl db of None \<Rightarrow> [] | Some t \<Rightarrow> table_results t)"

lemma stored_VReal: "stored (VReal x) = (if x = NaN then None else Some (VReal (norm x)))"
  by (cases x) auto

lemma scan_inverses:
  "scan_int v = Some n \<longleftrightarrow> v = VInt n" "scan_real v = Some x \<longleftrightarrow> v = VReal x" "scan_text v = Some s \<longleftrightarrow> v = VText s"
  by (cases v; auto)+

lemma row_result_keys:
  assumes "row_result r = Some x"
  shows "col r ''id'' = VInt (ID x)" and "col r ''created_at'' = VInt (CreatedAt x)"
  using assms
  by (auto simp: row_result_def scan_row_def select_columns_def scan_inverses bind_eq_Some_conv split: if_splits)

text \<open>The key fact about \<open>INSERT\<close> and \<open>SELECT\<close>: the column list of the one and the positions of the other
  agree, so a row reads back as what was written.\<close>

lemma insert_row_reads_back:
  assumes "insert_row insert_columns (insert_args r) t = Some t'" and "schema_ok t"
  shows "\<exists>row. rows t' = rows t @ [row] \<and> row_result row = Some (persisted (r\<lparr>ID := seq t + 1\<rparr>)) \<and>
    columns t' = columns t \<and> seq t' = seq t + 1"
proof -
  obtain xs where xs: "stored_all (insert_args r) = Some xs"
    and t': "t' = t\<lparr>seq := seq t + 1, rows := rows t @ [(''id'', VInt (seq t + 1)) #
      map (\<lambda>(c, d). (c, case map_of (zip insert_columns xs) c of Some v \<Rightarrow> v | None \<Rightarrow> d)) (columns t)]\<rparr>"
    using assms(1) by (auto simp: insert_row_def split: if_splits option.splits)
  define row where "row = (''id'', VInt (seq t + 1)) #
      map (\<lambda>(c, d). (c, case map_of (zip insert_columns xs) c of Some v \<Rightarrow> v | None \<Rightarrow> d)) (columns t)"
  have args: "xs = insert_args (persisted r)"
    using xs by (auto simp: insert_args_def persisted_def stored_VReal split: if_splits)
  have look: "map_of (map (\<lambda>(c, d). (c, f c d)) cs) c = map_option (f c) (map_of cs c)" for f :: "string \<Rightarrow> sqlval \<Rightarrow> sqlval" and cs c
    by (induction cs) auto
  have val: "col row c = v"
    if "map_of (zip insert_columns xs) c = Some v" and "c \<in> set insert_columns" and "c \<noteq> ''id''" for c v
  proof -
    have "c \<in> fst ` set (columns t)" using that(2) assms(2) by (auto simp: schema_ok_def)
    then obtain d where "map_of (columns t) c = Some d"
      by (metis (no_types, lifting) map_of_eq_None_iff not_None_eq)
    then show ?thesis using that by (simp add: col_def row_def look)
  qed
  have "col row ''id'' = VInt (seq t + 1)" by (simp add: col_def row_def)
  then have "row_result row = Some (persisted (r\<lparr>ID := seq t + 1\<rparr>))"
    by (simp add: row_result_def select_columns_def val args insert_args_def insert_columns_def scan_row_def
        persisted_def)
  then show ?thesis by (auto simp: t' row_def)
qed

lemma exec_law:
  "sqlite_laws e tbl \<Longrightarrow> sql_exec e s vs db = (Some x, db') \<Longrightarrow> exec_meaning s vs (tbl db) = Some (tbl db', x)"
  "sqlite_laws e tbl \<Longrightarrow> sql_exec e s vs db = (None, db') \<Longrightarrow> tbl db' = tbl db"
  unfolding sqlite_laws_def by (metis (mono_tags, lifting) case_prod_conv option.simps(4,5))+

lemma query_law:
  "sqlite_laws e tbl \<Longrightarrow> sql_query e s vs db = (Some rs, db') \<Longrightarrow> query_meaning s vs (tbl db) = Some rs"
  "sqlite_laws e tbl \<Longrightarrow> sql_query e s vs db = (q, db') \<Longrightarrow> tbl db' = tbl db"
proof -
  show "sqlite_laws e tbl \<Longrightarrow> sql_query e s vs db = (Some rs, db') \<Longrightarrow> query_meaning s vs (tbl db) = Some rs"
    unfolding sqlite_laws_def by (metis (mono_tags, lifting) case_prod_conv option.simps(5))
  show "sqlite_laws e tbl \<Longrightarrow> sql_query e s vs db = (q, db') \<Longrightarrow> tbl db' = tbl db"
    unfolding sqlite_laws_def
    by (cases q) (metis (mono_tags, lifting) case_prod_conv option.simps(4,5))+
qed

lemma scanRows_map:
  "(\<And>r. r \<in> set rs \<Longrightarrow> \<exists>x. row_result r = Some x) \<Longrightarrow>
     scanRows (map (\<lambda>r. map (col r) select_columns) rs) = Some (map (\<lambda>r. the (row_result r)) rs)"
proof (induction rs)
  case (Cons r rs)
  then obtain x where "row_result r = Some x" by auto
  with Cons show ?case by (simp add: row_result_def)
qed simp

lemma insort_key_map: "insort_key f (g a) (map g xs) = map g (insort_key (\<lambda>x. f (g x)) a xs)"
  by (induction xs) auto

lemma sort_key_map: "sort_key f (map g xs) = map g (sort_key (\<lambda>x. f (g x)) xs)"
  by (induction xs) (simp_all add: insort_key_map)

lemma insort_key_same:
  "(\<And>x. x \<in> insert a (set xs) \<Longrightarrow> f x = h x) \<Longrightarrow> insort_key f a xs = insort_key h a xs"
  by (induction xs) auto

lemma sort_key_same: "(\<And>x. x \<in> set xs \<Longrightarrow> f x = h x) \<Longrightarrow> sort_key f xs = sort_key h xs"
proof (induction xs)
  case (Cons a xs)
  have "insort_key f a (sort_key f xs) = insort_key h a (sort_key f xs)"
    using Cons.prems by (intro insort_key_same) auto
  with Cons show ?case by simp
qed simp

lemma newest_table:
  assumes "\<And>r. r \<in> set rs \<Longrightarrow> \<exists>x. row_result r = Some x"
  shows "map (\<lambda>r. the (row_result r)) (newest_rows rs) = newest (map (\<lambda>r. the (row_result r)) rs)"
proof -
  have k: "int_of (col r ''id'') = ID (the (row_result r)) \<and> int_of (col r ''created_at'') = CreatedAt (the (row_result r))"
    if "r \<in> set rs" for r
    using assms [OF that] row_result_keys by fastforce
  have "sort_key (\<lambda>r. - ID (the (row_result r))) rs = sort_key (\<lambda>r. - int_of (col r ''id'')) rs"
    using k by (intro sort_key_same) simp
  moreover have "sort_key (\<lambda>r. - CreatedAt (the (row_result r))) (sort_key (\<lambda>r. - int_of (col r ''id'')) rs) =
      sort_key (\<lambda>r. - int_of (col r ''created_at'')) (sort_key (\<lambda>r. - int_of (col r ''id'')) rs)"
    using k by (intro sort_key_same) simp
  ultimately show ?thesis by (simp add: newest_def newest_rows_def sort_key_map)
qed

lemma set_newest_rows [simp]: "set (newest_rows rs) = set rs"
  by (simp add: newest_rows_def)

text \<open>Removing rows is removing results.\<close>

lemma removed_results:
  assumes "rows_ok t" and "\<And>r x. row_result r = Some x \<Longrightarrow> p r \<longleftrightarrow> q x"
  shows "rows_ok (fst (removed p t))"
    and "table_results (fst (removed p t)) = filter (\<lambda>x. \<not> q x) (table_results t)"
    and "RowsAffected (snd (removed p t)) = Some (int (length (filter q (table_results t))))"
    and "columns (fst (removed p t)) = columns t"
proof -
  have q: "p r \<longleftrightarrow> q (the (row_result r))" if "r \<in> set (rows t)" for r
    using assms that by (fastforce simp: rows_ok_def)
  show "rows_ok (fst (removed p t))"
    using assms(1) by (auto simp: rows_ok_def removed_def distinct_map_filter)
  show "table_results (fst (removed p t)) = filter (\<lambda>x. \<not> q x) (table_results t)"
    using q by (auto simp: table_results_def removed_def filter_map o_def intro!: map_cong filter_cong)
  have "filter p (rows t) = filter (\<lambda>r. q (the (row_result r))) (rows t)" by (rule filter_cong) (simp_all add: q)
  then show "RowsAffected (snd (removed p t)) = Some (int (length (filter q (table_results t))))"
    by (simp add: removed_def table_results_def filter_map o_def)
  show "columns (fst (removed p t)) = columns t" by (simp add: removed_def)
qed

lemma store_okD:
  assumes "store_ok tbl db"
  obtains t where "tbl db = Some t" and "schema_ok t" and "rows_ok t" and "stored_results tbl db = table_results t"
  using assms by (auto simp: store_ok_def stored_results_def)

lemma store_same:
  "tbl db' = tbl db \<Longrightarrow> store_ok tbl db \<Longrightarrow> store_ok tbl db' \<and> stored_results tbl db' = stored_results tbl db"
  by (simp add: store_ok_def stored_results_def)

lemma rows_ok_ids: "rows_ok t \<Longrightarrow> distinct (map ID (table_results t))"
proof -
  assume r: "rows_ok t"
  have "map (\<lambda>r. col r ''id'') (rows t) = map (\<lambda>x. VInt (ID x)) (table_results t)"
    using r row_result_keys(1) by (fastforce simp: rows_ok_def table_results_def)
  then have "distinct (map VInt (map ID (table_results t)))" using r by (simp add: rows_ok_def o_def)
  then show ?thesis using distinct_map by blast
qed

lemma sqlite_removal:
  assumes "sqlite_laws e tbl" and "store_ok tbl db" and "sql_exec e s vs db = (Some x, db')"
    and "\<And>t. exec_meaning s vs (Some t) = (case removed p t of (t', x) \<Rightarrow> Some (Some t', x))"
    and "\<And>r y. row_result r = Some y \<Longrightarrow> p r \<longleftrightarrow> q y"
  shows "store_ok tbl db' \<and> stored_results tbl db' = filter (\<lambda>y. \<not> q y) (stored_results tbl db) \<and>
    RowsAffected x = Some (int (length (filter q (stored_results tbl db))))"
proof -
  obtain t where t: "tbl db = Some t" "schema_ok t" "rows_ok t" "stored_results tbl db = table_results t"
    using store_okD [OF assms(2)] .
  have "tbl db' = Some (fst (removed p t))" and x: "x = snd (removed p t)"
    using exec_law(1) [OF assms(1,3)] t(1) by (simp_all add: assms(4) split: prod.splits)
  then show ?thesis
    using removed_results [OF t(3) assms(5)] t
    by (simp add: store_ok_def stored_results_def schema_ok_def)
qed

lemma sqlite_save:
  assumes "sqlite_laws e tbl" and "store_ok tbl db" and "sq_Save e now r db = (Some r', db')"
  shows "store_ok tbl db' \<and> stored_results tbl db' = stored_results tbl db @ [persisted r'] \<and>
    r' = r\<lparr>CreatedAt := (if CreatedAt r = 0 then now else CreatedAt r), ID := ID r'\<rparr> \<and>
    (\<forall>x \<in> set (stored_results tbl db). ID x < ID r')"
proof -
  obtain t where t: "tbl db = Some t" "schema_ok t" "rows_ok t" "stored_results tbl db = table_results t"
    using store_okD [OF assms(2)] .
  define r1 where "r1 = r\<lparr>CreatedAt := (if CreatedAt r = 0 then now else CreatedAt r)\<rparr>"
  have "(if CreatedAt r = 0 then r\<lparr>CreatedAt := now\<rparr> else r) = r1" by (simp add: r1_def)
  with assms(3) obtain res i where x: "sql_exec e (Insert insert_columns) (insert_args r1) db = (Some res, db')"
    and i: "LastInsertId res = Some i" and r': "r' = r1\<lparr>ID := i\<rparr>"
    by (auto simp: sq_Save_def split: prod.splits option.splits)
  from exec_law(1) [OF assms(1) x] t(1) obtain t' where t': "insert_row insert_columns (insert_args r1) t = Some t'"
    and db': "tbl db' = Some t'" and res: "res = \<lparr>LastInsertId = Some (seq t'), RowsAffected = Some 1\<rparr>"
    by (auto split: option.splits)
  from insert_row_reads_back [OF t' t(2)] obtain row where row: "rows t' = rows t @ [row]"
    "row_result row = Some (persisted (r1\<lparr>ID := seq t + 1\<rparr>))" "columns t' = columns t" "seq t' = seq t + 1"
    by blast
  have id: "i = seq t + 1" using i res row(4) by simp
  have new: "persisted r' = the (row_result row)" and idp: "ID (persisted r') = i"
    using row(2) id r' by (simp_all add: persisted_def)
  have old: "ID x < i" if "x \<in> set (table_results t)" for x
    using that t(3) id by (fastforce simp: table_results_def rows_ok_def)
  have "col row ''id'' \<noteq> col s ''id''" if s: "s \<in> set (rows t)" for s
  proof -
    obtain y where "row_result s = Some y" "ID y \<le> seq t" using s t(3) by (auto simp: rows_ok_def)
    then show ?thesis using row_result_keys(1) [OF row(2)] row_result_keys(1) [of s y]
      by (simp add: persisted_def)
  qed
  moreover have "ID y \<le> seq t'" if "row_result s = Some y" and "s \<in> set (rows t')" for s y
    using that t(3) row by (fastforce simp: rows_ok_def persisted_def)
  ultimately have "rows_ok t'"
    using t(3) row by (fastforce simp: rows_ok_def)
  then show ?thesis
    using t db' row old new id r' by (auto simp: store_ok_def stored_results_def table_results_def schema_ok_def r1_def)
qed

lemma sqlite_list:
  assumes "sqlite_laws e tbl" and "store_ok tbl db" and "sq_List e l n db = (x, db')"
  shows "store_ok tbl db' \<and> stored_results tbl db' = stored_results tbl db \<and>
    (\<forall>rs. x = Some rs \<longrightarrow> 0 < l \<and> rs = take (nat l) (drop (nat n) (newest (stored_results tbl db))))"
proof (cases "l \<le> 0")
  case True
  with assms show ?thesis by (auto simp: sq_List_def)
next
  case False
  obtain t where t: "tbl db = Some t" "schema_ok t" "rows_ok t" "stored_results tbl db = table_results t"
    using store_okD [OF assms(2)] .
  define n' where "n' = (if n < 0 then 0 else n)"
  obtain q where q: "sql_query e (SelectNewest select_columns) [VInt l, VInt n'] db = (q, db')"
    and x: "x = (case q of None \<Rightarrow> None | Some rs \<Rightarrow> scanRows rs)"
    using assms(3) False by (auto simp: sq_List_def n'_def Let_def split: prod.splits option.splits if_splits)
  have same: "store_ok tbl db' \<and> stored_results tbl db' = stored_results tbl db"
    by (rule store_same [OF query_law(2) [OF assms(1) q] assms(2)])
  have "rs = take (nat l) (drop (nat n) (newest (stored_results tbl db)))" if "x = Some rs" for rs
  proof -
    let ?rows = "take (nat l) (drop (nat n) (newest_rows (rows t)))"
    obtain qs where "q = Some qs" and "scanRows qs = Some rs" using x \<open>x = Some rs\<close> by (auto split: option.splits)
    moreover have "nat n' = nat n" by (simp add: n'_def)
    ultimately have qs: "qs = map (\<lambda>r. map (col r) select_columns) ?rows"
      using query_law(1) [OF assms(1), of "SelectNewest select_columns" "[VInt l, VInt n']" db qs db'] q t(1)
      by (auto split: if_splits)
    have "\<exists>y. row_result r = Some y" if "r \<in> set ?rows" for r
      using that t(3) by (auto simp: rows_ok_def dest!: in_set_takeD in_set_dropD)
    then have "rs = map (\<lambda>r. the (row_result r)) ?rows"
      using scanRows_map [of ?rows] qs \<open>scanRows qs = Some rs\<close> by simp
    also have "\<dots> = take (nat l) (drop (nat n) (newest (table_results t)))"
      using newest_table [of "rows t"] t(3)
      by (simp add: rows_ok_def table_results_def flip: take_map drop_map) metis
    finally show ?thesis using t(4) by simp
  qed
  with same False show ?thesis by auto
qed

lemma sqlite_count:
  assumes "sqlite_laws e tbl" and "store_ok tbl db" and "sq_Count e db = (x, db')"
  shows "store_ok tbl db' \<and> stored_results tbl db' = stored_results tbl db \<and>
    (\<forall>k. x = Some k \<longrightarrow> k = int (length (stored_results tbl db)))"
proof -
  obtain t where t: "tbl db = Some t" "schema_ok t" "rows_ok t" "stored_results tbl db = table_results t"
    using store_okD [OF assms(2)] .
  obtain q db1 where q: "sql_query e SelectCount [] db = (q, db1)" by (cases "sql_query e SelectCount [] db")
  have "db' = db1" using assms(3) q by (auto simp: sq_Count_def split: option.splits list.splits sqlval.splits)
  with store_same [OF query_law(2) [OF assms(1) q] assms(2)]
  have same: "store_ok tbl db' \<and> stored_results tbl db' = stored_results tbl db" by simp
  have "k = int (length (stored_results tbl db))" if "x = Some k" for k
  proof (cases q)
    case None
    then show ?thesis using assms(3) q that by (simp add: sq_Count_def)
  next
    case (Some rs)
    then have "rs = [[VInt (int (length (rows t)))]]"
      using query_law(1) [OF assms(1), of SelectCount "[]" db rs db1] q t(1) by simp
    then show ?thesis using assms(3) q Some that t(4) by (simp add: sq_Count_def table_results_def)
  qed
  with same show ?thesis by blast
qed

lemma sqlite_failed:
  "sqlite_laws e tbl \<Longrightarrow> store_ok tbl db \<Longrightarrow> sql_exec e s vs db = (None, db') \<Longrightarrow>
     store_ok tbl db' \<and> stored_results tbl db' = stored_results tbl db"
  by (rule store_same [OF exec_law(2)])

lemma sqlite_delete:
  assumes "sqlite_laws e tbl" and "store_ok tbl db" and "sq_Delete e i db = (x, db')"
  shows "store_ok tbl db' \<and> (case x of None \<Rightarrow> stored_results tbl db' = stored_results tbl db
    | Some b \<Rightarrow> stored_results tbl db' = filter (\<lambda>x. ID x \<noteq> i) (stored_results tbl db) \<and>
        (b \<longleftrightarrow> i \<in> ID ` set (stored_results tbl db)))"
proof -
  obtain y db1 where y: "sql_exec e DeleteById [VInt i] db = (y, db1)" by (cases "sql_exec e DeleteById [VInt i] db")
  show ?thesis
  proof (cases y)
    case None
    then show ?thesis using assms y sqlite_failed [OF assms(1,2)] by (auto simp: sq_Delete_def)
  next
    case (Some res)
    have m: "exec_meaning DeleteById [VInt i] (Some t) =
        (case removed (\<lambda>r. col r ''id'' = VInt i) t of (t', x) \<Rightarrow> Some (Some t', x))" for t
      by simp
    have k: "(col r ''id'' = VInt i) = (ID z = i)" if "row_result r = Some z" for r z
      using row_result_keys(1) [OF that] by simp
    note r = sqlite_removal [OF assms(1,2) y [unfolded Some] m, where q = "\<lambda>z. ID z = i", OF k]
    have "x = Some (0 < int (length (filter (\<lambda>z. ID z = i) (stored_results tbl db))))" and "db' = db1"
      using assms(3) y Some r by (auto simp: sq_Delete_def)
    then show ?thesis using r by (auto simp: filter_empty_conv)
  qed
qed

lemma sqlite_delete_all:
  assumes "sqlite_laws e tbl" and "store_ok tbl db" and "sq_DeleteAll e db = (x, db')"
  shows "store_ok tbl db' \<and> (case x of None \<Rightarrow> stored_results tbl db' = stored_results tbl db
    | Some k \<Rightarrow> stored_results tbl db' = [] \<and> k = int (length (stored_results tbl db)))"
proof -
  obtain y db1 where y: "sql_exec e DeleteRows [] db = (y, db1)" by (cases "sql_exec e DeleteRows [] db")
  show ?thesis
  proof (cases y)
    case None
    then show ?thesis using assms y sqlite_failed [OF assms(1,2)] by (auto simp: sq_DeleteAll_def)
  next
    case (Some res)
    have m: "exec_meaning DeleteRows [] (Some t) = (case removed (\<lambda>r. True) t of (t', x) \<Rightarrow> Some (Some t', x))" for t
      by simp
    note r = sqlite_removal [OF assms(1,2) y [unfolded Some] m, where q = "\<lambda>_. True"]
    show ?thesis using assms(3) y Some r by (auto simp: sq_DeleteAll_def)
  qed
qed

lemma sqlite_prune:
  assumes "sqlite_laws e tbl" and "store_ok tbl db" and "sq_PruneOlderThan e cutoff db = (x, db')"
  shows "store_ok tbl db' \<and> (case x of None \<Rightarrow> stored_results tbl db' = stored_results tbl db
    | Some k \<Rightarrow> stored_results tbl db' = (if cutoff \<le> 0 then stored_results tbl db
          else filter (\<lambda>z. cutoff \<le> CreatedAt z) (stored_results tbl db)) \<and>
        k = int (length (stored_results tbl db)) - int (length (stored_results tbl db')))"
proof (cases "cutoff \<le> 0")
  case True
  with assms show ?thesis by (auto simp: sq_PruneOlderThan_def)
next
  case False
  obtain y db1 where y: "sql_exec e DeleteOlder [VInt cutoff] db = (y, db1)"
    by (cases "sql_exec e DeleteOlder [VInt cutoff] db")
  show ?thesis
  proof (cases y)
    case None
    then show ?thesis using assms y False sqlite_failed [OF assms(1,2)] by (auto simp: sq_PruneOlderThan_def)
  next
    case (Some res)
    have m: "exec_meaning DeleteOlder [VInt cutoff] (Some t) =
        (case removed (\<lambda>r. int_of (col r ''created_at'') < cutoff) t of (t', x) \<Rightarrow> Some (Some t', x))" for t
      by simp
    have k: "(int_of (col r ''created_at'') < cutoff) = (CreatedAt z < cutoff)" if "row_result r = Some z" for r z
      using row_result_keys(2) [OF that] by simp
    note r = sqlite_removal [OF assms(1,2) y [unfolded Some] m, where q = "\<lambda>z. CreatedAt z < cutoff", OF k]
    have "x = Some (int (length (filter (\<lambda>z. CreatedAt z < cutoff) (stored_results tbl db))))" and "db' = db1"
      using assms(3) y Some r False by (auto simp: sq_PruneOlderThan_def)
    then show ?thesis
      using r False sum_length_filter_compl [of "\<lambda>z. CreatedAt z < cutoff" "stored_results tbl db"]
      by (simp add: linorder_not_less)
  qed
qed

lemma sq_Save_err:
  "sqlite_laws e tbl \<Longrightarrow> store_ok tbl db \<Longrightarrow> sq_Save e now r db = (None, db') \<Longrightarrow>
     store_ok tbl db' \<and> stored_results tbl db' = stored_results tbl db"
proof -
  assume a: "sqlite_laws e tbl" "store_ok tbl db" "sq_Save e now r db = (None, db')"
  define r1 where "r1 = (if CreatedAt r = 0 then r\<lparr>CreatedAt := now\<rparr> else r)"
  obtain y db1 where y: "sql_exec e (Insert insert_columns) (insert_args r1) db = (y, db1)"
    by (cases "sql_exec e (Insert insert_columns) (insert_args r1) db")
  show ?thesis
  proof (cases y)
    case None
    then show ?thesis using a y sqlite_failed [OF a(1,2)] by (simp add: sq_Save_def r1_def [symmetric])
  next
    case (Some res)
    have "LastInsertId res \<noteq> None"
      using exec_law(1) [OF a(1) y [unfolded Some]] by (auto split: option.splits dest!: sym [of "Some _"] elim!: exec_meaning.elims)
    then show ?thesis using a(3) y Some by (auto simp: sq_Save_def r1_def [symmetric])
  qed
qed

lemma sqlite_store_simps [simp]:
  "Save (sqlite_store e) = sq_Save e" "List (sqlite_store e) = sq_List e" "Count (sqlite_store e) = sq_Count e"
  "Delete (sqlite_store e) = sq_Delete e" "DeleteAll (sqlite_store e) = sq_DeleteAll e"
  "PruneOlderThan (sqlite_store e) = sq_PruneOlderThan e"
  by (simp_all add: sqlite_store_def)

lemma sqlite_refines:
  assumes "sqlite_laws e tbl"
  shows "result_store (sqlite_store e) (stored_results tbl) (store_ok tbl)"
proof (unfold_locales, goal_cases)
  case (1 db)
  then show ?case using rows_ok_ids by (auto elim!: store_okD)
next
  case (2 db now r r' db')
  then show ?case using sqlite_save [OF assms] by simp
next
  case (3 db now r db')
  then show ?case using sq_Save_err [OF assms] by simp
next
  case (4 db l n rs db')
  then show ?case using sqlite_list [OF assms, of db l n "Some rs" db'] by simp
next
  case (5 db l n x db')
  then show ?case using sqlite_list [OF assms, of db l n x db'] by simp
next
  case (6 db k db')
  then show ?case using sqlite_count [OF assms, of db "Some k" db'] by simp
next
  case (7 db y db')
  then show ?case using sqlite_count [OF assms, of db y db'] by simp
next
  case (8 db i b db')
  then show ?case using sqlite_delete [OF assms, of db i "Some b" db'] by simp
next
  case (9 db i db')
  then show ?case using sqlite_delete [OF assms, of db i None db'] by simp
next
  case (10 db k db')
  then show ?case using sqlite_delete_all [OF assms, of db "Some k" db'] by simp
next
  case (11 db db')
  then show ?case using sqlite_delete_all [OF assms, of db None db'] by simp
next
  case (12 db c k db')
  then show ?case using sqlite_prune [OF assms, of db c "Some k" db'] by simp
next
  case (13 db c db')
  then show ?case using sqlite_prune [OF assms, of db c None db'] by simp
qed

interpretation mem: result_store "sqlite_store mem_engine" "stored_results id" "store_ok id"
  by (rule sqlite_refines [OF mem_engine_laws])

section \<open>Open on new, old and current databases\<close>

text \<open>All columns but the one of the migration.\<close>

definition old_schema :: "table \<Rightarrow> bool" where
  "old_schema t \<longleftrightarrow> distinct (map fst (columns t)) \<and> ''id'' \<notin> fst ` set (columns t) \<and>
     set insert_columns - {''client_ip_location''} \<subseteq> fst ` set (columns t)"

lemma row_result_location: "row_result (r @ [(''client_ip_location'', VText [])]) = row_result r"
proof -
  have "col (r @ [(''client_ip_location'', VText [])]) = col r"
    by (auto simp: fun_eq_iff col_def map_add_def split: option.split)
  then show ?thesis by (simp add: row_result_def)
qed

lemma col_location: "col (r @ [(''client_ip_location'', VText [])]) = col r"
  by (auto simp: fun_eq_iff col_def map_add_def split: option.split)

lemma ensureColumn_effect:
  assumes "sqlite_laws e tbl" and "tbl db = Some t"
    and "ensureColumn e c (AddColumn c d) db = (True, db')"
  shows "if c \<in> insert ''id'' (fst ` set (columns t)) then tbl db' = Some t
    else tbl db' = Some (t\<lparr>columns := columns t @ [(c, d)], rows := map (\<lambda>r. r @ [(c, d)]) (rows t)\<rparr>)"
proof -
  obtain q db1 where q: "sql_query e TableInfo [] db = (q, db1)" by (cases "sql_query e TableInfo [] db")
  then obtain rs where rs: "q = Some rs" using assms(3) by (auto simp: ensureColumn_def split: option.splits)
  have "rs = map (\<lambda>c. [VText c]) (''id'' # map fst (columns t))"
    using query_law(1) [OF assms(1), of TableInfo "[]" db rs db1] q rs assms(2) by simp
  then have ex: "list_ex (\<lambda>r. hd r = VText c) rs \<longleftrightarrow> c \<in> insert ''id'' (fst ` set (columns t))"
    by (auto simp: list_ex_iff)
  have db1: "tbl db1 = Some t" using query_law(2) [OF assms(1) q] assms(2) by simp
  show ?thesis
  proof (cases "c \<in> insert ''id'' (fst ` set (columns t))")
    case True
    then show ?thesis using assms(3) q rs ex db1 by (auto simp: ensureColumn_def)
  next
    case False
    then obtain x where "sql_exec e (AddColumn c d) [] db1 = (Some x, db')"
      using assms(3) q rs ex by (auto simp: ensureColumn_def split: prod.splits)
    from exec_law(1) [OF assms(1) this] db1 False show ?thesis by (simp split: if_splits)
  qed
qed

lemma Open_effect:
  assumes laws: "sqlite_laws e tbl" and "Open e (Some db) = Some db'"
  defines "t0 \<equiv> (case tbl db of Some t \<Rightarrow> t | None \<Rightarrow> \<lparr>columns = schemaInit, rows = [], seq = 0\<rparr>)"
  shows "if ''client_ip_location'' \<in> fst ` set (columns t0) then tbl db' = Some t0
    else tbl db' = Some (t0\<lparr>columns := columns t0 @ [(''client_ip_location'', VText [])],
      rows := map (\<lambda>r. r @ [(''client_ip_location'', VText [])]) (rows t0)\<rparr>)"
proof -
  obtain x db1 where x: "sql_exec e (CreateTableIfNotExists schemaInit) [] db = (Some x, db1)"
    and n: "ensureColumn e ''client_ip_location'' (AddColumn ''client_ip_location'' (VText [])) db1 = (True, db')"
    using assms(2) by (auto simp: Open_def split: option.splits prod.splits if_splits)
  have "tbl db1 = Some t0" using exec_law(1) [OF laws x] by (simp add: t0_def split: option.splits)
  from ensureColumn_effect [OF laws this n] show ?thesis by simp
qed

text \<open>What \<open>Open\<close> makes of a database of any age.\<close>

lemma Open_result:
  assumes "sqlite_laws e tbl" and "Open e (Some db) = Some db'"
    and "case tbl db of None \<Rightarrow> True | Some t \<Rightarrow> old_schema t \<and> rows_ok t"
  shows "store_ok tbl db' \<and> stored_results tbl db' = stored_results tbl db \<and>
    (store_ok tbl db \<longrightarrow> tbl db' = tbl db)"
proof -
  define t0 where "t0 = (case tbl db of Some t \<Rightarrow> t | None \<Rightarrow> \<lparr>columns = schemaInit, rows = [], seq = 0\<rparr>)"
  have t0: "old_schema t0" "rows_ok t0" "stored_results tbl db = table_results t0"
    using assms(3) by (auto simp: t0_def old_schema_def schemaInit_def insert_columns_def rows_ok_def stored_results_def
        table_results_def split: option.splits)
  note eff = Open_effect [OF assms(1,2), folded t0_def]
  show ?thesis
  proof (cases "''client_ip_location'' \<in> fst ` set (columns t0)")
    case True
    then have "tbl db' = Some t0" and "schema_ok t0" using eff t0(1) by (auto simp: schema_ok_def old_schema_def)
    then show ?thesis
      using t0(2,3) by (auto simp: store_ok_def stored_results_def t0_def)
  next
    case False
    define t1 where "t1 = t0\<lparr>columns := columns t0 @ [(''client_ip_location'', VText [])],
      rows := map (\<lambda>r. r @ [(''client_ip_location'', VText [])]) (rows t0)\<rparr>"
    have "tbl db' = Some t1" using eff False by (simp add: t1_def)
    moreover have "schema_ok t1" using t0(1) False by (auto simp: t1_def schema_ok_def old_schema_def)
    moreover have "rows_ok t1" "table_results t1 = table_results t0"
      using t0(2) by (auto simp: t1_def rows_ok_def table_results_def row_result_location col_location o_def)
    moreover have "\<not> store_ok tbl db"
      using False by (auto simp: store_ok_def schema_ok_def t0_def insert_columns_def)
    ultimately show ?thesis using t0(3) by (auto simp: store_ok_def stored_results_def)
  qed
qed

section \<open>Properties\<close>

text \<open>A fresh database in memory with one result in it, and one from before the migration.\<close>

definition demo_result :: result where
  "demo_result = result0\<lparr>DownloadMbps := Fin 93, PacketLoss := NZero, BufferbloatGrade := ''A''\<rparr>"

definition demo_empty :: "table option" where
  "demo_empty = Some \<lparr>columns = schemaInit, rows = [], seq = 7\<rparr>"

definition demo_saved :: "table option" where
  "demo_saved = snd (sq_Save mem_engine 1700 demo_result demo_empty)"

lemma demo_empty_ok: "store_ok id demo_empty"
  by (simp add: store_ok_def demo_empty_def schema_ok_def rows_ok_def schemaInit_def insert_columns_def)

lemma demo_save: "sq_Save mem_engine 1700 demo_result demo_empty =
    (Some (demo_result\<lparr>CreatedAt := 1700, ID := 8\<rparr>), demo_saved)"
  by (simp add: demo_saved_def sq_Save_def mem_engine_def demo_empty_def insert_row_def insert_columns_def
      insert_args_def demo_result_def result0_def schemaInit_def Let_def)

text \<open>A saved result reads back: it is in the list with a new id, at the head when no stored one is
  newer, and everything stored before is still there.\<close>

theorem save_then_list:
  assumes "sqlite_laws e tbl" and "store_ok tbl db" and "sq_Save e now r db = (Some r', db1)"
    and "\<And>x. x \<in> set (stored_results tbl db) \<Longrightarrow> CreatedAt x \<le> CreatedAt r'"
    and "sq_List e l 0 db1 = (Some rs, db2)"
  shows "hd rs = persisted (r\<lparr>CreatedAt := (if CreatedAt r = 0 then now else CreatedAt r), ID := ID r'\<rparr>) \<and>
    ID r' \<notin> ID ` set (stored_results tbl db) \<and>
    set (stored_results tbl db2) = insert (hd rs) (set (stored_results tbl db))"
proof -
  have s: "store_ok tbl db1" "stored_results tbl db1 = stored_results tbl db @ [persisted r']"
    "r' = r\<lparr>CreatedAt := (if CreatedAt r = 0 then now else CreatedAt r), ID := ID r'\<rparr>"
    "\<forall>x \<in> set (stored_results tbl db). ID x < ID r'"
    using sqlite_save [OF assms(1-3)] by auto
  have "hd rs = persisted r'"
    using result_store.list_has_saved [OF sqlite_refines [OF assms(1)], of db now r r' db1 l 0 rs db2] assms(2-5)
    by simp
  moreover have "stored_results tbl db2 = stored_results tbl db1"
    using sqlite_list [OF assms(1) s(1) assms(5)] by simp
  ultimately show ?thesis using s by fastforce
qed

lemma demo_list: "sq_List mem_engine 10 0 demo_saved = (Some [persisted (demo_result\<lparr>CreatedAt := 1700, ID := 8\<rparr>)], demo_saved)"
  by (simp add: demo_saved_def sq_Save_def sq_List_def mem_engine_def demo_empty_def insert_row_def insert_columns_def
      insert_args_def demo_result_def result0_def schemaInit_def Let_def select_columns_def newest_rows_def col_def
      scan_row_def persisted_def)

lemma demo_saved_ok: "store_ok id demo_saved" "stored_results id demo_saved = [persisted (demo_result\<lparr>CreatedAt := 1700, ID := 8\<rparr>)]"
  using sqlite_save [OF mem_engine_laws demo_empty_ok demo_save]
  by (simp_all add: stored_results_def demo_empty_def table_results_def)

theorem save_then_list_witness:
  "hd [persisted (demo_result\<lparr>CreatedAt := 1700, ID := 8\<rparr>)] = persisted (demo_result\<lparr>CreatedAt := 1700, ID := 8\<rparr>)"
  using save_then_list [OF mem_engine_laws demo_empty_ok demo_save _ demo_list]
  by (simp add: stored_results_def demo_empty_def table_results_def)

text \<open>Every listing is the requested page of the stored results, newest first and by id where the time
  is the same, no result twice.\<close>

theorem list_page:
  assumes "sqlite_laws e tbl" and "store_ok tbl db" and "sq_List e limit offset db = (Some rs, db')"
  shows "rs = take (nat limit) (drop (nat offset) (newest (stored_results tbl db))) \<and> sorted_wrt newer rs \<and>
    distinct (map ID rs) \<and> set rs \<subseteq> set (stored_results tbl db)"
  using sqlite_list [OF assms] result_store.list_sorted [OF sqlite_refines [OF assms(1)], of db limit offset rs db'] assms(2,3)
  by simp

theorem list_page_witness:
  "[persisted (demo_result\<lparr>CreatedAt := 1700, ID := 8\<rparr>)] = take (nat 10) (drop (nat 0) (newest (stored_results id demo_saved)))"
  by (rule list_page [OF mem_engine_laws demo_saved_ok(1) demo_list, THEN conjunct1])

text \<open>Pruning removes exactly the results from before the cutoff and reports how many; a cutoff that
  is not positive, or an error, removes nothing.\<close>

theorem prune_exact:
  assumes "sqlite_laws e tbl" and "store_ok tbl db" and "sq_PruneOlderThan e cutoff db = (x, db')"
  shows "store_ok tbl db' \<and> stored_results tbl db' =
      (if x = None \<or> cutoff \<le> 0 then stored_results tbl db
       else filter (\<lambda>z. cutoff \<le> CreatedAt z) (stored_results tbl db)) \<and>
    (case x of None \<Rightarrow> True
     | Some k \<Rightarrow> k = int (length (stored_results tbl db)) - int (length (stored_results tbl db')))"
  using sqlite_prune [OF assms] by (auto split: option.splits)

theorem prune_exact_witness:
  "stored_results id (snd (sq_PruneOlderThan mem_engine 1701 demo_saved)) = [] \<and>
   stored_results id (snd (sq_PruneOlderThan mem_engine 1700 demo_saved)) \<noteq> []"
proof -
  define c1 where "c1 = sq_PruneOlderThan mem_engine 1701 demo_saved"
  define c2 where "c2 = sq_PruneOlderThan mem_engine 1700 demo_saved"
  have "fst c1 \<noteq> None" and "fst c2 \<noteq> None"
    by (simp_all add: c1_def c2_def demo_saved_def sq_Save_def sq_PruneOlderThan_def mem_engine_def demo_empty_def insert_row_def
        insert_columns_def insert_args_def demo_result_def result0_def schemaInit_def Let_def removed_def)
  moreover have "sq_PruneOlderThan mem_engine 1701 demo_saved = (fst c1, snd c1)"
    "sq_PruneOlderThan mem_engine 1700 demo_saved = (fst c2, snd c2)" by (simp_all add: c1_def c2_def)
  note this [THEN prune_exact [OF mem_engine_laws demo_saved_ok(1)]]
  ultimately show ?thesis
    by (auto simp: demo_saved_ok(2) persisted_def c1_def [symmetric] c2_def [symmetric])
qed

text \<open>C33: \<open>Open\<close> brings a new database, one from before the geoip column and a current one to the same
  schema without losing a result; on a current one it changes nothing, so opening again is harmless.\<close>

theorem Open_migrates:
  assumes "sqlite_laws e tbl" and "Open e (Some db) = Some db'"
    and "case tbl db of None \<Rightarrow> True | Some t \<Rightarrow> old_schema t \<and> rows_ok t"
  shows "store_ok tbl db' \<and> stored_results tbl db' = stored_results tbl db \<and>
    (store_ok tbl db \<longrightarrow> tbl db' = tbl db)"
  by (rule Open_result [OF assms])

theorem Open_migrates_witness:
  "stored_results id (the (Open mem_engine (Some (Some \<lparr>columns = schema_before_geoip, rows = [], seq = 3\<rparr>)))) = []"
proof -
  let ?t = "\<lparr>columns = schema_before_geoip, rows = [], seq = 3\<rparr>"
  have "Open mem_engine (Some (Some ?t)) = Some (the (Open mem_engine (Some (Some ?t))))"
    by (simp add: Open_def mem_engine_def ensureColumn_def schema_before_geoip_def schemaInit_def)
  moreover have "old_schema ?t" and "rows_ok ?t"
    by (auto simp: old_schema_def rows_ok_def schema_before_geoip_def schemaInit_def insert_columns_def)
  ultimately show ?thesis
    using Open_migrates [OF mem_engine_laws, of "Some ?t" "the (Open mem_engine (Some (Some ?t)))"]
    by (simp add: stored_results_def table_results_def)
qed

end
