(* ===== verification/Csv.thy ===== *)
theory Csv
  imports Go_Prelude
begin

text \<open>
  CSV export: \<open>csvSafe\<close> of \<open>results_handler.go\<close>, the writer of \<open>encoding/csv\<close> it feeds, and a reader
  of the format (RFC 4180, what a spreadsheet does) to state what the export means.
\<close>

section \<open>csvSafe\<close>

definition formula_start :: "char \<Rightarrow> bool" where
  "formula_start c \<longleftrightarrow> c \<in> set ''=+-@'' \<or> byte_of c = 9 \<or> byte_of c = 13"

definition csvSafe :: "string \<Rightarrow> string" where
  "csvSafe s = (case s of [] \<Rightarrow> s | c # _ \<Rightarrow> if formula_start c then CHR 0x27 # s else s)"

text \<open>A cell a spreadsheet does not take for a formula.\<close>

definition safe_cell :: "string \<Rightarrow> bool" where
  "safe_cell s \<longleftrightarrow> (case s of [] \<Rightarrow> True | c # _ \<Rightarrow> \<not> formula_start c)"

lemma csvSafe_safe: "safe_cell (csvSafe s)"
  by (cases s) (auto simp: csvSafe_def safe_cell_def formula_start_def byte_of_def)

lemma csvSafe_id: "safe_cell s \<Longrightarrow> csvSafe s = s"
  by (cases s) (auto simp: csvSafe_def safe_cell_def)

section \<open>The writer of encoding/csv\<close>

abbreviation quote :: char where "quote \<equiv> CHR 0x22"
abbreviation LF :: char where "LF \<equiv> CHR 0x0A"

definition fieldNeedsQuotes :: "string \<Rightarrow> bool" where
  "fieldNeedsQuotes f =
     (if f = [] then False
      else if f = [CHR 0x5C, CHR ''.''] then True
      else if list_ex (\<lambda>c. c = LF \<or> c = CHR 0x0D \<or> c = quote \<or> c = CHR '','') f then True
      else lead_space f \<noteq> 0)"

fun double_quotes :: "string \<Rightarrow> string" where
  "double_quotes [] = []"
| "double_quotes (c # cs) = (if c = quote then quote # quote # double_quotes cs else c # double_quotes cs)"

definition csv_field :: "string \<Rightarrow> string" where
  "csv_field f = (if \<not> fieldNeedsQuotes f then f else quote # double_quotes f @ [quote])"

text \<open>\<open>(*Writer).Write\<close>: one record.\<close>

definition csv_Write :: "string list \<Rightarrow> string" where
  "csv_Write fs = join '','' (map csv_field fs) @ [LF]"

section \<open>A reader of the format\<close>

text \<open>Behind the opening quote: up to a quote that is not doubled.\<close>

fun read_quoted :: "string \<Rightarrow> (string \<times> string) option" where
  "read_quoted [] = None"
| "read_quoted (c # cs) =
     (if c = quote
      then (case cs of
              d # ds \<Rightarrow> if d = quote then map_option (\<lambda>(f, r). (quote # f, r)) (read_quoted ds) else Some ([], cs)
            | [] \<Rightarrow> Some ([], []))
      else map_option (\<lambda>(f, r). (c # f, r)) (read_quoted cs))"

definition stops :: "char \<Rightarrow> bool" where
  "stops c \<longleftrightarrow> c = CHR '','' \<or> c = LF"

definition read_field :: "string \<Rightarrow> (string \<times> string) option" where
  "read_field s = (case s of
       c # cs \<Rightarrow> if c = quote then read_quoted cs
                 else Some (takeWhile (\<lambda>c. \<not> stops c) s, dropWhile (\<lambda>c. \<not> stops c) s)
     | [] \<Rightarrow> Some ([], []))"

lemma read_quoted_shorter: "read_quoted s = Some (f, r) \<Longrightarrow> length r < length s"
proof (induction s arbitrary: f r rule: read_quoted.induct)
  case (2 c cs)
  then show ?case by (fastforce split: if_splits list.splits)
qed simp

lemma read_field_length: "read_field s = Some (f, r) \<Longrightarrow> length r \<le> length s"
  by (auto simp: read_field_def length_dropWhile_le le_SucI dest!: read_quoted_shorter split: list.splits if_splits)

text \<open>One record: fields up to the end of the line.\<close>

function read_record :: "string \<Rightarrow> (string list \<times> string) option" where
  "read_record s = (case read_field s of
       None \<Rightarrow> None
     | Some (f, r) \<Rightarrow>
         (case r of
            [] \<Rightarrow> None
          | c # cs \<Rightarrow>
              if c = LF then Some ([f], cs)
              else if c = CHR '','' then map_option (\<lambda>(fs, r). (f # fs, r)) (read_record cs)
              else None))"
  by pat_completeness auto
termination
  by (relation "measure length") (auto dest!: read_field_length)

declare read_record.simps [simp del]

fun read_records :: "nat \<Rightarrow> string \<Rightarrow> string list list option" where
  "read_records 0 s = (if s = [] then Some [] else None)"
| "read_records (Suc n) s = (if s = [] then Some []
     else (case read_record s of None \<Rightarrow> None
       | Some (fs, r) \<Rightarrow> map_option (\<lambda>rs. fs # rs) (read_records n r)))"

text \<open>A text of \<open>n\<close> characters has at most \<open>n\<close> records.\<close>

definition csv_read :: "string \<Rightarrow> string list list option" where
  "csv_read s = read_records (length s) s"

section \<open>What is written reads back\<close>

lemma read_quoted_back:
  assumes "\<And>c cs. rest = c # cs \<Longrightarrow> c \<noteq> quote"
  shows "read_quoted (double_quotes f @ quote # rest) = Some (f, rest)"
proof (induction f)
  case Nil
  then show ?case using assms by (cases rest) auto
next
  case (Cons c f)
  then show ?case by simp
qed

lemma plain_field:
  assumes "\<not> fieldNeedsQuotes f" and "c \<in> set f"
  shows "\<not> stops c \<and> c \<noteq> quote"
  using assms by (auto simp: fieldNeedsQuotes_def stops_def list_ex_iff split: if_splits)

lemma read_field_back:
  assumes "stops c"
  shows "read_field (csv_field f @ c # rest) = Some (f, c # rest)"
proof (cases "fieldNeedsQuotes f")
  case True
  have "c \<noteq> quote" using assms by (auto simp: stops_def)
  with True show ?thesis
    using read_quoted_back [of "c # rest" f] by (simp add: csv_field_def read_field_def)
next
  case False
  note p = plain_field [OF False]
  show ?thesis
  proof (cases f)
    case Nil
    with assms show ?thesis by (auto simp: csv_field_def fieldNeedsQuotes_def read_field_def stops_def)
  next
    case (Cons a as)
    then have "takeWhile (\<lambda>c. \<not> stops c) (f @ c # rest) = f" and "dropWhile (\<lambda>c. \<not> stops c) (f @ c # rest) = c # rest"
      using p assms by (auto simp: takeWhile_append dropWhile_append3 dropWhile_append)
    then show ?thesis using False Cons p by (simp add: csv_field_def read_field_def)
  qed
qed

lemma read_record_back:
  "fs \<noteq> [] \<Longrightarrow> read_record (csv_Write fs @ rest) = Some (fs, rest)"
proof (induction fs)
  case (Cons f fs)
  show ?case
  proof (cases fs)
    case Nil
    then show ?thesis
      using read_field_back [of LF f rest] by (subst read_record.simps) (simp add: csv_Write_def stops_def)
  next
    case (Cons g gs)
    have "csv_Write (f # fs) @ rest = csv_field f @ CHR '','' # (csv_Write fs @ rest)"
      by (simp add: csv_Write_def Cons)
    moreover have "read_record (csv_Write fs @ rest) = Some (fs, rest)"
      using Cons.IH Cons by simp
    ultimately show ?thesis
      using read_field_back [of "CHR '',''" f "csv_Write fs @ rest"]
      by (subst read_record.simps) (simp add: stops_def)
  qed
qed simp

lemma csv_Write_not_Nil [simp]: "csv_Write fs \<noteq> []"
  by (simp add: csv_Write_def)

lemma read_records_back:
  "(\<And>fs. fs \<in> set recs \<Longrightarrow> fs \<noteq> []) \<Longrightarrow> length (concat (map csv_Write recs)) \<le> n \<Longrightarrow>
     read_records n (concat (map csv_Write recs)) = Some recs"
proof (induction recs arbitrary: n)
  case Nil
  then show ?case by (cases n) simp_all
next
  case (Cons fs recs)
  have "0 < length (csv_Write fs)" by simp
  moreover have "length (csv_Write fs) + length (concat (map csv_Write recs)) \<le> n" using Cons.prems(2) by simp
  ultimately have m: "n \<noteq> 0" and "length (concat (map csv_Write recs)) \<le> n - 1"
    by linarith+
  from m obtain k where "n = Suc k" by (cases n) simp_all
  with Cons \<open>_ \<le> n - 1\<close> show ?case by (simp add: read_record_back)
qed

lemma csv_read_back: "(\<And>fs. fs \<in> set recs \<Longrightarrow> fs \<noteq> []) \<Longrightarrow> csv_read (concat (map csv_Write recs)) = Some recs"
  by (simp add: csv_read_def read_records_back)

end
