(* ===== verification/Geoip.thy ===== *)
theory Geoip
  imports Client_IP
begin

text \<open>
  \<open>internal/geoip/geoip.go\<close>: from an address to a "City, Country" text. The database itself is the
  maxminddb library, a parameter \<open>db_Lookup\<close> of \<open>Locate\<close>.
\<close>

section \<open>Records and names\<close>

definition preferredLanguages :: "string list" where
  "preferredLanguages = [''zh-CN'', ''en'']"

record mmdbRecord =
  Country_IsoCode :: string
  Country_Names :: "(string \<times> string) list"
  City_Names :: "(string \<times> string) list"

fun first_name :: "(string \<times> string) list \<Rightarrow> string list \<Rightarrow> string" where
  "first_name names [] = []"
| "first_name names (lang # langs) =
     (case map_of names lang of Some v \<Rightarrow> if v \<noteq> [] then v else first_name names langs
      | None \<Rightarrow> first_name names langs)"

definition pickName :: "(string \<times> string) list \<Rightarrow> string" where
  "pickName names = (if names = [] then [] else first_name names preferredLanguages)"

definition formatLocation :: "mmdbRecord \<Rightarrow> string" where
  "formatLocation rec =
     (let country = pickName (Country_Names rec) in
      if country = [] then []
      else (let city = pickName (City_Names rec) in
            if city = [] then country else city @ '', '' @ country))"

section \<open>Locate\<close>

text \<open>\<open>isPrivateOrLoopback\<close> of this package.\<close>

definition geo_isPrivateOrLoopback :: "ip \<Rightarrow> bool" where
  "geo_isPrivateOrLoopback p =
     (if IsLoopback p \<or> IsLinkLocalUnicast p \<or> IsLinkLocalMulticast p then True else IsPrivate p)"

text \<open>A reader without database (nil) finds nothing; \<open>None\<close> as the address is a nil \<open>net.IP\<close>.\<close>

type_synonym 'db reader = "'db option"

definition Locate :: "('db \<Rightarrow> ip \<Rightarrow> mmdbRecord option) \<Rightarrow> 'db reader \<Rightarrow> ip option \<Rightarrow> string" where
  "Locate db_Lookup r p =
     (case (r, p) of
        (Some db, Some a) \<Rightarrow>
          if geo_isPrivateOrLoopback a then []
          else (case db_Lookup db a of None \<Rightarrow> [] | Some rec \<Rightarrow> formatLocation rec)
      | _ \<Rightarrow> [])"

lemma first_name_Nil: "first_name names langs = [] \<longleftrightarrow>
    (\<forall>l \<in> set langs. \<forall>v. map_of names l = Some v \<longrightarrow> v = [])"
  by (induction langs) (auto split: option.split)

lemma pickName_Nil: "pickName names = [] \<longleftrightarrow>
    (\<forall>v. map_of names ''zh-CN'' = Some v \<longrightarrow> v = []) \<and> (\<forall>v. map_of names ''en'' = Some v \<longrightarrow> v = [])"
  by (auto simp: pickName_def first_name_Nil preferredLanguages_def simp del: first_name.simps)

section \<open>Properties\<close>

text \<open>The addresses the lookup declines contain those \<open>ClientIP\<close> trusts as proxies, and are more:
  exactly the link-local ones are declined without being trusted (the comment of the source calls the
  two sets the same).\<close>

theorem geo_private_vs_trusted:
  assumes "ParseIP s = Some p"
  shows "geo_isPrivateOrLoopback p \<longleftrightarrow> isPrivateOrLoopback s \<or> IsLinkLocalUnicast p \<or> IsLinkLocalMulticast p"
  using assms table_is_class [OF ParseIP_length [OF assms]]
  by (auto simp: geo_isPrivateOrLoopback_def isPrivateOrLoopback_def)

theorem geo_private_vs_trusted_witness:
  "geo_isPrivateOrLoopback (v4_prefix @ [169, 254, 0, 7]) \<and> \<not> isPrivateOrLoopback ''169.254.0.7''"
proof -
  have "ParseIP ''169.254.0.7'' = Some (v4_prefix @ [169, 254, 0, 7])" by code_simp
  from geo_private_vs_trusted [OF this] show ?thesis by code_simp
qed

text \<open>What a lookup returns: nothing for a nil reader, a nil or an internal address, a miss or a record
  without a country name; otherwise the country, after the city when there is one. The text is empty
  in no other case.\<close>

theorem Locate_cases:
  "Locate db_Lookup r p = [] \<longleftrightarrow>
     r = None \<or> p = None \<or>
     (\<exists>a. p = Some a \<and> (geo_isPrivateOrLoopback a \<or>
        (\<exists>db. r = Some db \<and> (case db_Lookup db a of None \<Rightarrow> True
           | Some rec \<Rightarrow> (\<forall>lang \<in> {''zh-CN'', ''en''}. \<forall>v. map_of (Country_Names rec) lang = Some v \<longrightarrow> v = [])))))"
  using pickName_Nil by (auto simp: Locate_def formatLocation_def Let_def split: option.splits)

theorem Locate_cases_witness:
  "Locate (\<lambda>_ _. Some \<lparr>Country_IsoCode = ''DE'', Country_Names = [(''en'', ''Germany'')], City_Names = []\<rparr>)
     (Some ()) (Some (v4_prefix @ [8, 8, 8, 8])) \<noteq> []"
proof -
  have "\<not> geo_isPrivateOrLoopback (v4_prefix @ [8, 8, 8, 8])" by code_simp
  then show ?thesis by (subst Locate_cases) simp
qed

end
