(* ===== verification/Geo_Holder.thy ===== *)
theory Geo_Holder
  imports Geoip "HOL-Library.Multiset"
begin

text \<open>
  The handler's geoip handle (\<open>LocateIP\<close>, \<open>SetGeoIP\<close>, \<open>CloseGeoIP\<close>, \<open>geoipEnabled\<close> of
  \<open>handler.go\<close>) behind its \<open>RWMutex\<close>. A \<open>Lookup\<close> is a handle, a number; which handles are open
  is part of the state, because using one after \<open>Close\<close> unmaps the pages it reads (the process
  dies) and forgetting one leaks the mapping. First the operations on the state the lock protects,
  then the protocol of readers and writers around them.
\<close>

section \<open>The operations under the lock\<close>

type_synonym handle = nat

record geo_state =
  geoip :: "handle option"
  geoipClosed :: bool
  opened :: "handle list"

definition geoip0 :: geo_state where
  "geoip0 = \<lparr>geoip = None, geoipClosed = False, opened = []\<rparr>"

text \<open>\<open>Lookup.Close\<close>: safe on a handle that is closed already.\<close>

definition Close :: "handle \<Rightarrow> geo_state \<Rightarrow> geo_state" where
  "Close h g = g\<lparr>opened := remove1 h (opened g)\<rparr>"

definition geoipEnabled :: "geo_state \<Rightarrow> bool" where
  "geoipEnabled g \<longleftrightarrow> geoip g \<noteq> None"

text \<open>\<open>locate h\<close> is \<open>Locate\<close> on the database behind the handle; on a closed handle the process dies
  (\<open>None\<close>).\<close>

definition LocateIP :: "(handle \<Rightarrow> ip option \<Rightarrow> string) \<Rightarrow> geo_state \<Rightarrow> ip option \<Rightarrow> string option" where
  "LocateIP locate g p =
     (case geoip g of None \<Rightarrow> Some []
      | Some h \<Rightarrow> if h \<in> set (opened g) then Some (locate h p) else None)"

definition SetGeoIP :: "handle option \<Rightarrow> geo_state \<Rightarrow> geo_state" where
  "SetGeoIP l g =
     (if geoipClosed g then (case l of None \<Rightarrow> g | Some h \<Rightarrow> Close h g)
      else
        (let old = geoip g; g = g\<lparr>geoip := l\<rparr>
         in case old of None \<Rightarrow> g | Some h \<Rightarrow> if old \<noteq> l then Close h g else g))"

definition CloseGeoIP :: "geo_state \<Rightarrow> geo_state" where
  "CloseGeoIP g =
     (let g = g\<lparr>geoipClosed := True\<rparr> in
      case geoip g of None \<Rightarrow> g | Some h \<Rightarrow> (Close h g)\<lparr>geoip := None\<rparr>)"

section \<open>Readers and writers\<close>

text \<open>
  A thread is a call of \<open>LocateIP\<close>, \<open>SetGeoIP\<close> or \<open>CloseGeoIP\<close>. \<open>Locate\<close> on the database is not
  atomic: between its start and its end (\<open>L_read\<close>) any step of another thread may come. The body of a
  writer runs while it holds the write lock. \<open>rlocks\<close> and \<open>wlocked\<close> are the state of the \<open>RWMutex\<close>.
\<close>

datatype gop = Set "handle option" | Shut

datatype gpc = L_wait | L_held | L_read handle | L_done | W_wait gop | W_held gop | W_done | Gone

record geo_system =
  geo :: geo_state
  rlocks :: nat
  wlocked :: bool
  calls :: "gpc list"
  fresh :: handle

definition geo_do :: "gop \<Rightarrow> geo_state \<Rightarrow> geo_state" where
  "geo_do op g = (case op of Set l \<Rightarrow> SetGeoIP l g | Shut \<Rightarrow> CloseGeoIP g)"

definition set_call :: "nat \<Rightarrow> gpc \<Rightarrow> geo_system \<Rightarrow> geo_system" where
  "set_call i p s = s\<lparr>calls := (calls s)[i := p]\<rparr>"

definition at :: "geo_system \<Rightarrow> nat \<Rightarrow> gpc \<Rightarrow> bool" where
  "at s i p \<longleftrightarrow> i < length (calls s) \<and> calls s ! i = p"

inductive geo_step :: "geo_system \<Rightarrow> geo_system \<Rightarrow> bool" where
  call_locate: "geo_step s (s\<lparr>calls := calls s @ [L_wait]\<rparr>)"
| call_close: "geo_step s (s\<lparr>calls := calls s @ [W_wait Shut]\<rparr>)"
| call_clear: "geo_step s (s\<lparr>calls := calls s @ [W_wait (Set None)]\<rparr>)"
| call_swap: "geo_step s (s\<lparr>calls := calls s @ [W_wait (Set (Some (fresh s)))], fresh := fresh s + 1,
    geo := (geo s)\<lparr>opened := fresh s # opened (geo s)\<rparr>\<rparr>)"
| RLock: "at s i L_wait \<Longrightarrow> \<not> wlocked s \<Longrightarrow> geo_step s ((set_call i L_held s)\<lparr>rlocks := rlocks s + 1\<rparr>)"
| no_lookup: "at s i L_held \<Longrightarrow> geoip (geo s) = None \<Longrightarrow> geo_step s (set_call i L_done s)"
| begin_read: "at s i L_held \<Longrightarrow> geoip (geo s) = Some h \<Longrightarrow> geo_step s (set_call i (L_read h) s)"
| end_read: "at s i (L_read h) \<Longrightarrow> geo_step s (set_call i L_done s)"
| RUnlock: "at s i L_done \<Longrightarrow> geo_step s ((set_call i Gone s)\<lparr>rlocks := rlocks s - 1\<rparr>)"
| Lock: "at s i (W_wait op) \<Longrightarrow> \<not> wlocked s \<Longrightarrow> rlocks s = 0 \<Longrightarrow>
    geo_step s ((set_call i (W_held op) s)\<lparr>wlocked := True\<rparr>)"
| body: "at s i (W_held op) \<Longrightarrow> geo_step s ((set_call i W_done s)\<lparr>geo := geo_do op (geo s)\<rparr>)"
| Unlock: "at s i W_done \<Longrightarrow> geo_step s ((set_call i Gone s)\<lparr>wlocked := False\<rparr>)"

inductive_cases geo_stepE: "geo_step s t"

definition geo_init :: "geo_system \<Rightarrow> bool" where
  "geo_init s \<longleftrightarrow> (\<exists>n. s = \<lparr>geo = geoip0, rlocks = 0, wlocked = False, calls = [], fresh = n\<rparr>)"

section \<open>The invariant\<close>

definition reading :: "gpc \<Rightarrow> bool" where
  "reading p \<longleftrightarrow> p = L_held \<or> p = L_done \<or> (\<exists>h. p = L_read h)"

definition writing :: "gpc \<Rightarrow> bool" where
  "writing p \<longleftrightarrow> p = W_done \<or> (\<exists>op. p = W_held op)"

text \<open>The handle a call is about to install: it owns it.\<close>

fun pending :: "gpc \<Rightarrow> handle list" where
  "pending (W_wait (Set (Some h))) = [h]"
| "pending (W_held (Set (Some h))) = [h]"
| "pending _ = []"

definition all_pending :: "gpc list \<Rightarrow> handle multiset" where
  "all_pending ps = (\<Sum>p\<in>#mset ps. mset (pending p))"

definition current :: "geo_state \<Rightarrow> handle multiset" where
  "current g = (case geoip g of None \<Rightarrow> {#} | Some h \<Rightarrow> {#h#})"

definition geo_inv :: "geo_system \<Rightarrow> bool" where
  "geo_inv s \<longleftrightarrow>
     rlocks s = cnt reading (calls s) \<and>
     cnt writing (calls s) = (if wlocked s then 1 else 0) \<and>
     (wlocked s \<longrightarrow> rlocks s = 0) \<and>
     mset (opened (geo s)) = current (geo s) + all_pending (calls s) \<and>
     distinct (opened (geo s)) \<and> (\<forall>h \<in> set (opened (geo s)). h < fresh s) \<and>
     (geoipClosed (geo s) \<longrightarrow> geoip (geo s) = None) \<and>
     (\<forall>i h. at s i (L_read h) \<longrightarrow> geoip (geo s) = Some h)"

lemma current_opened [simp]: "current (g\<lparr>opened := hs\<rparr>) = current g"
  by (simp add: current_def)

lemma all_pending_simps [simp]:
  "all_pending [] = {#}" "all_pending (ps @ [p]) = all_pending ps + mset (pending p)"
  by (simp_all add: all_pending_def)

lemma all_pending_update:
  assumes "i < length ps"
  shows "all_pending (ps[i := p]) + mset (pending (ps ! i)) = all_pending ps + mset (pending p)"
proof -
  have "mset ps = mset (take i ps @ ps ! i # drop (Suc i) ps)"
    using id_take_nth_drop [OF assms] by simp
  then show ?thesis
    using assms by (simp add: all_pending_def upd_conv_take_nth_drop ac_simps)
qed

lemma all_pending_same:
  "at s i q \<Longrightarrow> pending p = pending q \<Longrightarrow> all_pending ((calls s)[i := p]) = all_pending (calls s)"
  using all_pending_update [of i "calls s" p] by (auto simp: at_def)

lemma cnt_call:
  "at s i q \<Longrightarrow> cnt P ((calls s)[i := p]) = cnt P (calls s) + (if P p then 1 else 0) - (if P q then 1 else 0)"
  by (auto simp: at_def cnt_nat)

lemma cnt_call_pos: "at s i q \<Longrightarrow> P q \<Longrightarrow> 0 < cnt P (calls s)"
  by (auto simp: at_def intro: cnt_pos)

lemma at_set_call: "at (set_call i p s) j q \<longleftrightarrow> (if j = i \<and> i < length (calls s) then p = q else at s j q)"
  by (auto simp: at_def set_call_def)

lemma at_update [simp]:
  "at (s\<lparr>rlocks := n\<rparr>) = at s" "at (s\<lparr>wlocked := b\<rparr>) = at s" "at (s\<lparr>geo := g\<rparr>) = at s" "at (s\<lparr>fresh := n\<rparr>) = at s"
  by (auto simp: at_def fun_eq_iff)

lemma at_append: "at (s\<lparr>calls := calls s @ [p]\<rparr>) i q \<longleftrightarrow> at s i q \<or> (i = length (calls s) \<and> p = q)"
  by (auto simp: at_def nth_append)

lemma set_call_simps [simp]:
  "geo (set_call i p s) = geo s" "rlocks (set_call i p s) = rlocks s" "wlocked (set_call i p s) = wlocked s"
  "calls (set_call i p s) = (calls s)[i := p]" "fresh (set_call i p s) = fresh s"
  by (simp_all add: set_call_def)

lemmas call_classes = reading_def writing_def

text \<open>The body of a writer hands its handle over: what was open was the current handle, the one it
  brings and the ones of others; afterwards it is the current handle and the ones of others.\<close>

lemma geo_do_owns:
  assumes "mset (opened g) = current g + mset (pending (W_held op)) + R" and "distinct (opened g)"
    and "geoipClosed g \<longrightarrow> geoip g = None"
  shows "mset (opened (geo_do op g)) = current (geo_do op g) + R \<and> distinct (opened (geo_do op g)) \<and>
    set (opened (geo_do op g)) \<subseteq> set (opened g) \<and> (geoipClosed (geo_do op g) \<longrightarrow> geoip (geo_do op g) = None)"
proof -
  have rm: "set (remove1 h (opened g)) \<subseteq> set (opened g)" for h by (rule set_remove1_subset)
  show ?thesis
  proof (cases op)
    case (Set l)
    show ?thesis
    proof (cases l)
      case None
      with Set assms rm show ?thesis
        by (auto simp: geo_do_def SetGeoIP_def Close_def current_def Let_def split: option.splits)
    next
      case (Some h)
      have "h \<notin> set (opened (Close h g))" using assms(2) by (simp add: Close_def)
      moreover have "Some h \<noteq> geoip g"
      proof
        assume "Some h = geoip g"
        then have "count (mset (opened g)) h \<ge> 2" using assms(1) Set Some by (simp add: current_def split: option.splits)
        moreover have "count (mset (opened g)) h \<le> 1" using assms(2) distinct_count_atmost_1 [of "opened g"] by auto
        ultimately show False by simp
      qed
      ultimately show ?thesis
        using Set Some assms rm
        by (auto simp: geo_do_def SetGeoIP_def Close_def current_def Let_def split: option.splits)
    qed
  next
    case Shut
    with assms rm show ?thesis
      by (auto simp: geo_do_def CloseGeoIP_def Close_def current_def Let_def split: option.splits)
  qed
qed

lemma geo_inv_init: "geo_init s \<Longrightarrow> geo_inv s"
  by (auto simp: geo_init_def geo_inv_def geoip0_def current_def at_def cnt_def)

lemma no_reader: "cnt reading (calls s) = 0 \<Longrightarrow> \<not> at s i (L_read h)"
  using cnt_call_pos [of s i "L_read h" reading] by (auto simp: reading_def)

lemma geo_inv_step: "geo_step s t \<Longrightarrow> geo_inv s \<Longrightarrow> geo_inv t"
proof (induction rule: geo_step.induct)
  case (RUnlock s i)
  then show ?case
    using cnt_call_pos [OF RUnlock.hyps, of reading]
    by (auto simp: geo_inv_def cnt_call [OF RUnlock.hyps] all_pending_same [OF RUnlock.hyps] at_set_call call_classes)
next
  case (Unlock s i)
  then show ?case
    using cnt_call_pos [OF Unlock.hyps, of writing]
    by (auto simp: geo_inv_def cnt_call [OF Unlock.hyps] all_pending_same [OF Unlock.hyps] at_set_call call_classes
        split: if_splits)
next
  case (body s i op)
  have held: "wlocked s" and r0: "rlocks s = 0"
    using cnt_call_pos [OF body.hyps, of writing] body.prems by (auto simp: geo_inv_def writing_def split: if_splits)
  have "mset (opened (geo s)) =
      current (geo s) + mset (pending (W_held op)) + all_pending ((calls s)[i := W_done])"
    using body all_pending_update [of i "calls s" W_done] by (auto simp: geo_inv_def at_def ac_simps)
  from geo_do_owns [OF this] body.prems
  have g: "mset (opened (geo_do op (geo s))) = current (geo_do op (geo s)) + all_pending ((calls s)[i := W_done])"
    "distinct (opened (geo_do op (geo s)))" "set (opened (geo_do op (geo s))) \<subseteq> set (opened (geo s))"
    "geoipClosed (geo_do op (geo s)) \<longrightarrow> geoip (geo_do op (geo s)) = None"
    by (auto simp: geo_inv_def)
  have "\<not> at s j (L_read h)" for j h using body.prems r0 no_reader by (simp add: geo_inv_def)
  with g body.prems held show ?case
    by (auto simp: geo_inv_def cnt_call [OF body.hyps] at_set_call call_classes)
next
  case (Lock s i op)
  have "pending (W_held op) = pending (W_wait op)"
    by (cases "W_wait op" rule: pending.cases) auto
  then have "all_pending ((calls s)[i := W_held op]) = all_pending (calls s)"
    by (rule all_pending_same [OF Lock.hyps(1)])
  with Lock show ?case
    by (auto simp: geo_inv_def cnt_call [OF Lock.hyps(1)] at_set_call call_classes)
next
  case (end_read s i h)
  have "geoip (geo s) = Some k" if "at (set_call i L_done s) j (L_read k)" for j k
  proof -
    have "at s j (L_read k)" using that by (auto simp: at_set_call split: if_splits)
    then show ?thesis using end_read.prems unfolding geo_inv_def by blast
  qed
  with end_read.prems show ?case
    by (auto simp: geo_inv_def cnt_call [OF end_read.hyps] all_pending_same [OF end_read.hyps] call_classes)
qed (auto simp: geo_inv_def cnt_call all_pending_same at_set_call at_append call_classes split: if_splits)

interpretation geo: machine geo_init geo_step geo_inv
  by unfold_locales (auto intro: geo_inv_init geo_inv_step)

lemma all_pending_Gone: "(\<And>p. p \<in> set ps \<Longrightarrow> p = Gone) \<Longrightarrow> all_pending ps = {#}"
  unfolding all_pending_def by (induction ps) fastforce+

section \<open>Properties\<close>

text \<open>A run: a handle is installed, a lookup starts reading, a second handle and the shutdown queue up
  behind it.\<close>

definition geo_start :: geo_system where
  "geo_start = \<lparr>geo = geoip0, rlocks = 0, wlocked = False, calls = [], fresh = 0\<rparr>"

definition geo_reading :: geo_system where
  "geo_reading = \<lparr>geo = \<lparr>geoip = Some 0, geoipClosed = False, opened = [1, 0]\<rparr>, rlocks = 1, wlocked = False,
     calls = [Gone, L_read 0, W_wait (Set (Some 1))], fresh = 2\<rparr>"

lemmas geo_eval = geo_start_def geo_reading_def geoip0_def at_def set_call_def geo_do_def SetGeoIP_def
  CloseGeoIP_def Close_def Let_def

lemma geo_start_init: "geo_init geo_start"
  by (auto simp: geo_init_def geo_start_def)

lemma geo_reading_reached: "geo_step\<^sup>*\<^sup>* geo_start geo_reading"
proof -
  define mk where "mk g r w cs n = \<lparr>geo = \<lparr>geoip = fst g, geoipClosed = False, opened = snd g\<rparr>, rlocks = r,
    wlocked = w, calls = cs, fresh = n\<rparr>" for g r w cs n
  note e = mk_def geo_eval numeral_2_eq_2
  have "geo_step geo_start (mk (None, [0]) 0 False [W_wait (Set (Some 0))] 1)"
    using geo_step.call_swap [of geo_start] by (simp add: e)
  moreover have "geo_step (mk (None, [0]) 0 False [W_wait (Set (Some 0))] 1)
      (mk (None, [0]) 0 True [W_held (Set (Some 0))] 1)"
    using geo_step.Lock [of "mk (None, [0]) 0 False [W_wait (Set (Some 0))] 1" 0] by (simp add: e)
  moreover have "geo_step (mk (None, [0]) 0 True [W_held (Set (Some 0))] 1) (mk (Some 0, [0]) 0 True [W_done] 1)"
    using geo_step.body [of "mk (None, [0]) 0 True [W_held (Set (Some 0))] 1" 0] by (simp add: e)
  moreover have "geo_step (mk (Some 0, [0]) 0 True [W_done] 1) (mk (Some 0, [0]) 0 False [Gone] 1)"
    using geo_step.Unlock [of "mk (Some 0, [0]) 0 True [W_done] 1" 0] by (simp add: e)
  moreover have "geo_step (mk (Some 0, [0]) 0 False [Gone] 1) (mk (Some 0, [0]) 0 False [Gone, L_wait] 1)"
    using geo_step.call_locate [of "mk (Some 0, [0]) 0 False [Gone] 1"] by (simp add: e)
  moreover have "geo_step (mk (Some 0, [0]) 0 False [Gone, L_wait] 1) (mk (Some 0, [0]) 1 False [Gone, L_held] 1)"
    using geo_step.RLock [of "mk (Some 0, [0]) 0 False [Gone, L_wait] 1" 1] by (simp add: e)
  moreover have "geo_step (mk (Some 0, [0]) 1 False [Gone, L_held] 1) (mk (Some 0, [0]) 1 False [Gone, L_read 0] 1)"
    using geo_step.begin_read [of "mk (Some 0, [0]) 1 False [Gone, L_held] 1" 1 0] by (simp add: e)
  moreover have "geo_step (mk (Some 0, [0]) 1 False [Gone, L_read 0] 1) geo_reading"
    using geo_step.call_swap [of "mk (Some 0, [0]) 1 False [Gone, L_read 0] 1"] by (simp add: e)
  ultimately show ?thesis by (meson rtranclp.rtrancl_refl rtranclp.rtrancl_into_rtrancl)
qed

text \<open>C19: no use after close: in every interleaving of lookups, swaps and shutdown, a lookup that is reading
  the database reads the current handle, and that handle is open.\<close>

theorem no_use_after_close:
  assumes "geo_init s" and "geo_step\<^sup>*\<^sup>* s t" and "at t i (L_read h)"
  shows "geoip (geo t) = Some h \<and> h \<in> set (opened (geo t)) \<and> \<not> wlocked t"
proof -
  have inv: "geo_inv t" by (rule geo.reach_inv [OF assms(1,2)])
  then have cur: "geoip (geo t) = Some h" using assms(3) by (auto simp: geo_inv_def)
  then have "h \<in># mset (opened (geo t))" using inv by (simp add: geo_inv_def current_def)
  moreover have "\<not> wlocked t"
    using inv cnt_call_pos [OF assms(3), of reading] by (auto simp: geo_inv_def reading_def)
  ultimately show ?thesis using cur by simp
qed

theorem no_use_after_close_witness:
  "geoip (geo geo_reading) = Some 0 \<and> 0 \<in> set (opened (geo geo_reading)) \<and> \<not> wlocked geo_reading"
  by (rule no_use_after_close [OF geo_start_init geo_reading_reached, of 1]) (simp add: geo_eval)

text \<open>No leak: when all calls have returned, the only handle still open is the current one; after a
  shutdown there is none, whatever order the shutdown and the swaps of the updater came in.\<close>

theorem no_handle_leak:
  assumes "geo_init s" and "geo_step\<^sup>*\<^sup>* s t" and "set (calls t) \<subseteq> {Gone}"
  shows "opened (geo t) = (case geoip (geo t) of None \<Rightarrow> [] | Some h \<Rightarrow> [h]) \<and>
    (geoipClosed (geo t) \<longrightarrow> opened (geo t) = [])"
proof -
  have inv: "geo_inv t" by (rule geo.reach_inv [OF assms(1,2)])
  have "all_pending (calls t) = {#}" using assms(3) by (intro all_pending_Gone) auto
  with inv show ?thesis
    by (auto simp: geo_inv_def current_def split: option.splits)
qed

definition geo_stopped :: geo_system where
  "geo_stopped = \<lparr>geo = \<lparr>geoip = None, geoipClosed = True, opened = []\<rparr>, rlocks = 0, wlocked = False,
     calls = [Gone, Gone], fresh = 1\<rparr>"

text \<open>The swap of the updater comes after the shutdown here.\<close>

lemma geo_stopped_reached: "geo_step\<^sup>*\<^sup>* geo_start geo_stopped"
proof -
  define mk where "mk c os w cs n = \<lparr>geo = \<lparr>geoip = None, geoipClosed = c, opened = os\<rparr>, rlocks = 0,
    wlocked = w, calls = cs, fresh = n\<rparr>" for c os w cs n
  note e = mk_def geo_eval geo_stopped_def
  have "geo_step geo_start (mk False [] False [W_wait Shut] 0)"
    using geo_step.call_close [of geo_start] by (simp add: e)
  moreover have "geo_step (mk False [] False [W_wait Shut] 0) (mk False [] True [W_held Shut] 0)"
    using geo_step.Lock [of "mk False [] False [W_wait Shut] 0" 0] by (simp add: e)
  moreover have "geo_step (mk False [] True [W_held Shut] 0) (mk True [] True [W_done] 0)"
    using geo_step.body [of "mk False [] True [W_held Shut] 0" 0] by (simp add: e)
  moreover have "geo_step (mk True [] True [W_done] 0) (mk True [] False [Gone] 0)"
    using geo_step.Unlock [of "mk True [] True [W_done] 0" 0] by (simp add: e)
  moreover have "geo_step (mk True [] False [Gone] 0) (mk True [0] False [Gone, W_wait (Set (Some 0))] 1)"
    using geo_step.call_swap [of "mk True [] False [Gone] 0"] by (simp add: e)
  moreover have "geo_step (mk True [0] False [Gone, W_wait (Set (Some 0))] 1)
      (mk True [0] True [Gone, W_held (Set (Some 0))] 1)"
    using geo_step.Lock [of "mk True [0] False [Gone, W_wait (Set (Some 0))] 1" 1] by (simp add: e)
  moreover have "geo_step (mk True [0] True [Gone, W_held (Set (Some 0))] 1) (mk True [] True [Gone, W_done] 1)"
    using geo_step.body [of "mk True [0] True [Gone, W_held (Set (Some 0))] 1" 1] by (simp add: e)
  moreover have "geo_step (mk True [] True [Gone, W_done] 1) geo_stopped"
    using geo_step.Unlock [of "mk True [] True [Gone, W_done] 1" 1] by (simp add: e)
  ultimately show ?thesis by (meson rtranclp.rtrancl_refl rtranclp.rtrancl_into_rtrancl)
qed

theorem no_handle_leak_witness:
  "opened (geo geo_stopped) = []"
  using no_handle_leak [OF geo_start_init geo_stopped_reached] by (simp add: geo_stopped_def)

end
