(* ===== verification/Go_IO.thy ===== *)
theory Go_IO
  imports Http
begin

text \<open>
  Request bodies as readers. \<open>io.Reader\<close> is an interface, so it is a locale here: a state, a \<open>Read\<close>
  operation with a buffer size, and the laws the callers rely on. Three readers implement it, stacked
  as in the program: the body of the connection, the \<open>countingReader\<close> of \<open>main.go\<close> around it, and
  \<open>http.MaxBytesReader\<close> around that. \<open>io.Copy(io.Discard, body)\<close> is the loop over \<open>Read\<close>.
\<close>

section \<open>The interface\<close>

type_synonym 's read_op = "nat \<Rightarrow> 's \<Rightarrow> string \<times> read_end option \<times> 's"

text \<open>
  \<open>rest\<close> is what is still to come, \<open>fin\<close> how it ends, \<open>steps\<close> a bound on the reads left. A read of a
  nonempty buffer either delivers a prefix and goes on, or delivers the whole rest with the end.
\<close>

locale io_reader =
  fixes read :: "'s read_op"
    and rest :: "'s \<Rightarrow> string"
    and fin :: "'s \<Rightarrow> read_end"
    and steps :: "'s \<Rightarrow> nat"
    and ok :: "'s \<Rightarrow> bool"
  assumes read_size: "ok s \<Longrightarrow> 0 < n \<Longrightarrow> read n s = (d, x, s') \<Longrightarrow> length d \<le> n"
    and read_more: "ok s \<Longrightarrow> 0 < n \<Longrightarrow> read n s = (d, None, s') \<Longrightarrow>
      ok s' \<and> rest s = d @ rest s' \<and> fin s' = fin s \<and> steps s' < steps s"
    and read_last: "ok s \<Longrightarrow> 0 < n \<Longrightarrow> read n s = (d, Some e, s') \<Longrightarrow> rest s = d \<and> e = fin s"

section \<open>io.Copy into io.Discard\<close>

text \<open>\<open>(*discard).ReadFrom\<close>: read 8 KB at a time and count, until an error; \<open>EOF\<close> is success.\<close>

partial_function (option) Copy_discard :: "'s read_op \<Rightarrow> int \<Rightarrow> 's \<Rightarrow> (int \<times> read_end option \<times> 's) option" where
  "Copy_discard read n s =
     (case read 8192 s of (d, e, s') \<Rightarrow>
        (case e of None \<Rightarrow> Copy_discard read (n + int (length d)) s'
         | Some x \<Rightarrow> Some (n + int (length d), if x = EOF then None else Some x, s')))"

context io_reader begin

lemma Copy_total:
  assumes "ok s"
  shows "\<exists>s'. Copy_discard read n s =
    Some (n + int (length (rest s)), if fin s = EOF then None else Some (fin s), s')"
  using assms
proof (induction "steps s" arbitrary: s n rule: less_induct)
  case less
  obtain d e s' where r: "read 8192 s = (d, e, s')" by (cases "read 8192 s")
  show ?case
  proof (cases e)
    case None
    then have "ok s' \<and> rest s = d @ rest s' \<and> fin s' = fin s \<and> steps s' < steps s"
      using read_more [OF less.prems _ r [unfolded None]] by simp
    with less.hyps [of s' "n + int (length d)"] r None show ?thesis
      by (subst Copy_discard.simps) (auto simp: add.assoc)
  next
    case (Some x)
    then have "rest s = d \<and> x = fin s" using read_last [OF less.prems _ r [unfolded Some]] by simp
    with r Some show ?thesis by (subst Copy_discard.simps) simp
  qed
qed

end

section \<open>The body of the connection\<close>

text \<open>The chunks arrive one by one; a chunk longer than the buffer is delivered in parts.\<close>

type_synonym body_state = "string list \<times> read_end"

fun body_Read :: "body_state read_op" where
  "body_Read n ([], e) = ([], Some e, ([], e))"
| "body_Read n (c # cs, e) =
     (if length c \<le> n then (c, None, (cs, e)) else (take n c, None, (drop n c # cs, e)))"

definition body_rest :: "body_state \<Rightarrow> string" where
  "body_rest s = concat (fst s)"

definition body_fin :: "body_state \<Rightarrow> read_end" where
  "body_fin s = snd s"

definition body_steps :: "body_state \<Rightarrow> nat" where
  "body_steps s = Suc (length (fst s) + length (concat (fst s)))"

interpretation body: io_reader body_Read body_rest body_fin body_steps "\<lambda>_. True"
proof unfold_locales
  fix n d e s and s' :: body_state
  assume "0 < n" and r: "body_Read n s = (d, e, s')"
  then show "length d \<le> n" by (cases "(n, s)" rule: body_Read.cases) (auto split: if_splits)
next
  fix n d s and s' :: body_state
  assume "0 < n" and r: "body_Read n s = (d, None, s')"
  then show "True \<and> body_rest s = d @ body_rest s' \<and> body_fin s' = body_fin s \<and> body_steps s' < body_steps s"
    by (cases "(n, s)" rule: body_Read.cases)
       (auto simp: body_rest_def body_fin_def body_steps_def split: if_splits)
next
  fix n d e s and s' :: body_state
  assume "body_Read n s = (d, Some e, s')"
  then show "body_rest s = d \<and> e = body_fin s"
    by (cases "(n, s)" rule: body_Read.cases) (auto simp: body_rest_def body_fin_def split: if_splits)
qed

section \<open>countingReader (main.go)\<close>

text \<open>\<open>rc\<close> may be nil; a nil reader is at its end.\<close>

record 's countingReader =
  rc :: "'s option"
  bytesRecv :: int

definition counting_Read :: "'s read_op \<Rightarrow> 's countingReader read_op" where
  "counting_Read read n c = (case rc c of None \<Rightarrow> ([], Some EOF, c)
     | Some s \<Rightarrow> (case read n s of (d, e, s') \<Rightarrow>
         (d, e, c\<lparr>rc := Some s', bytesRecv := bytesRecv c + int (length d)\<rparr>)))"

definition counting_rest :: "('s \<Rightarrow> string) \<Rightarrow> 's countingReader \<Rightarrow> string" where
  "counting_rest rest c = (case rc c of None \<Rightarrow> [] | Some s \<Rightarrow> rest s)"

definition counting_fin :: "('s \<Rightarrow> read_end) \<Rightarrow> 's countingReader \<Rightarrow> read_end" where
  "counting_fin fin c = (case rc c of None \<Rightarrow> EOF | Some s \<Rightarrow> fin s)"

definition counting_steps :: "('s \<Rightarrow> nat) \<Rightarrow> 's countingReader \<Rightarrow> nat" where
  "counting_steps steps c = (case rc c of None \<Rightarrow> 0 | Some s \<Rightarrow> steps s)"

definition counting_ok :: "('s \<Rightarrow> bool) \<Rightarrow> 's countingReader \<Rightarrow> bool" where
  "counting_ok ok c = (case rc c of None \<Rightarrow> True | Some s \<Rightarrow> ok s)"

lemmas counting_defs = counting_Read_def counting_rest_def counting_fin_def counting_steps_def counting_ok_def

context io_reader begin

lemma counting_reader:
  "io_reader (counting_Read read) (counting_rest rest) (counting_fin fin) (counting_steps steps) (counting_ok ok)"
proof unfold_locales
  fix n d x c c'
  assume "counting_ok ok c" and "0 < n" and "counting_Read read n c = (d, x, c')"
  then show "length d \<le> n"
    by (auto simp: counting_defs intro: read_size split: option.splits prod.splits)
next
  fix n d c c'
  assume o: "counting_ok ok c" and n: "0 < n" and r: "counting_Read read n c = (d, None, c')"
  then obtain s s' where "rc c = Some s" and "ok s" and "rc c' = Some s'" and "read n s = (d, None, s')"
    by (auto simp: counting_defs split: option.splits prod.splits)
  with read_more [of s n d s'] n
  show "counting_ok ok c' \<and> counting_rest rest c = d @ counting_rest rest c' \<and>
        counting_fin fin c' = counting_fin fin c \<and> counting_steps steps c' < counting_steps steps c"
    by (simp add: counting_defs)
next
  fix n d e c c'
  assume o: "counting_ok ok c" and n: "0 < n" and r: "counting_Read read n c = (d, Some e, c')"
  show "counting_rest rest c = d \<and> e = counting_fin fin c"
  proof (cases "rc c")
    case None
    with r show ?thesis by (simp add: counting_defs)
  next
    case (Some s)
    with o r obtain s' where "ok s" and "read n s = (d, Some e, s')"
      by (auto simp: counting_defs split: prod.splits)
    with read_last [of s n d e s'] n Some show ?thesis by (simp add: counting_defs)
  qed
qed

end

interpretation counted: io_reader "counting_Read body_Read" "counting_rest body_rest" "counting_fin body_fin"
    "counting_steps body_steps" "counting_ok (\<lambda>_. True)"
  by (rule body.counting_reader)

section \<open>http.MaxBytesReader\<close>

text \<open>\<open>mb_n\<close> is the number of bytes still allowed, \<open>mb_err\<close> the sticky error.\<close>

record 's maxBytesReader =
  mb_r :: 's
  mb_n :: nat
  mb_err :: "read_end option"

definition max_Read :: "'s read_op \<Rightarrow> 's maxBytesReader read_op" where
  "max_Read read len l =
     (case mb_err l of Some e \<Rightarrow> ([], Some e, l)
      | None \<Rightarrow>
         if len = 0 then ([], None, l)
         else
           (let len' = (if len - 1 > mb_n l then mb_n l + 1 else len) in
            case read len' (mb_r l) of (d, e, r') \<Rightarrow>
              if length d \<le> mb_n l then (d, e, l\<lparr>mb_r := r', mb_n := mb_n l - length d, mb_err := e\<rparr>)
              else (take (mb_n l) d, Some MaxBytesError,
                    l\<lparr>mb_r := r', mb_n := 0, mb_err := Some MaxBytesError\<rparr>)))"

definition max_rest :: "('s \<Rightarrow> string) \<Rightarrow> 's maxBytesReader \<Rightarrow> string" where
  "max_rest rest l = (if mb_err l = None then take (mb_n l) (rest (mb_r l)) else [])"

definition max_fin :: "('s \<Rightarrow> string) \<Rightarrow> ('s \<Rightarrow> read_end) \<Rightarrow> 's maxBytesReader \<Rightarrow> read_end" where
  "max_fin rest fin l = (case mb_err l of Some e \<Rightarrow> e
     | None \<Rightarrow> if length (rest (mb_r l)) \<le> mb_n l then fin (mb_r l) else MaxBytesError)"

definition max_steps :: "('s \<Rightarrow> nat) \<Rightarrow> 's maxBytesReader \<Rightarrow> nat" where
  "max_steps steps l = steps (mb_r l)"

definition max_ok :: "('s \<Rightarrow> bool) \<Rightarrow> 's maxBytesReader \<Rightarrow> bool" where
  "max_ok ok l \<longleftrightarrow> mb_err l = None \<longrightarrow> ok (mb_r l)"

lemmas max_defs = max_Read_def max_rest_def max_fin_def max_steps_def max_ok_def

context io_reader begin

lemma max_reader: "io_reader (max_Read read) (max_rest rest) (max_fin rest fin) (max_steps steps) (max_ok ok)"
proof unfold_locales
  fix n d e l l'
  assume ok': "max_ok ok l" and n: "0 < n" and r: "max_Read read n l = (d, e, l')"
  show "length d \<le> n"
    using ok' n r
    by (auto simp: max_Read_def max_ok_def Let_def split: option.splits if_splits prod.splits
        dest: read_size)
next
  fix n d l l'
  assume ok': "max_ok ok l" and n: "0 < n" and r: "max_Read read n l = (d, None, l')"
  show "max_ok ok l' \<and> max_rest rest l = d @ max_rest rest l' \<and> max_fin rest fin l' = max_fin rest fin l \<and>
        max_steps steps l' < max_steps steps l"
  proof -
    obtain k r' where k: "0 < k" and rd: "read k (mb_r l) = (d, None, r')" and len: "length d \<le> mb_n l"
      and l': "l' = l\<lparr>mb_r := r', mb_n := mb_n l - length d, mb_err := None\<rparr>" and err: "mb_err l = None"
      using n r by (auto simp: max_Read_def Let_def split: option.splits if_splits prod.splits)
    have "ok (mb_r l)" using ok' err by (simp add: max_ok_def)
    then show ?thesis
      using read_more [OF _ k rd] len by (auto simp: l' err max_defs)
  qed
next
  fix n d e l l'
  assume ok': "max_ok ok l" and n: "0 < n" and r: "max_Read read n l = (d, Some e, l')"
  show "max_rest rest l = d \<and> e = max_fin rest fin l"
  proof (cases "mb_err l")
    case (Some x)
    with r show ?thesis by (simp add: max_defs)
  next
    case None
    then have okr: "ok (mb_r l)" using ok' by (simp add: max_ok_def)
    obtain k d0 e0 r' where k: "0 < k" and rd: "read k (mb_r l) = (d0, e0, r')"
      and res: "(length d0 \<le> mb_n l \<and> d = d0 \<and> e0 = Some e) \<or>
                (\<not> length d0 \<le> mb_n l \<and> d = take (mb_n l) d0 \<and> e = MaxBytesError)"
      using n r None by (auto simp: max_Read_def Let_def split: if_splits prod.splits)
    show ?thesis
      using res read_more [OF okr k, of d0 r'] read_last [OF okr k, of d0 _ r'] rd None
      by (cases e0) (auto simp: max_rest_def max_fin_def)
  qed
qed

end

interpretation limited: io_reader "max_Read (counting_Read body_Read)" "max_rest (counting_rest body_rest)"
    "max_fin (counting_rest body_rest) (counting_fin body_fin)" "max_steps (counting_steps body_steps)"
    "max_ok (counting_ok (\<lambda>_. True))"
  by (rule counted.max_reader)

text \<open>The body of a request as the handlers get it, and with the limit they put on it.\<close>

definition body_reader :: "request \<Rightarrow> body_state countingReader" where
  "body_reader r = \<lparr>rc = Some (Body r, BodyEnd r), bytesRecv = 0\<rparr>"

definition limited_reader :: "nat \<Rightarrow> request \<Rightarrow> body_state countingReader maxBytesReader" where
  "limited_reader n r = \<lparr>mb_r = body_reader r, mb_n = n, mb_err = None\<rparr>"

section \<open>What the counting reader has counted after a copy\<close>

context io_reader begin

text \<open>A quantity every read increases by the bytes it delivers, and the last one by \<open>extra\<close> more.\<close>

lemma Copy_counted:
  assumes "\<And>s d s'. ok s \<Longrightarrow> keep s \<Longrightarrow> read 8192 s = (d, None, s') \<Longrightarrow>
      keep s' \<and> quantity s' = quantity s + int (length d)"
    and "\<And>s d x s'. ok s \<Longrightarrow> keep s \<Longrightarrow> read 8192 s = (d, Some x, s') \<Longrightarrow>
      quantity s' = quantity s + int (length d) + extra x"
  shows "ok s \<Longrightarrow> keep s \<Longrightarrow> Copy_discard read n s = Some (m, e, s') \<Longrightarrow>
    quantity s' = quantity s + int (length (rest s)) + extra (fin s)"
proof (induction "steps s" arbitrary: s n rule: less_induct)
  case less
  obtain d x s1 where r: "read 8192 s = (d, x, s1)" by (cases "read 8192 s")
  show ?case
  proof (cases x)
    case None
    note more = read_more [OF less.prems(1) _ r [unfolded None]]
    from less.prems(3) r None have "Copy_discard read (n + int (length d)) s1 = Some (m, e, s')"
      by (subst (asm) Copy_discard.simps) simp
    with more assms(1) [OF less.prems(1,2) r [unfolded None]] less.hyps [of s1 "n + int (length d)"]
    show ?thesis by simp
  next
    case (Some y)
    have "s' = s1" using less.prems(3) r Some by (subst (asm) Copy_discard.simps) simp
    with assms(2) [OF less.prems(1,2) r [unfolded Some]] read_last [OF less.prems(1) _ r [unfolded Some]]
    show ?thesis by simp
  qed
qed

end

lemma body_Read_keeps: "body_Read n s = (d, x, s') \<Longrightarrow> 0 < n \<Longrightarrow> snd s' = snd s \<and> length d \<le> n \<and> (x = None \<or> x = Some (snd s))"
  by (cases "(n, s)" rule: body_Read.cases) (auto split: if_splits)

lemma max_Read_counted:
  assumes "mb_err l = None" and "rc (mb_r l) = Some b"
    and "max_Read (counting_Read body_Read) 8192 l = (d, x, l')"
  shows "\<exists>d0 e0 b'. length d0 \<le> mb_n l + 1 \<and> snd b' = snd b \<and> (e0 = None \<or> e0 = Some (snd b)) \<and>
    bytesRecv (mb_r l') = bytesRecv (mb_r l) + int (length d0) \<and> rc (mb_r l') = Some b' \<and>
    (if length d0 \<le> mb_n l then d = d0 \<and> x = e0 \<and> mb_err l' = e0
     else d = take (mb_n l) d0 \<and> x = Some MaxBytesError)"
proof -
  define k where "k = (if 8192 - 1 > mb_n l then mb_n l + 1 else 8192)"
  obtain d0 e0 b' where r: "body_Read k b = (d0, e0, b')" by (metis prod_cases3)
  have "0 < k" and "k \<le> mb_n l + 1" by (auto simp: k_def)
  note keeps = body_Read_keeps [OF r this(1)]
  define c' where "c' = (mb_r l)\<lparr>rc := Some b', bytesRecv := bytesRecv (mb_r l) + int (length d0)\<rparr>"
  have "counting_Read body_Read k (mb_r l) = (d0, e0, c')"
    by (simp add: counting_Read_def assms(2) r c'_def)
  then have "(d, x, l') = (if length d0 \<le> mb_n l
      then (d0, e0, l\<lparr>mb_r := c', mb_n := mb_n l - length d0, mb_err := e0\<rparr>)
      else (take (mb_n l) d0, Some MaxBytesError, l\<lparr>mb_r := c', mb_n := 0, mb_err := Some MaxBytesError\<rparr>))"
    using assms(3) unfolding max_Read_def Let_def k_def [symmetric] by (simp add: assms(1))
  with keeps \<open>k \<le> mb_n l + 1\<close> show ?thesis
    by (intro exI [of _ d0] exI [of _ e0] exI [of _ b']) (auto simp: c'_def split: if_splits)
qed

text \<open>Under a limit the counter shows one byte more than was delivered when the limit is exceeded: the byte
  \<open>MaxBytesReader\<close> reads to find out.\<close>

lemma limited_counted:
  assumes "BodyEnd r \<noteq> MaxBytesError"
    and "Copy_discard (max_Read (counting_Read body_Read)) 0 (limited_reader n r) = Some (m, e, l)"
  shows "bytesRecv (mb_r l) = int (min n (length (concat (Body r)))) + (if n < length (concat (Body r)) then 1 else 0)"
proof -
  define keep where "keep l \<longleftrightarrow> mb_err l = None \<and> (\<exists>s. rc (mb_r l) = Some s \<and> snd s \<noteq> MaxBytesError)"
    for l :: "body_state countingReader maxBytesReader"
  define extra where "extra x = (if x = MaxBytesError then 1 else 0 :: int)" for x
  have "bytesRecv (mb_r l) = bytesRecv (mb_r (limited_reader n r)) +
      int (length (max_rest (counting_rest body_rest) (limited_reader n r))) +
      extra (max_fin (counting_rest body_rest) (counting_fin body_fin) (limited_reader n r))"
  proof (rule limited.Copy_counted [where keep = keep and quantity = "\<lambda>l. bytesRecv (mb_r l)"])
    show "Copy_discard (max_Read (counting_Read body_Read)) 0 (limited_reader n r) = Some (m, e, l)" by (rule assms)
    show "keep (limited_reader n r)" using assms(1) by (simp add: keep_def limited_reader_def body_reader_def)
    show "max_ok (counting_ok (\<lambda>_. True)) (limited_reader n r)"
      by (simp add: max_ok_def counting_ok_def limited_reader_def body_reader_def)
  next
    fix s d s'
    assume k: "keep s" and r: "max_Read (counting_Read body_Read) 8192 s = (d, None, s')"
    from k obtain b where "mb_err s = None" and b: "rc (mb_r s) = Some b" "snd b \<noteq> MaxBytesError"
      by (auto simp: keep_def)
    from max_Read_counted [OF this(1,2) r] b show "keep s' \<and> bytesRecv (mb_r s') = bytesRecv (mb_r s) + int (length d)"
      by (auto simp: keep_def split: if_splits)
  next
    fix s d x s'
    assume k: "keep s" and r: "max_Read (counting_Read body_Read) 8192 s = (d, Some x, s')"
    from k obtain b where "mb_err s = None" and b: "rc (mb_r s) = Some b" "snd b \<noteq> MaxBytesError"
      by (auto simp: keep_def)
    from max_Read_counted [OF this(1,2) r] b
    show "bytesRecv (mb_r s') = bytesRecv (mb_r s) + int (length d) + extra x"
      by (auto simp: extra_def split: if_splits)
  qed
  then show ?thesis
    using assms(1) by (auto simp: max_defs counting_defs limited_reader_def body_reader_def body_rest_def body_fin_def
        extra_def min_def)
qed

end
