(* ===== verification/Results.thy ===== *)
theory Results
  imports Store Csv Geo_Holder Go_IO
begin

text \<open>
  \<open>internal/handler/results_handler.go\<close>: the history endpoints, over any \<open>Store\<close>. Sanitising and
  truncating what a client sends, creating, listing and exporting results. The text of a float (in JSON
  and in CSV), the parser of a float literal and the JSON syntax are parameters.
\<close>

section \<open>Limits and query parameters\<close>

definition maxListLimit :: int where "maxListLimit = 100"
definition maxListOffset :: int where "maxListOffset = 1000000"
definition maxResultBody :: nat where "maxResultBody = 1024 * 1024"
definition exportLimit :: int where "exportLimit = 100000"

definition parseQueryInt :: "request \<Rightarrow> string \<Rightarrow> int \<Rightarrow> int" where
  "parseQueryInt r key def =
     (let v = query_Get r key in if v = [] then def else (case Atoi v of None \<Rightarrow> def | Some n \<Rightarrow> n))"

definition clampInt :: "int \<Rightarrow> int \<Rightarrow> int \<Rightarrow> int" where
  "clampInt n lo hi = (if n < lo then lo else if n > hi then hi else n)"

section \<open>Sanitising\<close>

definition clampFloat :: "float64 \<Rightarrow> float64 \<Rightarrow> float64 \<Rightarrow> float64" where
  "clampFloat v lo hi =
     (if IsNaN v \<or> IsInf0 v then lo else if flt v lo then lo else if flt hi v then hi else v)"

text \<open>A continuation byte of UTF-8: top bits 10.\<close>

definition continuation :: "char \<Rightarrow> bool" where
  "continuation c \<longleftrightarrow> byte_of c AND 192 = 128"

fun walk_back :: "string \<Rightarrow> nat \<Rightarrow> nat" where
  "walk_back s 0 = 0"
| "walk_back s (Suc k) = (if continuation (s ! Suc k) then walk_back s k else Suc k)"

definition truncate :: "string \<Rightarrow> nat \<Rightarrow> string" where
  "truncate s n = (if length s \<le> n then s else take (walk_back s n) s)"

definition grade_ok :: "string \<Rightarrow> bool" where
  "grade_ok g \<longleftrightarrow> g \<in> {[], ''A'', ''B'', ''C'', ''D''}"

definition sanitiseResult :: "result \<Rightarrow> result" where
  "sanitiseResult r =
     r\<lparr>DownloadMbps := clampFloat (DownloadMbps r) (Fin 0) (Fin 1000000),
       UploadMbps := clampFloat (UploadMbps r) (Fin 0) (Fin 1000000),
       LatencyIdleMs := clampFloat (LatencyIdleMs r) (Fin 0) (Fin 60000),
       LatencyLoadedMs := clampFloat (LatencyLoadedMs r) (Fin 0) (Fin 60000),
       DownloadJitterMs := clampFloat (DownloadJitterMs r) (Fin 0) (Fin 60000),
       UploadJitterMs := clampFloat (UploadJitterMs r) (Fin 0) (Fin 60000),
       PacketLoss := clampFloat (PacketLoss r) (Fin 0) (Fin 100),
       BufferbloatGrade := (if grade_ok (BufferbloatGrade r) then BufferbloatGrade r else []),
       SettingsJSON := truncate (SettingsJSON r) 1024,
       ID := 0, CreatedAt := 0, ClientIPAddr := [], ClientIPLocation := [], UserAgent := []\<rparr>"

section \<open>Replies\<close>

definition json_header :: "string \<rightharpoonup> string" where
  "json_header = [''Content-Type'' \<mapsto> ''application/json'']"

definition writeErr :: "int \<Rightarrow> string \<Rightarrow> reply" where
  "writeErr code msg = \<lparr>status = code, headers = json_header, payload = Json (JObj [(''error'', JStr msg)])\<rparr>"

definition genericInternalError :: string where "genericInternalError = ''internal error''"
definition historyDisabledMsg :: string where "historyDisabledMsg = ''history disabled''"

definition internalErr :: reply where
  "internalErr = writeErr StatusInternalServerError genericInternalError"

definition writeHistoryDisabled :: reply where
  "writeHistoryDisabled = writeErr StatusServiceUnavailable historyDisabledMsg"

text \<open>A result as JSON; \<open>fmt\<close> is the text of a float. A value that is not finite cannot be encoded, and
  then nothing is written behind the header.\<close>

definition result_floats :: "result \<Rightarrow> float64 list" where
  "result_floats r = [DownloadMbps r, UploadMbps r, LatencyIdleMs r, LatencyLoadedMs r, DownloadJitterMs r,
     UploadJitterMs r, PacketLoss r]"

definition json_result :: "(float64 \<Rightarrow> string) \<Rightarrow> result \<Rightarrow> json" where
  "json_result fmt r = JObj [(''id'', jint (ID r)), (''created_at'', jint (CreatedAt r)),
     (''download_mbps'', JNum (fmt (DownloadMbps r))), (''upload_mbps'', JNum (fmt (UploadMbps r))),
     (''latency_idle_ms'', JNum (fmt (LatencyIdleMs r))), (''latency_loaded_ms'', JNum (fmt (LatencyLoadedMs r))),
     (''download_jitter_ms'', JNum (fmt (DownloadJitterMs r))), (''upload_jitter_ms'', JNum (fmt (UploadJitterMs r))),
     (''packet_loss'', JNum (fmt (PacketLoss r))), (''bufferbloat_grade'', JStr (BufferbloatGrade r)),
     (''client_ip'', JStr (ClientIPAddr r)), (''client_ip_location'', JStr (ClientIPLocation r)),
     (''user_agent'', JStr (UserAgent r)), (''settings_json'', JStr (SettingsJSON r))]"

definition encode_results :: "(string \<rightharpoonup> string) \<Rightarrow> result list \<Rightarrow> json \<Rightarrow> reply" where
  "encode_results h rs v =
     (if list_all (\<lambda>r. list_all finite_float (result_floats r)) rs then writeJSON h v
      else \<lparr>status = StatusOK, headers = h(''Content-Type'' \<mapsto> ''application/json''), payload = Text []\<rparr>)"

section \<open>GET /api/results\<close>

text \<open>\<open>db\<close> is the store of the handler, nil when there is none.\<close>

definition listResults ::
  "(float64 \<Rightarrow> string) \<Rightarrow> 'db store_ops \<Rightarrow> 'db option \<Rightarrow> request \<Rightarrow> reply \<times> 'db option" where
  "listResults fmt st h_store r = (case h_store of
       None \<Rightarrow> (writeHistoryDisabled, None)
     | Some db \<Rightarrow>
         (let limit = clampInt (parseQueryInt r ''limit'' 20) 1 maxListLimit;
              offset = clampInt (parseQueryInt r ''offset'' 0) 0 maxListOffset
          in case List st limit offset db of
               (None, db) \<Rightarrow> (internalErr, Some db)
             | (Some results, db) \<Rightarrow>
                 (case Count st db of
                    (None, db) \<Rightarrow> (internalErr, Some db)
                  | (Some all_results, db) \<Rightarrow>
                      (encode_results Map.empty results
                         (JObj [(''limit'', jint limit), (''offset'', jint offset),
                            (''results'', JArr (map (json_result fmt) results)), (''total'', jint all_results)]), Some db))))"

section \<open>POST /api/results\<close>

text \<open>The struct tags of \<open>store.Result\<close>; \<open>parse_float\<close> is \<open>None\<close> for a number out of range.\<close>

fun dec_float :: "(string \<Rightarrow> float64 option) \<Rightarrow> (float64 \<Rightarrow> result \<Rightarrow> result) \<Rightarrow> result field_dec" where
  "dec_float parse_float upd JNull r = Some r"
| "dec_float parse_float upd (JNum l) r = (case parse_float l of None \<Rightarrow> None | Some x \<Rightarrow> Some (upd x r))"
| "dec_float parse_float upd _ r = None"

definition result_fields :: "(string \<Rightarrow> float64 option) \<Rightarrow> (string \<times> result field_dec) list" where
  "result_fields pf =
     [(''id'', dec_int (\<lambda>v r. r\<lparr>ID := v\<rparr>)), (''created_at'', dec_int (\<lambda>v r. r\<lparr>CreatedAt := v\<rparr>)),
      (''download_mbps'', dec_float pf (\<lambda>v r. r\<lparr>DownloadMbps := v\<rparr>)),
      (''upload_mbps'', dec_float pf (\<lambda>v r. r\<lparr>UploadMbps := v\<rparr>)),
      (''latency_idle_ms'', dec_float pf (\<lambda>v r. r\<lparr>LatencyIdleMs := v\<rparr>)),
      (''latency_loaded_ms'', dec_float pf (\<lambda>v r. r\<lparr>LatencyLoadedMs := v\<rparr>)),
      (''download_jitter_ms'', dec_float pf (\<lambda>v r. r\<lparr>DownloadJitterMs := v\<rparr>)),
      (''upload_jitter_ms'', dec_float pf (\<lambda>v r. r\<lparr>UploadJitterMs := v\<rparr>)),
      (''packet_loss'', dec_float pf (\<lambda>v r. r\<lparr>PacketLoss := v\<rparr>)),
      (''bufferbloat_grade'', dec_string (\<lambda>v r. r\<lparr>BufferbloatGrade := v\<rparr>)),
      (''client_ip'', dec_string (\<lambda>v r. r\<lparr>ClientIPAddr := v\<rparr>)),
      (''client_ip_location'', dec_string (\<lambda>v r. r\<lparr>ClientIPLocation := v\<rparr>)),
      (''user_agent'', dec_string (\<lambda>v r. r\<lparr>UserAgent := v\<rparr>)),
      (''settings_json'', dec_string (\<lambda>v r. r\<lparr>SettingsJSON := v\<rparr>))]"

text \<open>What reading the body through the counting and the limiting reader delivers, and how it ends.\<close>

definition limited_body :: "nat \<Rightarrow> request \<Rightarrow> string \<times> read_end" where
  "limited_body n r = (max_rest (counting_rest body_rest) (limited_reader n r),
     max_fin (counting_rest body_rest) (counting_fin body_fin) (limited_reader n r))"

text \<open>\<open>decode\<close> is the first value of the JSON text in a stream, \<open>None\<close> when there is none.\<close>

definition decodeResult ::
  "(string \<times> read_end \<Rightarrow> json option) \<Rightarrow> (string \<Rightarrow> float64 option) \<Rightarrow> request \<Rightarrow> result option" where
  "decodeResult decode pf r = (case decode (limited_body maxResultBody r) of None \<Rightarrow> None
     | Some j \<Rightarrow> decode_struct (result_fields pf) j result0)"

text \<open>The result that goes to the store: the fields of the client sanitised, the others of the server.
  \<open>None\<close> would be a lookup in a closed database (see \<open>Geo_Holder\<close>).\<close>

definition server_result ::
  "(handle \<Rightarrow> ip option \<Rightarrow> string) \<Rightarrow> geo_state \<Rightarrow> int \<Rightarrow> request \<Rightarrow> result \<Rightarrow> result option" where
  "server_result locate g now_ms r x =
     (let x = sanitiseResult x;
          x = x\<lparr>CreatedAt := now_ms, ClientIPAddr := ClientIP r, UserAgent := truncate (header_Get r ''User-Agent'') 512\<rparr>
      in case LocateIP locate g (ParseIP (ClientIPAddr x)) of
           None \<Rightarrow> None
         | Some loc \<Rightarrow> Some (x\<lparr>ClientIPLocation := loc\<rparr>))"

definition created :: "result \<Rightarrow> reply" where
  "created saved = \<lparr>status = StatusCreated, headers = json_header,
     payload = Json (JObj [(''created_at'', jint (CreatedAt saved)), (''id'', jint (ID saved))])\<rparr>"

definition createResult ::
  "(string \<times> read_end \<Rightarrow> json option) \<Rightarrow> (string \<Rightarrow> float64 option) \<Rightarrow> (handle \<Rightarrow> ip option \<Rightarrow> string) \<Rightarrow>
   'db store_ops \<Rightarrow> geo_state \<Rightarrow> int \<Rightarrow> 'db option \<Rightarrow> request \<Rightarrow> (reply \<times> 'db option) option" where
  "createResult decode pf locate st g now_ms h_store r = (case h_store of
       None \<Rightarrow> Some (writeHistoryDisabled, None)
     | Some db \<Rightarrow>
         (case decodeResult decode pf r of
            None \<Rightarrow> Some (writeErr StatusBadRequest ''invalid request body'', Some db)
          | Some x \<Rightarrow>
              (case server_result locate g now_ms r x of
                 None \<Rightarrow> None
               | Some x \<Rightarrow>
                   (case Save st now_ms x db of
                      (None, db) \<Rightarrow> Some (internalErr, Some db)
                    | (Some saved, db) \<Rightarrow> Some (created saved, Some db)))))"

section \<open>GET /api/results/export\<close>

definition csv_header :: "string list" where
  "csv_header = [''id'', ''created_at'', ''download_mbps'', ''upload_mbps'', ''latency_idle_ms'', ''latency_loaded_ms'',
     ''download_jitter_ms'', ''upload_jitter_ms'', ''packet_loss'', ''bufferbloat_grade'', ''client_ip'',
     ''client_ip_location'', ''user_agent'', ''settings_json'']"

definition csv_record :: "(float64 \<Rightarrow> string) \<Rightarrow> result \<Rightarrow> string list" where
  "csv_record fmt r = [Itoa (ID r), Itoa (CreatedAt r), fmt (DownloadMbps r), fmt (UploadMbps r),
     fmt (LatencyIdleMs r), fmt (LatencyLoadedMs r), fmt (DownloadJitterMs r), fmt (UploadJitterMs r),
     fmt (PacketLoss r), csvSafe (BufferbloatGrade r), csvSafe (ClientIPAddr r), csvSafe (ClientIPLocation r),
     csvSafe (UserAgent r), csvSafe (SettingsJSON r)]"

definition writeResultsCSV :: "(float64 \<Rightarrow> string) \<Rightarrow> result list \<Rightarrow> string" where
  "writeResultsCSV fmt results = concat (map csv_Write (csv_header # map (csv_record fmt) results))"

text \<open>\<open>ts\<close> is the formatted time; \<open>fmt_json\<close> and \<open>fmt_csv\<close> the two texts of a float.\<close>

definition ResultsExport ::
  "(float64 \<Rightarrow> string) \<Rightarrow> (float64 \<Rightarrow> string) \<Rightarrow> 'db store_ops \<Rightarrow> string \<Rightarrow> 'db option \<Rightarrow> request \<Rightarrow> reply \<times> 'db option" where
  "ResultsExport fmt_json fmt_csv st ts h_store r = (case h_store of
       None \<Rightarrow> (writeHistoryDisabled, None)
     | Some db \<Rightarrow>
         if Method r \<noteq> MethodGet then (method_not_allowed, Some db)
         else
           (let format = ToLower (query_Get r ''format'');
                format = (if format = [] then ''json'' else format)
            in if format \<noteq> ''json'' \<and> format \<noteq> ''csv''
               then (writeErr StatusBadRequest ''format must be json or csv'', Some db)
               else
                 (case List st exportLimit 0 db of
                    (None, db) \<Rightarrow> (internalErr, Some db)
                  | (Some results, db) \<Rightarrow>
                      (let h = [''Content-Disposition'' \<mapsto>
                              ''attachment; filename='' @ [quote] @ ''speedtest-results-'' @ ts @ ''.'' @ format @ [quote]]
                       in (if format = ''json''
                           then encode_results h results (JObj [(''results'', JArr (map (json_result fmt_json) results))])
                           else \<lparr>status = StatusOK, headers = h(''Content-Type'' \<mapsto> ''text/csv; charset=utf-8''),
                                 payload = Text (writeResultsCSV fmt_csv results)\<rparr>, Some db)))))"

definition ResultsListOrCreate ::
  "(string \<times> read_end \<Rightarrow> json option) \<Rightarrow> (string \<Rightarrow> float64 option) \<Rightarrow> (float64 \<Rightarrow> string) \<Rightarrow>
   (handle \<Rightarrow> ip option \<Rightarrow> string) \<Rightarrow> 'db store_ops \<Rightarrow> geo_state \<Rightarrow> int \<Rightarrow> 'db option \<Rightarrow> request \<Rightarrow>
   (reply \<times> 'db option) option" where
  "ResultsListOrCreate decode pf fmt locate st g now_ms h_store r =
     (if Method r = MethodGet then Some (listResults fmt st h_store r)
      else if Method r = MethodPost then createResult decode pf locate st g now_ms h_store r
      else Some (method_not_allowed, h_store))"

section \<open>Truncation and UTF-8\<close>

definition cont_in :: "nat \<Rightarrow> nat \<Rightarrow> char \<Rightarrow> bool" where
  "cont_in lo hi c \<longleftrightarrow> lo \<le> byte_of c \<and> byte_of c \<le> hi"

text \<open>The number of bytes of the rune at the head of a text and whether they are well formed, after the
  table of the Unicode standard (no overlong forms, no surrogates).\<close>

definition rune_ok :: "char \<Rightarrow> string \<Rightarrow> nat \<Rightarrow> bool" where
  "rune_ok c cs n \<longleftrightarrow>
     (n = 0 \<and> byte_of c < 128) \<or>
     (n = 1 \<and> cont_in 194 223 c \<and> 1 \<le> length cs \<and> cont_in 128 191 (cs ! 0)) \<or>
     (n = 2 \<and> cont_in 224 239 c \<and> 2 \<le> length cs \<and>
        cont_in (if byte_of c = 224 then 160 else 128) (if byte_of c = 237 then 159 else 191) (cs ! 0) \<and>
        cont_in 128 191 (cs ! 1)) \<or>
     (n = 3 \<and> cont_in 240 244 c \<and> 3 \<le> length cs \<and>
        cont_in (if byte_of c = 240 then 144 else 128) (if byte_of c = 244 then 143 else 191) (cs ! 0) \<and>
        cont_in 128 191 (cs ! 1) \<and> cont_in 128 191 (cs ! 2))"

inductive utf8 :: "string \<Rightarrow> bool" where
  empty: "utf8 []"
| rune: "rune_ok c cs n \<Longrightarrow> utf8 (drop n cs) \<Longrightarrow> utf8 (c # cs)"

lemma and_192: "n AND 192 = 64 * (n div 64 mod 4)" for n :: nat
proof -
  have "n AND 192 = n AND push_bit 6 (mask 2)" by (simp add: push_bit_eq_mult mask_eq_exp_minus_1)
  also have "\<dots> = push_bit 6 (take_bit 2 (drop_bit 6 n))" by (auto intro!: bit_eqI simp: bit_simps)
  finally show ?thesis by (simp add: push_bit_eq_mult drop_bit_eq_div take_bit_eq_mod)
qed

lemma continuation_iff: "continuation c \<longleftrightarrow> cont_in 128 191 c"
proof -
  have "byte_of c div 64 < 4" using byte_of_less [of c] by linarith
  then show ?thesis by (auto simp: continuation_def and_192 cont_in_def)
qed

lemma walk_back_le: "walk_back s n \<le> n"
  by (induction n) auto

lemma walk_back_stop: "walk_back s n = 0 \<or> \<not> continuation (s ! walk_back s n)"
  by (induction n) auto

lemma walk_back_between: "walk_back s n < k \<Longrightarrow> k \<le> n \<Longrightarrow> continuation (s ! k)"
  by (induction n) (auto simp: le_Suc_eq split: if_splits)

text \<open>A rune starts with a byte that is not a continuation byte and goes on with bytes that are.\<close>

lemma rune_shape:
  assumes "rune_ok c cs n"
  shows "n \<le> length cs" and "n \<le> 3" and "\<not> continuation c" and "i < n \<Longrightarrow> continuation (cs ! i)"
proof -
  show "n \<le> length cs" and "n \<le> 3" using assms by (auto simp: rune_ok_def)
  show "\<not> continuation c" using assms by (auto simp: rune_ok_def continuation_iff cont_in_def)
  have "i < n \<Longrightarrow> i = 0 \<or> i = 1 \<or> i = 2" using \<open>n \<le> 3\<close> by auto
  then show "i < n \<Longrightarrow> continuation (cs ! i)"
    using assms by (auto simp: rune_ok_def continuation_iff cont_in_def split: if_splits)
qed

lemma rune_ok_prefix:
  assumes "rune_ok c cs n" and "\<And>i. i < n \<Longrightarrow> ds ! i = cs ! i" and "n \<le> length ds"
  shows "rune_ok c ds n"
proof -
  consider "n = 0" | "n = 1" | "n = 2" | "n = 3" using rune_shape(2) [OF assms(1)] by linarith
  then show ?thesis
    by cases (use assms(1,3) assms(2) [of 0] assms(2) [of 1] assms(2) [of 2] in \<open>simp_all add: rune_ok_def\<close>)
qed

lemma utf8_take:
  "utf8 s \<Longrightarrow> k \<le> length s \<Longrightarrow> k = length s \<or> \<not> continuation (s ! k) \<Longrightarrow> utf8 (take k s)"
proof (induction arbitrary: k rule: utf8.induct)
  case empty
  then show ?case by (simp add: utf8.empty)
next
  case (rune c cs n)
  show ?case
  proof (cases "k \<le> n")
    case True
    show ?thesis
    proof (cases k)
      case 0
      then show ?thesis by (simp add: utf8.empty)
    next
      case (Suc j)
      with True have "continuation (cs ! j)" using rune_shape(4) [OF rune.hyps(1)] by simp
      with rune.prems Suc have "k = length (c # cs)" by simp
      with Suc True rune_shape(1) [OF rune.hyps(1)] show ?thesis by simp
    qed
  next
    case False
    then obtain j where k: "k = Suc (n + j)" by (metis add_Suc less_iff_Suc_add not_le)
    have "utf8 (take j (drop n cs))"
      using rune.prems k by (intro rune.IH) auto
    moreover have "take k (c # cs) = c # take n cs @ take j (drop n cs)"
      by (simp add: k take_add)
    moreover have "rune_ok c (take n cs @ take j (drop n cs)) n"
      by (rule rune_ok_prefix [OF rune.hyps(1)]) (use rune_shape(1) [OF rune.hyps(1)] in \<open>auto simp: nth_append\<close>)
    ultimately show ?thesis using utf8.rune [of c "take n cs @ take j (drop n cs)" n] rune_shape(1) [OF rune.hyps(1)]
      by simp
  qed
qed

lemma truncate_length: "length (truncate s n) \<le> n"
  using walk_back_le [of s n] by (auto simp: truncate_def)

text \<open>The position where the walk stops is at most three bytes back in a well-formed text.\<close>

lemma utf8_run:
  "utf8 s \<Longrightarrow> k < length s \<Longrightarrow> \<exists>j \<le> k. k \<le> j + 3 \<and> \<not> continuation (s ! j)"
proof (induction arbitrary: k rule: utf8.induct)
  case (rune c cs n)
  show ?case
  proof (cases "k \<le> n")
    case True
    with rune_shape [OF rune.hyps(1)] show ?thesis by (intro exI [of _ 0]) auto
  next
    case False
    then obtain i where k: "k = Suc (n + i)" by (metis add_Suc less_iff_Suc_add not_le)
    with rune.prems have "i < length (drop n cs)" by simp
    from rune.IH [OF this] obtain j where "j \<le> i" "i \<le> j + 3" "\<not> continuation (drop n cs ! j)" by blast
    with k rune.prems show ?thesis by (intro exI [of _ "Suc (n + j)"]) simp
  qed
qed simp

lemma truncate_near:
  assumes "utf8 s" and "n < length s"
  shows "n \<le> length (truncate s n) + 3"
proof -
  obtain j where j: "j \<le> n" "n \<le> j + 3" "\<not> continuation (s ! j)" using utf8_run [OF assms] by blast
  then have "\<not> walk_back s n < j" using walk_back_between by blast
  then show ?thesis using j walk_back_le [of s n] assms(2) by (simp add: truncate_def)
qed

section \<open>What sanitising guarantees\<close>

lemma clampFloat_cases: "clampFloat v lo hi \<in> {lo, hi, v}"
  by (simp add: clampFloat_def)

lemma clampFloat_range:
  assumes "a \<le> b"
  shows "finite_float (clampFloat v (Fin a) (Fin b)) \<and> a \<le> value_of (clampFloat v (Fin a) (Fin b)) \<and>
    value_of (clampFloat v (Fin a) (Fin b)) \<le> b"
  using assms by (cases v) (auto simp: clampFloat_def finite_float_def IsNaN_def IsInf0_def)

lemma clampFloat_idem: "a \<le> b \<Longrightarrow> clampFloat (clampFloat v (Fin a) (Fin b)) (Fin a) (Fin b) = clampFloat v (Fin a) (Fin b)"
  by (cases v) (auto simp: clampFloat_def IsNaN_def IsInf0_def)

definition in_range :: "rat \<Rightarrow> float64 \<Rightarrow> bool" where
  "in_range hi v \<longleftrightarrow> finite_float v \<and> 0 \<le> value_of v \<and> value_of v \<le> hi"

definition result_bounds :: "result \<Rightarrow> bool" where
  "result_bounds r \<longleftrightarrow>
     in_range 1000000 (DownloadMbps r) \<and> in_range 1000000 (UploadMbps r) \<and>
     in_range 60000 (LatencyIdleMs r) \<and> in_range 60000 (LatencyLoadedMs r) \<and>
     in_range 60000 (DownloadJitterMs r) \<and> in_range 60000 (UploadJitterMs r) \<and> in_range 100 (PacketLoss r) \<and>
     grade_ok (BufferbloatGrade r) \<and> length (SettingsJSON r) \<le> 1024"

lemma in_range_clampFloat: "0 \<le> hi \<Longrightarrow> in_range hi (clampFloat v (Fin 0) (Fin hi))"
  using clampFloat_range [of 0 hi v] by (simp add: in_range_def)

lemma sanitise_bounds: "result_bounds (sanitiseResult r)"
  by (simp add: result_bounds_def sanitiseResult_def in_range_clampFloat truncate_length) (simp add: grade_ok_def)

lemma in_range_norm: "in_range hi (norm v) = in_range hi v"
  by (cases v) (auto simp: in_range_def finite_float_def IsNaN_def IsInf0_def)

lemma persisted_simps [simp]:
  "CreatedAt (persisted r) = CreatedAt r" "ID (persisted r) = ID r" "ClientIPAddr (persisted r) = ClientIPAddr r"
  "ClientIPLocation (persisted r) = ClientIPLocation r" "UserAgent (persisted r) = UserAgent r"
  "SettingsJSON (persisted r) = SettingsJSON r" "BufferbloatGrade (persisted r) = BufferbloatGrade r"
  "result_bounds (persisted r) = result_bounds r"
  by (simp_all add: persisted_def result_bounds_def in_range_norm)

lemma bounds_update [simp]:
  "result_bounds (r\<lparr>CreatedAt := c\<rparr>) = result_bounds r" "result_bounds (r\<lparr>ID := i\<rparr>) = result_bounds r"
  "result_bounds (r\<lparr>ClientIPAddr := ip\<rparr>) = result_bounds r" "result_bounds (r\<lparr>ClientIPLocation := l\<rparr>) = result_bounds r"
  "result_bounds (r\<lparr>UserAgent := u\<rparr>) = result_bounds r"
  by (simp_all add: result_bounds_def)

text \<open>The fields the server decides, whatever the client sent.\<close>

definition server_fields ::
  "(handle \<Rightarrow> ip option \<Rightarrow> string) \<Rightarrow> geo_state \<Rightarrow> int \<Rightarrow> request \<Rightarrow> result \<Rightarrow> bool" where
  "server_fields locate g now_ms r x \<longleftrightarrow>
     CreatedAt x = now_ms \<and> ClientIPAddr x = ClientIP r \<and>
     UserAgent x = truncate (header_Get r ''User-Agent'') 512 \<and>
     LocateIP locate g (ParseIP (ClientIP r)) = Some (ClientIPLocation x)"

lemma server_result_fields:
  "server_result locate g now_ms r x = Some y \<Longrightarrow> server_fields locate g now_ms r y \<and> result_bounds y"
  using sanitise_bounds by (auto simp: server_result_def server_fields_def Let_def split: option.splits)

lemma writeErr_simps [simp]: "status (writeErr code msg) = code"
  by (simp add: writeErr_def)

lemma created_status [simp]: "status (created x) = 201"
  by (simp add: created_def status_codes)

text \<open>All ways through \<open>createResult\<close>.\<close>

lemma createResult_cases:
  assumes "createResult decode pf locate st g now_ms (Some db) r = Some (rep, h')"
  shows "(decodeResult decode pf r = None \<and> rep = writeErr StatusBadRequest ''invalid request body'' \<and> h' = Some db) \<or>
    (\<exists>x y saved db'. decodeResult decode pf r = Some x \<and> server_result locate g now_ms r x = Some y \<and>
       Save st now_ms y db = (saved, db') \<and> h' = Some db' \<and>
       rep = (case saved of None \<Rightarrow> internalErr | Some z \<Rightarrow> created z))"
  using assms by (auto simp: createResult_def split: option.splits prod.splits)

context result_store begin

lemma createResult_store:
  assumes "ok db" and "createResult decode pf locate st g now_ms (Some db) r = Some (rep, h')"
  shows "\<exists>db'. h' = Some db' \<and> ok db' \<and>
    (if status rep = 201
     then \<exists>x. contents db' = contents db @ [x] \<and> server_fields locate g now_ms r x \<and> result_bounds x \<and>
        (\<forall>y \<in> set (contents db). ID y < ID x) \<and>
        payload rep = Json (JObj [(''created_at'', jint now_ms), (''id'', jint (ID x))])
     else contents db' = contents db \<and> status rep \<in> {400, 500})"
  using createResult_cases [OF assms(2)]
proof (elim disjE exE conjE)
  assume "rep = writeErr StatusBadRequest ''invalid request body''" and "h' = Some db"
  with assms(1) show ?thesis by (simp add: status_codes)
next
  fix x y saved db'
  assume y: "server_result locate g now_ms r x = Some y" and sv: "Save st now_ms y db = (saved, db')"
    and h': "h' = Some db'" and rep: "rep = (case saved of None \<Rightarrow> internalErr | Some z \<Rightarrow> created z)"
  note f = server_result_fields [OF y]
  show ?thesis
  proof (cases saved)
    case None
    with save_err [OF assms(1) sv [unfolded None]] h' rep show ?thesis
      by (simp add: internalErr_def status_codes)
  next
    case (Some z)
    note s = save_ok [OF assms(1) sv [unfolded Some]]
    then have z: "z = y\<lparr>CreatedAt := now_ms, ID := ID z\<rparr>"
      using f by (auto simp: server_fields_def)
    have "server_fields locate g now_ms r (persisted z)" and "result_bounds (persisted z)"
      using f by (subst z, simp add: server_fields_def)+
    moreover have "CreatedAt z = now_ms" by (subst z) simp
    ultimately show ?thesis using s h' rep Some by (auto simp: created_def StatusCreated_def)
  qed
qed

end

section \<open>Listing and exporting over the contract\<close>

lemma clampInt_range: "lo \<le> hi \<Longrightarrow> lo \<le> clampInt n lo hi \<and> clampInt n lo hi \<le> hi"
  by (simp add: clampInt_def)

definition all_finite :: "result list \<Rightarrow> bool" where
  "all_finite rs \<longleftrightarrow> list_all (\<lambda>r. list_all finite_float (result_floats r)) rs"

lemma bounds_finite: "result_bounds r \<Longrightarrow> list_all finite_float (result_floats r)"
  by (simp add: result_bounds_def result_floats_def in_range_def)

lemma all_finite_subset: "all_finite xs \<Longrightarrow> set ys \<subseteq> set xs \<Longrightarrow> all_finite ys"
  by (auto simp: all_finite_def list_all_iff)

lemma encode_finite: "all_finite rs \<Longrightarrow> encode_results h rs v = writeJSON h v"
  by (simp add: encode_results_def all_finite_def)

lemma page_subset: "set (take k (drop n (newest xs))) \<subseteq> set xs"
  using set_take_subset [of k "drop n (newest xs)"] set_drop_subset [of n "newest xs"] by auto

text \<open>The page of a listing.\<close>

definition page :: "int \<Rightarrow> int \<Rightarrow> result list \<Rightarrow> result list" where
  "page limit offset rs = take (nat limit) (drop (nat offset) (newest rs))"

context result_store begin

lemma listResults_store:
  assumes "ok db" and "listResults fmt st (Some db) r = (rep, h')" and "all_finite (contents db)"
  shows "\<exists>db'. h' = Some db' \<and> ok db' \<and> contents db' = contents db \<and>
    (rep = internalErr \<or>
     (let limit = clampInt (parseQueryInt r ''limit'' 20) 1 100; offset = clampInt (parseQueryInt r ''offset'' 0) 0 1000000
      in rep = writeJSON Map.empty (JObj [(''limit'', jint limit), (''offset'', jint offset),
           (''results'', JArr (map (json_result fmt) (page limit offset (contents db)))),
           (''total'', jint (int (length (contents db))))])))"
proof -
  define limit where "limit = clampInt (parseQueryInt r ''limit'' 20) 1 100"
  define offset where "offset = clampInt (parseQueryInt r ''offset'' 0) 0 1000000"
  obtain x db1 where l: "List st limit offset db = (x, db1)" by (cases "List st limit offset db")
  note k1 = list_keeps [OF assms(1) l]
  obtain y db2 where c: "Count st db1 = (y, db2)" by (cases "Count st db1")
  note k2 = count_keeps [OF conjunct1 [OF k1] c]
  show ?thesis
  proof (cases x)
    case None
    with assms(2) l k1 show ?thesis
      by (auto simp: listResults_def limit_def offset_def maxListLimit_def maxListOffset_def Let_def)
  next
    case (Some rs)
    have rs: "rs = page limit offset (contents db)"
      using list_ok [OF assms(1) l [unfolded Some]] by (simp add: page_def)
    have fin: "all_finite rs"
      unfolding rs page_def by (rule all_finite_subset [OF assms(3) page_subset])
    have rep: "(rep, h') = (case y of None \<Rightarrow> (internalErr, Some db2)
        | Some k \<Rightarrow> (encode_results Map.empty rs (JObj [(''limit'', jint limit), (''offset'', jint offset),
             (''results'', JArr (map (json_result fmt) rs)), (''total'', jint k)]), Some db2))"
      using assms(2) l Some c
      by (simp add: listResults_def limit_def [symmetric] offset_def [symmetric] maxListLimit_def maxListOffset_def
          Let_def split: option.splits)
    show ?thesis
    proof (cases y)
      case None
      with rep k1 k2 show ?thesis by simp
    next
      case (Some k)
      then have "k = int (length (contents db))"
        using count_ok [OF conjunct1 [OF k1] c [unfolded Some]] k1 by simp
      with rep Some k1 k2 show ?thesis
        by (simp add: encode_finite [OF fin [unfolded rs limit_def offset_def]] rs limit_def offset_def Let_def)
    qed
  qed
qed

lemma export_csv_store:
  assumes "ok db" and "ResultsExport fj fc st ts (Some db) r = (rep, h')" and "Method r = MethodGet"
    and "ToLower (query_Get r ''format'') = ''csv''" and "status rep = 200"
  shows "payload rep = Text (writeResultsCSV fc (page 100000 0 (contents db)))"
proof -
  obtain x db1 where l: "List st 100000 0 db = (x, db1)" by (cases "List st 100000 0 db")
  have "x \<noteq> None"
    using assms(2-5) l by (cases x) (auto simp: ResultsExport_def exportLimit_def internalErr_def status_codes Let_def)
  then obtain rs where x: "x = Some rs" by blast
  have "rs = page 100000 0 (contents db)"
    using list_ok [OF assms(1) l [unfolded x]] by (simp add: page_def)
  then show ?thesis using assms(2-4) l x by (auto simp: ResultsExport_def exportLimit_def Let_def)
qed

end

section \<open>Properties\<close>

text \<open>C37: truncating never makes the text longer than asked, cuts at most three bytes more than needed, and
  leaves well-formed UTF-8 well formed.\<close>

theorem truncate_utf8:
  assumes "utf8 s"
  shows "utf8 (truncate s n) \<and> prefix (truncate s n) s \<and> length (truncate s n) \<le> n \<and>
    (if length s \<le> n then truncate s n = s else n \<le> length (truncate s n) + 3)"
proof -
  have "utf8 (truncate s n)"
    using utf8_take [OF assms, of "walk_back s n"] walk_back_le [of s n] walk_back_stop [of s n] assms
    by (cases "walk_back s n = 0") (auto simp: truncate_def intro: utf8.empty)
  moreover have "prefix (truncate s n) s" by (simp add: truncate_def take_is_prefix)
  ultimately show ?thesis
    using truncate_length [of s n] truncate_near [OF assms, of n] by (simp add: truncate_def)
qed

theorem truncate_utf8_witness:
  "truncate (''a'' @ [char_of (226::nat), char_of (130::nat), char_of (172::nat)]) 3 = ''a''"
proof -
  let ?s = "''a'' @ [char_of (226::nat), char_of (130::nat), char_of (172::nat)]"
  have "utf8 [char_of (226::nat), char_of (130::nat), char_of (172::nat)]"
    by (rule utf8.rune [where n = 2]) (simp_all add: rune_ok_def cont_in_def byte_of_def utf8.empty)
  then have "utf8 ?s"
    unfolding append.simps by (intro utf8.rune [where n = 0]) (simp_all add: rune_ok_def byte_of_def)
  from truncate_utf8 [OF this, of 3] have "length (truncate ?s 3) \<le> 3" and "utf8 (truncate ?s 3)" by auto
  then show ?thesis by (simp add: truncate_def continuation_iff cont_in_def byte_of_def numeral_3_eq_3)
qed

text \<open>Whatever a client sends, the sanitised result has finite numbers in their documented ranges, a
  known grade, a settings text of at most 1024 bytes and none of the fields of the server; sanitising
  again changes nothing.\<close>

theorem sanitise_safe:
  "result_bounds (sanitiseResult r) \<and> sanitiseResult (sanitiseResult r) = sanitiseResult r \<and>
   ID (sanitiseResult r) = 0 \<and> CreatedAt (sanitiseResult r) = 0 \<and> ClientIPAddr (sanitiseResult r) = [] \<and>
   ClientIPLocation (sanitiseResult r) = [] \<and> UserAgent (sanitiseResult r) = []"
proof -
  have "truncate (truncate t 1024) 1024 = truncate t 1024" for t
    using truncate_length [of t 1024] by (simp add: truncate_def)
  moreover have "grade_ok []" by (simp add: grade_ok_def)
  ultimately have "sanitiseResult (sanitiseResult r) = sanitiseResult r"
    by (simp add: sanitiseResult_def clampFloat_idem)
  then show ?thesis by (simp add: sanitise_bounds) (simp add: sanitiseResult_def)
qed


definition demo_post :: request where
  "demo_post = direct\<lparr>Method := ''POST'', Body := [''{''], BodyEnd := EOF\<rparr>"

definition demo_decode :: "string \<times> read_end \<Rightarrow> json option" where
  "demo_decode s = (if s = (''{'', EOF) then Some (JObj [(''download_mbps'', JNum ''9e9''),
     (''client_ip'', JStr ''6.6.6.6''), (''bufferbloat_grade'', JStr ''S'')]) else None)"

definition demo_parse_float :: "string \<Rightarrow> float64 option" where
  "demo_parse_float l = (if l = ''9e9'' then Some (Fin 9000000000) else None)"

lemma demo_decoded: "decodeResult demo_decode demo_parse_float demo_post =
    Some (result0\<lparr>DownloadMbps := Fin 9000000000, ClientIPAddr := ''6.6.6.6'', BufferbloatGrade := ''S''\<rparr>)"
  by (simp add: decodeResult_def limited_body_def limited_reader_def body_reader_def max_rest_def max_fin_def
      counting_rest_def counting_fin_def body_rest_def body_fin_def demo_post_def demo_decode_def maxResultBody_def
      find_field_def result_fields_def demo_parse_float_def)

lemma demo_client: "ClientIP demo_post = ''203.0.113.5''"
proof -
  have "peer_host demo_post = ''203.0.113.5''" using peer_direct by (simp add: demo_post_def peer_host_def cong: option.case_cong)
  then show ?thesis by (simp add: ClientIP_def untrusted_direct)
qed

definition demo_server_result :: result where
  "demo_server_result = the (server_result (\<lambda>_ _. ''X'') geoip0 1700 demo_post
     (result0\<lparr>DownloadMbps := Fin 9000000000, ClientIPAddr := ''6.6.6.6'', BufferbloatGrade := ''S''\<rparr>))"

lemma demo_created: "\<exists>rep db'. createResult demo_decode demo_parse_float (\<lambda>_ _. ''X'') (sqlite_store mem_engine) geoip0 1700
    (Some demo_empty) demo_post = Some (rep, Some db') \<and> status rep = 201"
  by (simp add: createResult_def demo_decoded server_result_def LocateIP_def geoip0_def sq_Save_def mem_engine_def
      demo_empty_def insert_row_def insert_columns_def insert_args_def result0_def schemaInit_def Let_def
      sanitiseResult_def clampFloat_def IsNaN_def IsInf0_def grade_ok_def demo_client)


text \<open>C36: a listing answers with the page the query asks for, the limit brought into 1 to 100 and the offset
  into 0 to 1000000, the newest first, with the total; it changes nothing. Only an error of the store makes
  it a 500.\<close>

theorem listResults_page:
  assumes "result_store st contents ok" and "ok db" and "all_finite (contents db)"
    and "listResults fmt st (Some db) r = (rep, h')"
    and "limit = clampInt (parseQueryInt r ''limit'' 20) 1 100"
    and "offset = clampInt (parseQueryInt r ''offset'' 0) 0 1000000"
  shows "\<exists>db'. h' = Some db' \<and> ok db' \<and> contents db' = contents db \<and> length (page limit offset (contents db)) \<le> 100 \<and>
    (rep = internalErr \<or>
     rep = writeJSON Map.empty (JObj [(''limit'', jint limit), (''offset'', jint offset),
         (''results'', JArr (map (json_result fmt) (page limit offset (contents db)))),
         (''total'', jint (int (length (contents db))))]))"
proof -
  have "nat limit \<le> 100" using clampInt_range [of 1 100 "parseQueryInt r ''limit'' 20"] assms(5) by (simp add: nat_le_iff)
  then have "length (page limit offset (contents db)) \<le> 100" by (simp add: page_def)
  with result_store.listResults_store [OF assms(1,2,4,3)] show ?thesis
    by (simp add: assms(5,6) Let_def)
qed

definition demo_get :: "(string \<times> string) list \<Rightarrow> request" where
  "demo_get q = direct\<lparr>Method := ''GET'', Query := q\<rparr>"

lemmas demo_db_eval = demo_saved_def sq_Save_def sq_List_def mem_engine_def demo_empty_def insert_row_def
  insert_columns_def insert_args_def demo_result_def result0_def schemaInit_def Let_def select_columns_def
  newest_rows_def col_def scan_row_def persisted_def sq_Count_def

lemma demo_query: "query_Get (demo_get [(''limit'', ''5000'')]) ''limit'' = ''5000''"
  "query_Get (demo_get [(''limit'', ''5000'')]) ''offset'' = []"
  "query_Get (demo_get [(''format'', ''CSV'')]) ''format'' = ''CSV''"
  by (simp_all add: demo_get_def query_Get_def first_value_def)

lemma demo_limit: "parseQueryInt (demo_get [(''limit'', ''5000'')]) ''limit'' 20 = 5000"
  "parseQueryInt (demo_get [(''limit'', ''5000'')]) ''offset'' 0 = 0"
proof -
  have "Atoi ''5000'' = Some 5000" by code_simp
  then show "parseQueryInt (demo_get [(''limit'', ''5000'')]) ''limit'' 20 = 5000"
    and "parseQueryInt (demo_get [(''limit'', ''5000'')]) ''offset'' 0 = 0"
    by (simp_all add: parseQueryInt_def demo_query Let_def)
qed

lemma demo_listed: "status (fst (listResults fmt (sqlite_store mem_engine) (Some demo_saved) (demo_get [(''limit'', ''5000'')]))) = 200"
  by (simp add: listResults_def demo_limit clampInt_def maxListLimit_def maxListOffset_def demo_db_eval
      encode_results_def result_floats_def finite_float_def IsNaN_def IsInf0_def writeJSON_def status_codes)

theorem listResults_page_witness:
  "payload (fst (listResults (\<lambda>_. ''1'') (sqlite_store mem_engine) (Some demo_saved) (demo_get [(''limit'', ''5000'')]))) =
     Json (JObj [(''limit'', jint 100), (''offset'', jint 0),
       (''results'', JArr (map (json_result (\<lambda>_. ''1'')) (page 100 0 (stored_results id demo_saved)))),
       (''total'', jint (int (length (stored_results id demo_saved))))])"
proof -
  let ?l = "listResults (\<lambda>_. ''1'') (sqlite_store mem_engine) (Some demo_saved) (demo_get [(''limit'', ''5000'')])"
  have "all_finite (stored_results id demo_saved)"
    by (simp add: demo_saved_ok(2) all_finite_def result_floats_def persisted_def demo_result_def result0_def
        finite_float_def IsNaN_def IsInf0_def)
  moreover have "?l = (fst ?l, snd ?l)" by (rule surjective_pairing)
  moreover have "100 = clampInt (parseQueryInt (demo_get [(''limit'', ''5000'')]) ''limit'' 20) 1 100"
    and "0 = clampInt (parseQueryInt (demo_get [(''limit'', ''5000'')]) ''offset'' 0) 0 1000000"
    unfolding demo_limit by (simp_all add: clampInt_def)
  ultimately have "fst ?l = internalErr \<or> fst ?l = writeJSON Map.empty (JObj [(''limit'', jint 100), (''offset'', jint 0),
       (''results'', JArr (map (json_result (\<lambda>_. ''1'')) (page 100 0 (stored_results id demo_saved)))),
       (''total'', jint (int (length (stored_results id demo_saved))))])"
    using listResults_page [OF mem.result_store_axioms demo_saved_ok(1)] by blast
  moreover have "fst ?l \<noteq> internalErr"
    using demo_listed [of "\<lambda>_. ''1''"] by (auto simp: internalErr_def status_codes)
  ultimately show ?thesis by (metis reply.select_convs(3) writeJSON_def)
qed

text \<open>C30: a result that was posted is found again: when \<open>POST /api/results\<close> answers 201, the next listing
  without an offset has it as its first entry, under the id the reply named, with the time, the
  address and the location the server gave it, unless the clock has gone back since an earlier result.\<close>

theorem create_then_list:
  assumes "result_store st contents ok" and "ok db" and "list_all result_bounds (contents db)"
    and "createResult decode pf locate st g now_ms (Some db) r = Some (rep, Some db1)" and "status rep = 201"
    and "\<And>y. y \<in> set (contents db) \<Longrightarrow> CreatedAt y \<le> now_ms"
    and "listResults fmt st (Some db1) r' = (rep', h')" and "parseQueryInt r' ''offset'' 0 \<le> 0" and "rep' \<noteq> internalErr"
  shows "\<exists>x rest limit. server_fields locate g now_ms r x \<and>
    payload rep = Json (JObj [(''created_at'', jint now_ms), (''id'', jint (ID x))]) \<and>
    payload rep' = Json (JObj [(''limit'', jint limit), (''offset'', jint 0),
      (''results'', JArr (json_result fmt x # map (json_result fmt) rest)), (''total'', jint (int (length (contents db)) + 1))]) \<and>
    set rest \<subseteq> insert x (set (contents db))"
proof -
  from result_store.createResult_store [OF assms(1,2,4)] assms(5) obtain x where ok1: "ok db1"
    and x: "contents db1 = contents db @ [x]" "server_fields locate g now_ms r x" "result_bounds x"
      "\<forall>y \<in> set (contents db). ID y < ID x"
      "payload rep = Json (JObj [(''created_at'', jint now_ms), (''id'', jint (ID x))])" by auto
  have "all_finite (contents db1)"
    unfolding all_finite_def using assms(3) x(1,3) bounds_finite by (simp add: list_all_iff [of result_bounds] list_all_iff [of "\<lambda>r. list_all finite_float (result_floats r)"])
  from result_store.listResults_store [OF assms(1) ok1 assms(7) this] assms(9)
  have reply: "payload rep' = Json (JObj [(''limit'', jint (clampInt (parseQueryInt r' ''limit'' 20) 1 100)), (''offset'', jint 0),
      (''results'', JArr (map (json_result fmt) (page (clampInt (parseQueryInt r' ''limit'' 20) 1 100) 0 (contents db1)))),
      (''total'', jint (int (length (contents db1))))])"
    using assms(8) by (auto simp: Let_def writeJSON_def clampInt_def)
  obtain ys where ys: "newest (contents db1) = x # ys" "set ys \<subseteq> insert x (set (contents db))"
    using newest_snoc [of "contents db" x] assms(6) x by (auto simp: server_fields_def)
  define limit where "limit = clampInt (parseQueryInt r' ''limit'' 20) 1 100"
  have "0 < nat limit" using clampInt_range [of 1 100] by (simp add: limit_def) (metis less_le_trans zero_less_one)
  then have "page limit 0 (contents db1) = x # take (nat limit - 1) ys"
    by (cases "nat limit") (simp_all add: page_def ys(1))
  with reply x ys(2) show ?thesis
    by (intro exI [of _ x] exI [of _ "take (nat limit - 1) ys"] exI [of _ limit])
       (auto simp: ac_simps simp flip: limit_def dest!: in_set_takeD)
qed

definition demo_created_db :: "table option" where
  "demo_created_db = snd (sq_Save mem_engine 1700 demo_server_result demo_empty)"

lemma demo_server_result_eval: "server_result (\<lambda>_ _. ''X'') geoip0 1700 demo_post
    (result0\<lparr>DownloadMbps := Fin 9000000000, ClientIPAddr := ''6.6.6.6'', BufferbloatGrade := ''S''\<rparr>) = Some demo_server_result"
  by (simp add: demo_server_result_def server_result_def LocateIP_def geoip0_def Let_def)

lemmas demo_server_eval = demo_server_result_def server_result_def LocateIP_def geoip0_def sanitiseResult_def
  clampFloat_def IsNaN_def IsInf0_def grade_ok_def demo_client

lemma demo_created_db: "\<exists>rep. createResult demo_decode demo_parse_float (\<lambda>_ _. ''X'') (sqlite_store mem_engine) geoip0 1700
    (Some demo_empty) demo_post = Some (rep, Some demo_created_db) \<and> status rep = 201"
  unfolding createResult_def option.case demo_decoded demo_server_result_eval
  by (simp add: demo_created_db_def sqlite_store_def sq_Save_def mem_engine_def demo_empty_def insert_row_def insert_columns_def
      insert_args_def result0_def schemaInit_def Let_def demo_server_eval created_def status_codes)

lemma demo_created_listed: "fst (listResults (\<lambda>_. ''1'') (sqlite_store mem_engine) (Some demo_created_db)
    (demo_get [(''limit'', ''5000'')])) \<noteq> internalErr"
  by (simp add: listResults_def demo_limit clampInt_def maxListLimit_def maxListOffset_def demo_db_eval demo_created_db_def
      demo_server_eval encode_results_def result_floats_def finite_float_def writeJSON_def internalErr_def writeErr_def status_codes)

theorem create_then_list_witness:
  "\<exists>x rest limit. ClientIPAddr x = ''203.0.113.5'' \<and>
     payload (fst (listResults (\<lambda>_. ''1'') (sqlite_store mem_engine) (Some demo_created_db) (demo_get [(''limit'', ''5000'')]))) =
     Json (JObj [(''limit'', jint limit), (''offset'', jint 0),
       (''results'', JArr (json_result (\<lambda>_. ''1'') x # map (json_result (\<lambda>_. ''1'')) rest)), (''total'', jint 1)])"
proof -
  let ?l = "listResults (\<lambda>_. ''1'') (sqlite_store mem_engine) (Some demo_created_db) (demo_get [(''limit'', ''5000'')])"
  obtain rep where c: "createResult demo_decode demo_parse_float (\<lambda>_ _. ''X'') (sqlite_store mem_engine) geoip0 1700
    (Some demo_empty) demo_post = Some (rep, Some demo_created_db)" and st: "status rep = 201" using demo_created_db by blast
  have empty: "stored_results id demo_empty = []" by (simp add: stored_results_def demo_empty_def table_results_def)
  have "?l = (fst ?l, snd ?l)" by (rule surjective_pairing)
  from create_then_list [OF mem.result_store_axioms demo_empty_ok _ c st _ this _ demo_created_listed] empty
  show ?thesis by (auto simp: demo_limit server_fields_def demo_client)
qed



end
