(* ===== verification/Admission.thy ===== *)
theory Admission
  imports Go_Prelude
begin

text \<open>
  The concurrency semaphore of \<open>handler.go\<close> with its counters, and the metrics registry of
  \<open>metrics_handler.go\<close> the operations report to. First the operations as the code composes them,
  then the same operations as the atomic steps of concurrent requests, with the invariant that ties
  the semaphore, the counters and the requests together.
\<close>

section \<open>The metrics registry\<close>

text \<open>
  The Prometheus client is a library: the registry is the list of calls made on each of its vectors.
  The documented value of a counter is the sum of what was added under its labels.
\<close>

record metricsRegistry =
  totalTests :: "(string \<times> int) list"
  bytesTransferred :: "(string \<times> int) list"
  testDuration :: "int list"
  httpRequestsTotal :: "((string \<times> string \<times> string) \<times> int) list"

definition counter_value :: "('l \<times> int) list \<Rightarrow> 'l \<Rightarrow> int" where
  "counter_value calls l = sum_list (map snd (filter (\<lambda>(k, _). k = l) calls))"

lemma counter_value_simps [simp]:
  "counter_value [] l = 0"
  "counter_value (calls @ [(k, v)]) l = counter_value calls l + (if k = l then v else 0)"
  by (simp_all add: counter_value_def)

definition newMetricsRegistry :: metricsRegistry where
  "newMetricsRegistry = \<lparr>totalTests = [(''accepted'', 0), (''rejected'', 0)],
     bytesTransferred = [(''up'', 0), (''down'', 0)], testDuration = [], httpRequestsTotal = []\<rparr>"

definition recordAdmission :: "bool \<Rightarrow> metricsRegistry \<Rightarrow> metricsRegistry" where
  "recordAdmission accepted m =
     (if accepted then m\<lparr>totalTests := totalTests m @ [(''accepted'', 1)]\<rparr>
      else m\<lparr>totalTests := totalTests m @ [(''rejected'', 1)]\<rparr>)"

text \<open>\<open>(*metricsRegistry).ObserveTest\<close>; durations are in nanoseconds.\<close>

definition reg_ObserveTest :: "string \<Rightarrow> int \<Rightarrow> int \<Rightarrow> metricsRegistry \<Rightarrow> metricsRegistry" where
  "reg_ObserveTest direction bytes elapsed m =
     (let m = (if 0 < bytes then m\<lparr>bytesTransferred := bytesTransferred m @ [(direction, bytes)]\<rparr> else m)
      in m\<lparr>testDuration := testDuration m @ [elapsed]\<rparr>)"

definition observeRequest :: "string \<Rightarrow> string \<Rightarrow> string \<Rightarrow> metricsRegistry \<Rightarrow> metricsRegistry" where
  "observeRequest meth path status m =
     m\<lparr>httpRequestsTotal := httpRequestsTotal m @ [((meth, path, status), 1)]\<rparr>"

section \<open>The semaphore and its counters\<close>

text \<open>\<open>sem\<close> is a buffered channel: its capacity and the number of elements in it. \<open>metrics\<close> is nil
  when no registry is wired in.\<close>

record admission =
  sem_cap :: nat
  sem_len :: nat
  acceptedTotal :: int
  rejectedTotal :: int
  metrics :: "metricsRegistry option"

definition new_admission :: "int \<Rightarrow> admission" where
  "new_admission MaxConcurrent =
     (let maxConcurrent = (if MaxConcurrent \<le> 0 then 10 else MaxConcurrent)
      in \<lparr>sem_cap = nat maxConcurrent, sem_len = 0, acceptedTotal = 0, rejectedTotal = 0,
          metrics = Some newMetricsRegistry\<rparr>)"

definition with_metrics :: "(metricsRegistry \<Rightarrow> metricsRegistry) \<Rightarrow> admission \<Rightarrow> admission" where
  "with_metrics f a = a\<lparr>metrics := map_option f (metrics a)\<rparr>"

definition reserve :: "admission \<Rightarrow> admission" where
  "reserve a = a\<lparr>sem_len := sem_len a + 1\<rparr>"

definition count_accepted :: "admission \<Rightarrow> admission" where
  "count_accepted a = a\<lparr>acceptedTotal := acceptedTotal a + 1\<rparr>"

definition count_rejected :: "admission \<Rightarrow> admission" where
  "count_rejected a = a\<lparr>rejectedTotal := rejectedTotal a + 1\<rparr>"

definition acquire :: "admission \<Rightarrow> bool \<times> admission" where
  "acquire a =
     (if sem_len a < sem_cap a
      then (True, with_metrics (recordAdmission True) (count_accepted (reserve a)))
      else (False, with_metrics (recordAdmission False) (count_rejected a)))"

text \<open>\<open><-h.sem\<close>; on an empty channel it would block, which never happens (lemma
  \<open>release_never_blocks\<close>).\<close>

definition release :: "admission \<Rightarrow> admission" where
  "release a = a\<lparr>sem_len := sem_len a - 1\<rparr>"

definition ObserveTest :: "string \<Rightarrow> int \<Rightarrow> int \<Rightarrow> admission \<Rightarrow> admission" where
  "ObserveTest direction bytes elapsed a = with_metrics (reg_ObserveTest direction bytes elapsed) a"

text \<open>\<open>WithLabelValues\<close> panics on a label value the vector does not accept; \<open>label_ok\<close> is its test, a panic is \<open>None\<close>.\<close>

definition ObserveRequest :: "(string \<Rightarrow> bool) \<Rightarrow> string \<Rightarrow> string \<Rightarrow> string \<Rightarrow> admission \<Rightarrow> admission option" where
  "ObserveRequest label_ok meth path status a =
     (if metrics a = None then Some a
      else if list_all label_ok [meth, path, status] then Some (with_metrics (observeRequest meth path status) a)
      else None)"

lemmas admission_ops = reserve_def count_accepted_def count_rejected_def release_def ObserveTest_def
  ObserveRequest_def with_metrics_def reg_ObserveTest_def recordAdmission_def observeRequest_def

lemma ObserveRequest_None: "ObserveRequest label_ok m p s a = None \<longleftrightarrow> metrics a \<noteq> None \<and> \<not> list_all label_ok [m, p, s]"
  by (simp add: ObserveRequest_def)

lemma ObserveRequest_Some:
  "ObserveRequest label_ok m p s a = Some a' \<Longrightarrow>
     a' = with_metrics (observeRequest m p s) a \<and> (metrics a \<noteq> None \<longrightarrow> list_all label_ok [m, p, s])"
  by (auto simp: ObserveRequest_def with_metrics_def split: if_splits)

lemma with_metrics_simps [simp]:
  "sem_len (with_metrics f a) = sem_len a" "sem_cap (with_metrics f a) = sem_cap a"
  "acceptedTotal (with_metrics f a) = acceptedTotal a" "rejectedTotal (with_metrics f a) = rejectedTotal a"
  "metrics (with_metrics f a) = map_option f (metrics a)"
  by (simp_all add: with_metrics_def)

section \<open>Concurrent requests\<close>

text \<open>
  Each request that passes the method check is a thread; its position in the handler is a \<open>pc\<close>. The
  channel operation, the two atomic counters and the calls on the registry are the atomic steps. A
  test ends with \<open>ObserveTest\<close> and \<open>release\<close>, both deferred, so also when the body returns early.
\<close>

datatype pc = Arrived | Reserved | Admitted | Testing | Observed | Refused | Turned | Served | Rejected

record system =
  adm :: admission
  threads :: "pc list"

inductive sem_step :: "system \<Rightarrow> system \<Rightarrow> bool" where
  arrive: "sem_step s (s\<lparr>threads := threads s @ [Arrived]\<rparr>)"
| send: "i < length (threads s) \<Longrightarrow> threads s ! i = Arrived \<Longrightarrow> sem_len (adm s) < sem_cap (adm s) \<Longrightarrow>
    sem_step s \<lparr>adm = reserve (adm s), threads = (threads s)[i := Reserved]\<rparr>"
| full: "i < length (threads s) \<Longrightarrow> threads s ! i = Arrived \<Longrightarrow> \<not> sem_len (adm s) < sem_cap (adm s) \<Longrightarrow>
    sem_step s \<lparr>adm = adm s, threads = (threads s)[i := Refused]\<rparr>"
| accepted: "i < length (threads s) \<Longrightarrow> threads s ! i = Reserved \<Longrightarrow>
    sem_step s \<lparr>adm = count_accepted (adm s), threads = (threads s)[i := Admitted]\<rparr>"
| record_accepted: "i < length (threads s) \<Longrightarrow> threads s ! i = Admitted \<Longrightarrow>
    sem_step s \<lparr>adm = with_metrics (recordAdmission True) (adm s), threads = (threads s)[i := Testing]\<rparr>"
| rejected: "i < length (threads s) \<Longrightarrow> threads s ! i = Refused \<Longrightarrow>
    sem_step s \<lparr>adm = count_rejected (adm s), threads = (threads s)[i := Turned]\<rparr>"
| record_rejected: "i < length (threads s) \<Longrightarrow> threads s ! i = Turned \<Longrightarrow>
    sem_step s \<lparr>adm = with_metrics (recordAdmission False) (adm s), threads = (threads s)[i := Rejected]\<rparr>"
| observe: "i < length (threads s) \<Longrightarrow> threads s ! i = Testing \<Longrightarrow>
    sem_step s \<lparr>adm = ObserveTest d n t (adm s), threads = (threads s)[i := Observed]\<rparr>"
| receive: "i < length (threads s) \<Longrightarrow> threads s ! i = Observed \<Longrightarrow> 0 < sem_len (adm s) \<Longrightarrow>
    sem_step s \<lparr>adm = release (adm s), threads = (threads s)[i := Served]\<rparr>"

inductive_cases sem_stepE: "sem_step s t"

definition sem_init :: "system \<Rightarrow> bool" where
  "sem_init s \<longleftrightarrow> (\<exists>n. s = \<lparr>adm = new_admission n, threads = []\<rparr>)"

text \<open>Which threads hold a slot, and which have been counted where.\<close>

definition holds :: "pc \<Rightarrow> bool" where
  "holds p \<longleftrightarrow> p \<in> {Reserved, Admitted, Testing, Observed}"

definition counted_in :: "pc \<Rightarrow> bool" where
  "counted_in p \<longleftrightarrow> p \<in> {Admitted, Testing, Observed, Served}"

definition recorded_in :: "pc \<Rightarrow> bool" where
  "recorded_in p \<longleftrightarrow> p \<in> {Testing, Observed, Served}"

definition counted_out :: "pc \<Rightarrow> bool" where
  "counted_out p \<longleftrightarrow> p \<in> {Turned, Rejected}"

definition recorded_out :: "pc \<Rightarrow> bool" where
  "recorded_out p \<longleftrightarrow> p = Rejected"

definition tested :: "pc \<Rightarrow> bool" where
  "tested p \<longleftrightarrow> p \<in> {Observed, Served}"

lemmas pc_classes = holds_def counted_in_def recorded_in_def counted_out_def recorded_out_def tested_def

definition reg_inv :: "pc list \<Rightarrow> metricsRegistry \<Rightarrow> bool" where
  "reg_inv ps m \<longleftrightarrow>
     counter_value (totalTests m) ''accepted'' = int (cnt recorded_in ps) \<and>
     counter_value (totalTests m) ''rejected'' = int (cnt recorded_out ps) \<and>
     length (testDuration m) = cnt tested ps"

definition sem_inv :: "system \<Rightarrow> bool" where
  "sem_inv s \<longleftrightarrow>
     0 < sem_cap (adm s) \<and> sem_len (adm s) \<le> sem_cap (adm s) \<and>
     sem_len (adm s) = cnt holds (threads s) \<and>
     acceptedTotal (adm s) = int (cnt counted_in (threads s)) \<and>
     rejectedTotal (adm s) = int (cnt counted_out (threads s)) \<and>
     (case metrics (adm s) of None \<Rightarrow> True | Some m \<Rightarrow> reg_inv (threads s) m)"

lemma sem_inv_init: "sem_init s \<Longrightarrow> sem_inv s"
  by (auto simp: sem_init_def sem_inv_def new_admission_def newMetricsRegistry_def reg_inv_def
      counter_value_def)

lemma sem_inv_step: "sem_step s t \<Longrightarrow> sem_inv s \<Longrightarrow> sem_inv t"
proof (induction rule: sem_step.induct)
  case (receive i s)
  have "0 < cnt counted_in (threads s)"
    using receive by (intro cnt_pos) (auto simp: pc_classes)
  with receive show ?case
    by (auto simp: sem_inv_def reg_inv_def admission_ops cnt_nat pc_classes Let_def split: option.splits)
qed (auto simp: sem_inv_def reg_inv_def admission_ops cnt_nat pc_classes Let_def split: option.splits)

interpretation sem: machine sem_init sem_step sem_inv
  by unfold_locales (auto intro: sem_inv_init sem_inv_step)

lemma release_never_blocks:
  "sem_inv s \<Longrightarrow> i < length (threads s) \<Longrightarrow> threads s ! i = Observed \<Longrightarrow> 0 < sem_len (adm s)"
  by (auto simp: sem_inv_def pc_classes intro!: cnt_pos)

section \<open>acquire against the atomic steps\<close>

lemma fst_acquire: "fst (acquire a) \<longleftrightarrow> sem_len a < sem_cap a"
  by (simp add: acquire_def)

lemma sem_step_adm:
  "sem_step s t \<Longrightarrow> adm t = a \<Longrightarrow> threads t = ps \<Longrightarrow> sem_step s \<lparr>adm = a, threads = ps\<rparr>"
  by (cases t) simp

lemma acquire_run:
  assumes "i < length (threads s)" and "threads s ! i = Arrived"
  shows "sem_step\<^sup>*\<^sup>* s \<lparr>adm = snd (acquire (adm s)),
    threads = (threads s)[i := if fst (acquire (adm s)) then Testing else Rejected]\<rparr>"
proof (cases "sem_len (adm s) < sem_cap (adm s)")
  case True
  define s1 where "s1 = \<lparr>adm = reserve (adm s), threads = (threads s)[i := Reserved]\<rparr>"
  define s2 where "s2 = \<lparr>adm = count_accepted (reserve (adm s)), threads = (threads s)[i := Admitted]\<rparr>"
  define s3 where "s3 = \<lparr>adm = with_metrics (recordAdmission True) (count_accepted (reserve (adm s))),
    threads = (threads s)[i := Testing]\<rparr>"
  have "sem_step s s1" unfolding s1_def by (rule sem_step.send [OF assms True])
  moreover have "sem_step s1 s2"
    using sem_step.accepted [of i s1] assms by (simp add: s1_def s2_def)
  moreover have "sem_step s2 s3"
    using sem_step.record_accepted [of i s2] assms by (simp add: s2_def s3_def)
  ultimately have "sem_step\<^sup>*\<^sup>* s s3" by (meson rtranclp.rtrancl_refl rtranclp.rtrancl_into_rtrancl)
  with True show ?thesis by (simp add: acquire_def s3_def)
next
  case False
  define s1 where "s1 = \<lparr>adm = adm s, threads = (threads s)[i := Refused]\<rparr>"
  define s2 where "s2 = \<lparr>adm = count_rejected (adm s), threads = (threads s)[i := Turned]\<rparr>"
  define s3 where "s3 = \<lparr>adm = with_metrics (recordAdmission False) (count_rejected (adm s)),
    threads = (threads s)[i := Rejected]\<rparr>"
  have "sem_step s s1" unfolding s1_def by (rule sem_step.full [OF assms False])
  moreover have "sem_step s1 s2"
    using sem_step.rejected [of i s1] assms by (simp add: s1_def s2_def)
  moreover have "sem_step s2 s3"
    using sem_step.record_rejected [of i s2] assms by (simp add: s2_def s3_def)
  ultimately have "sem_step\<^sup>*\<^sup>* s s3" by (meson rtranclp.rtrancl_refl rtranclp.rtrancl_into_rtrancl)
  with False show ?thesis by (simp add: acquire_def s3_def)
qed

section \<open>Progress: every request can finish\<close>

definition finished :: "pc \<Rightarrow> bool" where
  "finished p \<longleftrightarrow> p \<in> {Served, Rejected}"

text \<open>How many steps a request still has in front of it.\<close>

fun pc_rank :: "pc \<Rightarrow> nat" where
  "pc_rank Arrived = 5"
| "pc_rank Reserved = 4"
| "pc_rank Admitted = 3"
| "pc_rank Testing = 2"
| "pc_rank Observed = 1"
| "pc_rank Refused = 2"
| "pc_rank Turned = 1"
| "pc_rank Served = 0"
| "pc_rank Rejected = 0"

lemma rank_update:
  "i < length ps \<Longrightarrow> pc_rank p < pc_rank (ps ! i) \<Longrightarrow>
     sum_list (map pc_rank (ps[i := p])) < sum_list (map pc_rank ps)"
proof -
  assume i: "i < length ps" and r: "pc_rank p < pc_rank (ps ! i)"
  have "map pc_rank ps ! i \<le> sum_list (map pc_rank ps)"
    using i by (intro elem_le_sum_list) simp
  with i r show ?thesis by (simp add: map_update sum_list_update)
qed

lemma thread_step:
  assumes "sem_inv s" and "i < length (threads s)" and "\<not> finished (threads s ! i)"
  shows "\<exists>t. sem_step s t \<and> length (threads t) = length (threads s) \<and>
    sum_list (map pc_rank (threads t)) < sum_list (map pc_rank (threads s))"
proof -
  have *: "\<exists>t. sem_step s t \<and> length (threads t) = length (threads s) \<and>
      sum_list (map pc_rank (threads t)) < sum_list (map pc_rank (threads s))"
    if "sem_step s \<lparr>adm = a, threads = (threads s)[i := p]\<rparr>" and "pc_rank p < pc_rank (threads s ! i)" for a p
    using that rank_update [OF assms(2), of p]
    by (intro exI [of _ "\<lparr>adm = a, threads = (threads s)[i := p]\<rparr>"]) simp
  note i = assms(2)
  show ?thesis
  proof (cases "threads s ! i")
    case Arrived
    show ?thesis
    proof (cases "sem_len (adm s) < sem_cap (adm s)")
      case True
      show ?thesis by (rule * [OF sem_step.send [OF i Arrived True]]) (simp add: Arrived)
    next
      case False
      show ?thesis by (rule * [OF sem_step.full [OF i Arrived False]]) (simp add: Arrived)
    qed
  next
    case Reserved
    show ?thesis by (rule * [OF sem_step.accepted [OF i Reserved]]) (simp add: Reserved)
  next
    case Admitted
    show ?thesis by (rule * [OF sem_step.record_accepted [OF i Admitted]]) (simp add: Admitted)
  next
    case Testing
    show ?thesis by (rule * [OF sem_step.observe [OF i Testing]]) (simp add: Testing)
  next
    case Observed
    show ?thesis
      by (rule * [OF sem_step.receive [OF i Observed release_never_blocks [OF assms(1) i Observed]]])
         (simp add: Observed)
  next
    case Refused
    show ?thesis by (rule * [OF sem_step.rejected [OF i Refused]]) (simp add: Refused)
  next
    case Turned
    show ?thesis by (rule * [OF sem_step.record_rejected [OF i Turned]]) (simp add: Turned)
  qed (use assms(3) in \<open>simp_all add: finished_def\<close>)
qed

lemma drain:
  "sem_inv s \<Longrightarrow> \<exists>t. sem_step\<^sup>*\<^sup>* s t \<and> list_all finished (threads t) \<and> length (threads t) = length (threads s)"
proof (induction "sum_list (map pc_rank (threads s))" arbitrary: s rule: less_induct)
  case less
  show ?case
  proof (cases "list_all finished (threads s)")
    case True
    then show ?thesis by blast
  next
    case False
    then obtain i where "i < length (threads s)" and "\<not> finished (threads s ! i)"
      by (auto simp: list_all_length)
    from thread_step [OF less.prems this] obtain t where t: "sem_step s t"
      and len: "length (threads t) = length (threads s)"
      and less': "sum_list (map pc_rank (threads t)) < sum_list (map pc_rank (threads s))" by blast
    from less.hyps [OF less' sem_inv_step [OF t less.prems]] len t show ?thesis
      by (metis converse_rtranclp_into_rtranclp)
  qed
qed

section \<open>Properties\<close>

text \<open>A run with one slot and two requests: the first is admitted, the second turned away.\<close>

definition demo_run :: system where
  "demo_run = \<lparr>adm = snd (acquire (snd (acquire (new_admission 1)))), threads = [Testing, Rejected]\<rparr>"

lemma demo_start: "sem_init \<lparr>adm = new_admission 1, threads = []\<rparr>"
  by (auto simp: sem_init_def)

lemma demo_reached: "sem_step\<^sup>*\<^sup>* \<lparr>adm = new_admission 1, threads = []\<rparr> demo_run"
proof -
  define s0 where "s0 = \<lparr>adm = new_admission 1, threads = []\<rparr>"
  define s2 where "s2 = \<lparr>adm = new_admission 1, threads = [Arrived, Arrived]\<rparr>"
  define s3 where "s3 = \<lparr>adm = snd (acquire (new_admission 1)), threads = [Testing, Arrived]\<rparr>"
  have "sem_step s0 \<lparr>adm = new_admission 1, threads = [Arrived]\<rparr>"
    using sem_step.arrive [of s0] by (simp add: s0_def)
  moreover have "sem_step \<lparr>adm = new_admission 1, threads = [Arrived]\<rparr> s2"
    using sem_step.arrive [of "\<lparr>adm = new_admission 1, threads = [Arrived]\<rparr>"] by (simp add: s2_def)
  ultimately have "sem_step\<^sup>*\<^sup>* s0 s2" by (meson rtranclp.rtrancl_refl rtranclp.rtrancl_into_rtrancl)
  also have "sem_step\<^sup>*\<^sup>* s2 s3"
    using acquire_run [of 0 s2] by (simp add: s2_def s3_def acquire_def new_admission_def)
  also have "sem_step\<^sup>*\<^sup>* s3 demo_run"
    using acquire_run [of 1 s3]
    by (simp add: s3_def demo_run_def acquire_def new_admission_def admission_ops)
  finally show ?thesis by (simp add: s0_def)
qed

lemmas demo_eval = demo_run_def acquire_def new_admission_def newMetricsRegistry_def admission_ops

text \<open>C13: in every state concurrent requests can reach, the semaphore holds exactly the running tests,
  never more than its capacity, and the two totals count exactly the requests that were let in and
  turned away.\<close>

theorem semaphore_exact:
  assumes "sem_init s" and "sem_step\<^sup>*\<^sup>* s t"
  shows "sem_len (adm t) = cnt holds (threads t) \<and> cnt holds (threads t) \<le> sem_cap (adm t) \<and>
    acceptedTotal (adm t) = int (cnt counted_in (threads t)) \<and>
    rejectedTotal (adm t) = int (cnt counted_out (threads t))"
  using sem.reach_inv [OF assms] by (simp add: sem_inv_def)

theorem semaphore_exact_witness:
  "sem_len (adm demo_run) = 1 \<and> sem_cap (adm demo_run) = 1 \<and> cnt holds (threads demo_run) = 1 \<and>
   rejectedTotal (adm demo_run) = 1"
  using semaphore_exact [OF demo_start demo_reached]
  by (simp add: demo_eval cnt_def pc_classes)

text \<open>Once every request has finished, no slot is left behind, every request was counted once, and
  the metrics agree with the totals of the health probe: nothing is lost under concurrency.\<close>

theorem semaphore_quiescent:
  assumes "sem_init s" and "sem_step\<^sup>*\<^sup>* s t" and "list_all finished (threads t)"
    and "metrics (adm t) = Some m"
  shows "sem_len (adm t) = 0 \<and>
    acceptedTotal (adm t) + rejectedTotal (adm t) = int (length (threads t)) \<and>
    counter_value (totalTests m) ''accepted'' = acceptedTotal (adm t) \<and>
    counter_value (totalTests m) ''rejected'' = rejectedTotal (adm t) \<and>
    int (length (testDuration m)) = acceptedTotal (adm t)"
proof -
  have inv: "sem_inv t" by (rule sem.reach_inv [OF assms(1,2)])
  have fin: "p = Served \<or> p = Rejected" if "p \<in> set (threads t)" for p
    using assms(3) that by (auto simp: list_all_iff finished_def)
  have eq: "cnt P (threads t) = cnt Q (threads t)" if "P Served = Q Served" and "P Rejected = Q Rejected" for P Q
    unfolding cnt_def using fin that by (intro arg_cong [where f = length] filter_cong) auto
  have all: "cnt counted_in (threads t) + cnt counted_out (threads t) = length (threads t)"
    using sum_length_filter_compl [of counted_in "threads t"] eq [of counted_out "\<lambda>p. \<not> counted_in p"]
    by (simp add: cnt_def pc_classes)
  have "cnt holds (threads t) = 0" using fin by (intro cnt_none) (auto simp: pc_classes)
  moreover have "cnt recorded_in (threads t) = cnt counted_in (threads t)"
    and "cnt recorded_out (threads t) = cnt counted_out (threads t)"
    and "cnt tested (threads t) = cnt counted_in (threads t)"
    by (auto intro!: eq simp: pc_classes)
  ultimately show ?thesis using inv all assms(4) by (simp add: sem_inv_def reg_inv_def flip: of_nat_add)
qed

definition demo_end :: system where
  "demo_end = \<lparr>adm = release (ObserveTest ''down'' 42 7 (adm demo_run)), threads = [Served, Rejected]\<rparr>"

lemma demo_end_reached: "sem_step\<^sup>*\<^sup>* \<lparr>adm = new_admission 1, threads = []\<rparr> demo_end"
proof -
  define s where "s = \<lparr>adm = ObserveTest ''down'' 42 7 (adm demo_run), threads = [Observed, Rejected]\<rparr>"
  have "sem_step demo_run s"
    using sem_step.observe [of 0 demo_run "''down''" 42 7] by (simp add: s_def demo_run_def)
  moreover have "sem_step s demo_end"
    using sem_step.receive [of 0 s] by (simp add: s_def demo_end_def demo_eval)
  ultimately show ?thesis using demo_reached by (meson rtranclp.rtrancl_into_rtrancl)
qed

theorem semaphore_quiescent_witness:
  "sem_len (adm demo_end) = 0 \<and> acceptedTotal (adm demo_end) + rejectedTotal (adm demo_end) = 2 \<and>
   counter_value (totalTests (the (metrics (adm demo_end)))) ''rejected'' = 1"
proof -
  have "list_all finished (threads demo_end)" by (simp add: demo_end_def finished_def)
  moreover have "metrics (adm demo_end) = Some (the (metrics (adm demo_end)))"
    by (simp add: demo_end_def demo_eval)
  ultimately have "sem_len (adm demo_end) = 0 \<and>
    acceptedTotal (adm demo_end) + rejectedTotal (adm demo_end) = int (length (threads demo_end)) \<and>
    counter_value (totalTests (the (metrics (adm demo_end)))) ''rejected'' = rejectedTotal (adm demo_end)"
    using semaphore_quiescent [OF demo_start demo_end_reached] by blast
  then show ?thesis by (simp add: demo_end_def demo_eval)
qed

text \<open>No request can get stuck: from every reachable state all requests can run to their end,
  without new ones arriving (the receive in \<open>release\<close> always finds its slot).\<close>

theorem requests_can_drain:
  assumes "sem_init s" and "sem_step\<^sup>*\<^sup>* s t"
  shows "\<exists>u. sem_step\<^sup>*\<^sup>* t u \<and> list_all finished (threads u) \<and> length (threads u) = length (threads t)"
  by (rule drain [OF sem.reach_inv [OF assms]])

theorem requests_can_drain_witness:
  "\<exists>u. sem_step\<^sup>*\<^sup>* demo_run u \<and> list_all finished (threads u) \<and> length (threads u) = 2"
  using requests_can_drain [OF demo_start demo_reached] by (simp add: demo_run_def numeral_2_eq_2)

text \<open>\<open>acquire\<close> as the code writes it is a run of the atomic steps of one request, and it refuses
  exactly when all slots are taken.\<close>

theorem acquire_refines:
  assumes "i < length (threads s)" and "threads s ! i = Arrived"
  shows "sem_step\<^sup>*\<^sup>* s \<lparr>adm = snd (acquire (adm s)),
      threads = (threads s)[i := if sem_len (adm s) < sem_cap (adm s) then Testing else Rejected]\<rparr>"
  using acquire_run [OF assms] by (simp add: fst_acquire)

theorem acquire_refines_witness:
  "sem_step\<^sup>*\<^sup>* \<lparr>adm = new_admission 0, threads = [Served, Arrived]\<rparr>
     \<lparr>adm = snd (acquire (new_admission 0)), threads = [Served, Testing]\<rparr>"
  using acquire_refines [of 1 "\<lparr>adm = new_admission 0, threads = [Served, Arrived]\<rparr>"]
  by (simp add: new_admission_def)

end
