(* ===== verification/Ratelimit.thy ===== *)
theory Ratelimit
  imports Http Complex_Main
begin

text \<open>
  \<open>internal/handler/ratelimit_handler.go\<close>: one token bucket per client address, created on first use
  and evicted when idle. The bucket is \<open>golang.org/x/time/rate\<close>, a library: its operations are an
  argument, and the documented behaviour of a token bucket is the hypothesis \<open>token_bucket\<close>. A
  \<open>*rate.Limiter\<close> is a pointer, so the buckets live in a heap and the map holds addresses.
\<close>

section \<open>The library\<close>

text \<open>\<open>NewLimiter\<close> takes the tokens per minute and the burst.\<close>

record ('b, 'r) rate_lib =
  NewLimiter :: "int \<Rightarrow> int \<Rightarrow> 'b"
  ReserveN :: "'b \<Rightarrow> int \<Rightarrow> int \<Rightarrow> 'r \<times> 'b"
  OK :: "'r \<Rightarrow> bool"
  DelayFrom :: "'r \<Rightarrow> int \<Rightarrow> int"
  CancelAt :: "'r \<Rightarrow> int \<Rightarrow> 'b \<Rightarrow> 'b"

text \<open>
  A token bucket: \<open>tokens b t\<close> is what it holds at time \<open>t\<close>. It starts full, fills at its rate up to
  the burst, a reservation takes a token (a debt if there is none, and then a delay), and cancelling a
  delayed reservation at once gives it back.
\<close>

definition refilled :: "int \<Rightarrow> rat \<Rightarrow> int \<Rightarrow> rat" where
  "refilled per_min x dt = min (of_int per_min) (x + of_int per_min * of_int dt / of_int (60 * Second))"

definition token_bucket :: "('b, 'r) rate_lib \<Rightarrow> ('b \<Rightarrow> int) \<Rightarrow> ('b \<Rightarrow> int \<Rightarrow> rat) \<Rightarrow> bool" where
  "token_bucket lib per_min tokens \<longleftrightarrow>
     (\<forall>n t. 0 < n \<longrightarrow> per_min (NewLimiter lib n n) = n \<and> tokens (NewLimiter lib n n) t = of_int n) \<and>
     (\<forall>b t t'. 0 < per_min b \<longrightarrow> t \<le> t' \<longrightarrow> tokens b t' = refilled (per_min b) (tokens b t) (t' - t)) \<and>
     (\<forall>b t res b'. 0 < per_min b \<longrightarrow> ReserveN lib b t 1 = (res, b') \<longrightarrow>
        OK lib res \<and> per_min b' = per_min b \<and> tokens b' t = tokens b t - 1 \<and>
        (if 1 \<le> tokens b t then DelayFrom lib res t = 0
         else 0 < DelayFrom lib res t \<and> per_min (CancelAt lib res t b') = per_min b \<and>
              tokens (CancelAt lib res t b') t = tokens b t))"

section \<open>The limiter\<close>

definition ratelimitGCInterval :: int where "ratelimitGCInterval = 60 * Second"
definition ratelimitIdleTTL :: int where "ratelimitIdleTTL = 15 * 60 * Second"

definition rateLimitedPaths :: "string list" where
  "rateLimitedPaths = [''/api/download'', ''/api/upload'', ''/api/ping'']"

record 'b rateLimiter =
  ratePerMin :: int
  limiters :: "string \<rightharpoonup> nat"
  lastSeen :: "string \<rightharpoonup> int"
  stopped :: bool
  buckets :: "nat \<Rightarrow> 'b option"
  next_addr :: nat

definition newRateLimiter :: "int \<Rightarrow> 'b rateLimiter option" where
  "newRateLimiter n = (if n \<le> 0 then None
     else Some \<lparr>ratePerMin = n, limiters = Map.empty, lastSeen = Map.empty, stopped = False,
       buckets = (\<lambda>_. None), next_addr = 0\<rparr>)"

text \<open>\<open>stop\<close> closes the channel unless it is closed; also on nil.\<close>

definition stop :: "'b rateLimiter option \<Rightarrow> 'b rateLimiter option" where
  "stop rl = map_option (\<lambda>rl. if stopped rl then rl else rl\<lparr>stopped := True\<rparr>) rl"

definition gc :: "int \<Rightarrow> int \<Rightarrow> 'b rateLimiter \<Rightarrow> 'b rateLimiter" where
  "gc t ttl rl =
     (let cutoff = t - ttl;
          old = (\<lambda>ip. case lastSeen rl ip of None \<Rightarrow> False | Some seen \<Rightarrow> seen < cutoff)
      in rl\<lparr>lastSeen := (\<lambda>ip. if old ip then None else lastSeen rl ip),
            limiters := (\<lambda>ip. if old ip then None else limiters rl ip)\<rparr>)"

definition limiterFor :: "('b, 'r) rate_lib \<Rightarrow> string \<Rightarrow> int \<Rightarrow> 'b rateLimiter \<Rightarrow> nat \<times> 'b rateLimiter" where
  "limiterFor lib ip t rl =
     (let rl = rl\<lparr>lastSeen := (lastSeen rl)(ip \<mapsto> t)\<rparr> in
      case limiters rl ip of
        Some l \<Rightarrow> (l, rl)
      | None \<Rightarrow>
          (let l = next_addr rl in
           (l, rl\<lparr>limiters := (limiters rl)(ip \<mapsto> l), next_addr := l + 1,
                   buckets := (buckets rl)(l := Some (NewLimiter lib (ratePerMin rl) (ratePerMin rl)))\<rparr>)))"

definition set_bucket :: "nat \<Rightarrow> 'b \<Rightarrow> 'b rateLimiter \<Rightarrow> 'b rateLimiter" where
  "set_bucket a b rl = rl\<lparr>buckets := (buckets rl)(a := Some b)\<rparr>"

text \<open>The decision on the bucket behind a pointer.\<close>

definition take_token :: "('b, 'r) rate_lib \<Rightarrow> nat \<Rightarrow> int \<Rightarrow> 'b rateLimiter \<Rightarrow> (bool \<times> int) \<times> 'b rateLimiter" where
  "take_token lib a t rl =
     (case buckets rl a of
        None \<Rightarrow> ((False, Second), rl)
      | Some b \<Rightarrow>
          (case ReserveN lib b t 1 of (res, b') \<Rightarrow>
             (let rl = set_bucket a b' rl in
              if \<not> OK lib res then ((False, Second), rl)
              else (let delay = DelayFrom lib res t in
                    if 0 < delay then ((False, delay), set_bucket a (CancelAt lib res t b') rl)
                    else ((True, 0), rl)))))"

definition allow :: "('b, 'r) rate_lib \<Rightarrow> string \<Rightarrow> int \<Rightarrow> 'b rateLimiter \<Rightarrow> (bool \<times> int) \<times> 'b rateLimiter" where
  "allow lib ip t rl = (case limiterFor lib ip t rl of (a, rl) \<Rightarrow> take_token lib a t rl)"

text \<open>The reply to a request that is not allowed. \<open>Retry-After\<close> is in whole seconds, rounded up.\<close>

definition retry_seconds :: "int \<Rightarrow> int" where
  "retry_seconds d = (let secs = - ((- d) div Second) in if secs < 1 then 1 else secs)"

definition too_many :: "int \<Rightarrow> reply" where
  "too_many retryAfter = \<lparr>status = StatusTooManyRequests,
     headers = [''Retry-After'' \<mapsto> Itoa (retry_seconds retryAfter), ''Content-Type'' \<mapsto> ''application/json''],
     payload = Json (JObj [(''error'', JStr ''rate limit exceeded'')])\<rparr>"

lemma retry_seconds: "0 < d \<Longrightarrow> 1 \<le> retry_seconds d \<and> d \<le> retry_seconds d * Second \<and> (retry_seconds d - 1) * Second < d"
  by (simp add: retry_seconds_def Second_def Let_def) linarith

section \<open>The maps and the heap\<close>

definition rl_inv :: "'b rateLimiter \<Rightarrow> bool" where
  "rl_inv rl \<longleftrightarrow> 0 < ratePerMin rl \<and> (\<forall>ip. limiters rl ip = None \<longleftrightarrow> lastSeen rl ip = None) \<and>
     (\<forall>ip a. limiters rl ip = Some a \<longrightarrow> a < next_addr rl \<and> buckets rl a \<noteq> None) \<and>
     (\<forall>ip ip' a. limiters rl ip = Some a \<longrightarrow> limiters rl ip' = Some a \<longrightarrow> ip = ip')"

text \<open>
  The steps of concurrent requests and of the collector: looking up the limiter of an address and
  collecting are critical sections; the token is taken outside, on a pointer the request got earlier,
  which may have been evicted since.
\<close>

inductive rl_step :: "('b, 'r) rate_lib \<Rightarrow> 'b rateLimiter \<Rightarrow> 'b rateLimiter \<Rightarrow> bool" for lib where
  lookup: "rl_step lib rl (snd (limiterFor lib ip t rl))"
| token: "a < next_addr rl \<Longrightarrow> rl_step lib rl (snd (take_token lib a t rl))"
| collect: "rl_step lib rl (gc t ttl rl)"

definition rl_init :: "'b rateLimiter \<Rightarrow> bool" where
  "rl_init rl \<longleftrightarrow> (\<exists>n. newRateLimiter n = Some rl)"

lemma rl_inv_init: "rl_init rl \<Longrightarrow> rl_inv rl"
  by (auto simp: rl_init_def newRateLimiter_def rl_inv_def split: if_splits)

lemma rl_inv_limiterFor: "rl_inv rl \<Longrightarrow> rl_inv (snd (limiterFor lib ip t rl))"
  by (auto simp: rl_inv_def limiterFor_def Let_def less_Suc_eq split: option.split)
     (metis not_None_eq)

lemma set_bucket_inv: "rl_inv rl \<Longrightarrow> rl_inv (set_bucket a b rl)"
  by (auto simp: rl_inv_def set_bucket_def)

lemma rl_inv_take_token: "rl_inv rl \<Longrightarrow> rl_inv (snd (take_token lib a t rl))"
  by (auto simp: take_token_def Let_def set_bucket_inv split: option.split prod.split)

lemma rl_inv_gc: "rl_inv rl \<Longrightarrow> rl_inv (gc t ttl rl)"
  by (auto simp: rl_inv_def gc_def Let_def split: option.splits if_splits)

lemma rl_inv_step: "rl_step lib rl rl' \<Longrightarrow> rl_inv rl \<Longrightarrow> rl_inv rl'"
  by (induction rule: rl_step.induct) (simp_all add: rl_inv_limiterFor rl_inv_take_token rl_inv_gc)

interpretation rl: machine rl_init "rl_step lib" rl_inv for lib
  by unfold_locales (auto intro: rl_inv_init rl_inv_step)

section \<open>Counting the requests that pass\<close>

datatype rl_event = Request string int | Collect int

fun event_time :: "rl_event \<Rightarrow> int" where
  "event_time (Request ip t) = t"
| "event_time (Collect t) = t"

text \<open>A run: the decisions, with address and time, and the limiter at the end.\<close>

fun rl_run :: "('b, 'r) rate_lib \<Rightarrow> int \<Rightarrow> rl_event list \<Rightarrow> 'b rateLimiter \<Rightarrow> (string \<times> int \<times> bool) list" where
  "rl_run lib ttl [] rl = []"
| "rl_run lib ttl (Request ip t # es) rl =
     (case allow lib ip t rl of ((ok, _), rl') \<Rightarrow> (ip, t, ok) # rl_run lib ttl es rl')"
| "rl_run lib ttl (Collect t # es) rl = rl_run lib ttl es (gc t ttl rl)"

definition granted :: "string \<Rightarrow> (string \<times> int \<times> bool) list \<Rightarrow> nat" where
  "granted ip ds = length (filter (\<lambda>(i, _, ok). i = ip \<and> ok) ds)"

text \<open>Events in the order of their times, between two times.\<close>

fun in_window :: "int \<Rightarrow> int \<Rightarrow> rl_event list \<Rightarrow> bool" where
  "in_window t0 t1 [] = (t0 \<le> t1)"
| "in_window t0 t1 (e # es) = (t0 \<le> event_time e \<and> in_window (event_time e) t1 es)"

text \<open>What an address has left, and the condition on the buckets that makes it meaningful.\<close>

definition avail :: "('b \<Rightarrow> int \<Rightarrow> rat) \<Rightarrow> 'b rateLimiter \<Rightarrow> string \<Rightarrow> int \<Rightarrow> rat" where
  "avail tokens rl ip t = (case limiters rl ip of None \<Rightarrow> of_int (ratePerMin rl)
     | Some a \<Rightarrow> (case buckets rl a of None \<Rightarrow> 0 | Some b \<Rightarrow> tokens b t))"

definition filled :: "('b \<Rightarrow> int) \<Rightarrow> ('b \<Rightarrow> int \<Rightarrow> rat) \<Rightarrow> int \<Rightarrow> 'b rateLimiter \<Rightarrow> bool" where
  "filled per_min tokens t rl \<longleftrightarrow>
     (\<forall>ip a. limiters rl ip = Some a \<longrightarrow>
        (\<exists>b s. buckets rl a = Some b \<and> lastSeen rl ip = Some s \<and> s \<le> t \<and> per_min b = ratePerMin rl \<and>
           0 \<le> tokens b s \<and> tokens b s \<le> of_int (ratePerMin rl)))"

lemma Second_pos: "0 < (of_int (60 * Second) :: rat)"
  by (simp add: Second_def)

lemma refilled_mono:
  assumes "0 < n" and "0 \<le> d" and "x \<le> of_int n" and "0 \<le> x"
  shows "x \<le> refilled n x d" and "0 \<le> refilled n x d" and "refilled n x d \<le> of_int n"
    and "refilled n x d \<le> x + of_int n * of_int d / of_int (60 * Second)"
proof -
  have "0 \<le> of_int n * of_int d / (of_int (60 * Second) :: rat)"
    using assms Second_pos by (intro divide_nonneg_pos mult_nonneg_nonneg) simp_all
  then show "x \<le> refilled n x d" and "0 \<le> refilled n x d" and "refilled n x d \<le> of_int n"
    and "refilled n x d \<le> x + of_int n * of_int d / of_int (60 * Second)"
    using assms by (simp_all add: refilled_def)
qed

lemma refilled_full:
  assumes "0 < n" and "60 * Second \<le> d" and "0 \<le> x"
  shows "refilled n x d = of_int n"
proof -
  have "of_int n * of_int (60 * Second) \<le> of_int n * (of_int d :: rat)"
    using assms by (intro mult_left_mono) (simp_all only: of_int_le_iff of_int_0_le_iff)
  then have "of_int n \<le> of_int n * of_int d / (of_int (60 * Second) :: rat)"
    using Second_pos by (simp only: pos_le_divide_eq)
  then show ?thesis using assms(3) by (simp add: refilled_def)
qed

lemma bucket_law:
  assumes "token_bucket lib per_min tokens"
  shows "0 < n \<Longrightarrow> per_min (NewLimiter lib n n) = n"
    and "0 < n \<Longrightarrow> tokens (NewLimiter lib n n) t = of_int n"
    and "t \<le> t' \<Longrightarrow> 0 < per_min b \<Longrightarrow> tokens b t' = refilled (per_min b) (tokens b t) (t' - t)"
  using assms by (simp_all add: token_bucket_def)

lemma reserve_law:
  assumes "token_bucket lib per_min tokens" and "0 < per_min b" and "ReserveN lib b t 1 = (res, b')"
  shows "OK lib res" and "per_min b' = per_min b" and "tokens b' t = tokens b t - 1"
    and "if 1 \<le> tokens b t then DelayFrom lib res t = 0
         else 0 < DelayFrom lib res t \<and> per_min (CancelAt lib res t b') = per_min b \<and>
              tokens (CancelAt lib res t b') t = tokens b t"
  using assms unfolding token_bucket_def by blast+

text \<open>What the bucket of an address holds at a later time.\<close>

lemma avail_later:
  assumes tb: "token_bucket lib per_min tokens" and f: "filled per_min tokens t rl" and "rl_inv rl" and "t \<le> u"
  shows "0 \<le> avail tokens rl ip u" and "avail tokens rl ip u \<le> of_int (ratePerMin rl)"
    and "avail tokens rl ip u \<le> avail tokens rl ip t + of_int (ratePerMin rl) * of_int (u - t) / of_int (60 * Second)"
proof -
  have n: "0 < ratePerMin rl" using assms(3) by (simp add: rl_inv_def)
  have "0 \<le> avail tokens rl ip u \<and> avail tokens rl ip u \<le> of_int (ratePerMin rl) \<and>
    avail tokens rl ip u \<le> avail tokens rl ip t + of_int (ratePerMin rl) * of_int (u - t) / of_int (60 * Second)"
  proof (cases "limiters rl ip")
    case None
    have "0 \<le> of_int (ratePerMin rl) * of_int (u - t) / (of_int (60 * Second) :: rat)"
      using n assms(4) Second_pos by (intro divide_nonneg_pos mult_nonneg_nonneg) simp_all
    with None n show ?thesis by (simp add: avail_def)
  next
    case (Some a)
    with f obtain b s where b: "buckets rl a = Some b" "s \<le> t" "per_min b = ratePerMin rl" "0 \<le> tokens b s"
      "tokens b s \<le> of_int (ratePerMin rl)" by (force simp: filled_def)
    have t: "tokens b t = refilled (ratePerMin rl) (tokens b s) (t - s)"
      using bucket_law(3) [OF tb b(2)] b(3) n by simp
    have u: "tokens b u = refilled (ratePerMin rl) (tokens b t) (u - t)"
      using bucket_law(3) [OF tb assms(4)] b(3) n by simp
    have "0 \<le> tokens b t" and "tokens b t \<le> of_int (ratePerMin rl)"
      using refilled_mono [OF n, of "t - s" "tokens b s"] b by (simp_all add: t)
    with refilled_mono [OF n, of "u - t" "tokens b t"] assms(4) show ?thesis
      by (simp add: avail_def Some b(1) u)
  qed
  then show "0 \<le> avail tokens rl ip u" and "avail tokens rl ip u \<le> of_int (ratePerMin rl)"
    and "avail tokens rl ip u \<le> avail tokens rl ip t + of_int (ratePerMin rl) * of_int (u - t) / of_int (60 * Second)"
    by blast+
qed

text \<open>The limiter of an address after a lookup, and the others.\<close>

lemma limiterFor_effect:
  assumes tb: "token_bucket lib per_min tokens" and inv: "rl_inv rl" and f: "filled per_min tokens t rl"
    and "t \<le> u" and l: "limiterFor lib ip u rl = (a, rl1)"
  shows "rl_inv rl1" and "ratePerMin rl1 = ratePerMin rl" and "limiters rl1 ip = Some a" and "lastSeen rl1 ip = Some u"
    and "\<exists>b. buckets rl1 a = Some b \<and> per_min b = ratePerMin rl \<and> tokens b u = avail tokens rl ip u"
    and "\<And>i. i \<noteq> ip \<Longrightarrow> limiters rl1 i = limiters rl i \<and> lastSeen rl1 i = lastSeen rl i \<and>
      (\<forall>c. limiters rl i = Some c \<longrightarrow> buckets rl1 c = buckets rl c \<and> c \<noteq> a)"
proof -
  have n: "0 < ratePerMin rl" using inv by (simp add: rl_inv_def)
  show "rl_inv rl1" using rl_inv_limiterFor [OF inv, of lib ip u] l by simp
  show "ratePerMin rl1 = ratePerMin rl" and "limiters rl1 ip = Some a" and "lastSeen rl1 ip = Some u"
    using l by (auto simp: limiterFor_def Let_def split: option.splits)
  show "\<exists>b. buckets rl1 a = Some b \<and> per_min b = ratePerMin rl \<and> tokens b u = avail tokens rl ip u"
  proof (cases "limiters rl ip")
    case None
    with l n bucket_law(1,2) [OF tb] show ?thesis by (auto simp: limiterFor_def Let_def avail_def)
  next
    case (Some c)
    with f obtain b where "buckets rl c = Some b" "per_min b = ratePerMin rl" by (force simp: filled_def)
    with l Some show ?thesis by (auto simp: limiterFor_def Let_def avail_def)
  qed
  show "limiters rl1 i = limiters rl i \<and> lastSeen rl1 i = lastSeen rl i \<and>
      (\<forall>c. limiters rl i = Some c \<longrightarrow> buckets rl1 c = buckets rl c \<and> c \<noteq> a)" if "i \<noteq> ip" for i
  proof -
    have lt: "c < next_addr rl" if "limiters rl i = Some c" for c using that inv by (simp add: rl_inv_def)
    show ?thesis
      using l that inv by (auto simp: limiterFor_def Let_def rl_inv_def split: option.splits dest: lt)
  qed
qed

lemma take_token_effect:
  assumes tb: "token_bucket lib per_min tokens" and b: "buckets rl a = Some b" "0 < per_min b"
    and tk: "take_token lib a u rl = ((ok, d), rl1)"
  shows "\<exists>b'. rl1 = set_bucket a b' rl \<and> per_min b' = per_min b \<and>
    tokens b' u = tokens b u - (if ok then 1 else 0) \<and> (ok \<longleftrightarrow> 1 \<le> tokens b u) \<and> (ok \<or> 0 < d)"
proof -
  obtain res b1 where r: "ReserveN lib b u 1 = (res, b1)" by (cases "ReserveN lib b u 1")
  note law = reserve_law [OF tb b(2) r]
  have "set_bucket a x (set_bucket a y rl) = set_bucket a x rl" for x y by (simp add: set_bucket_def)
  then show ?thesis
    using tk b(1) r law
    by (cases "1 \<le> tokens b u") (auto simp: take_token_def Let_def split: if_splits)
qed

lemma allow_effect:
  assumes tb: "token_bucket lib per_min tokens" and inv: "rl_inv rl" and f: "filled per_min tokens t rl"
    and tu: "t \<le> u" and al: "allow lib ip u rl = ((ok, d), rl1)"
  shows "rl_inv rl1" and "filled per_min tokens u rl1" and "ratePerMin rl1 = ratePerMin rl"
    and "ok \<longleftrightarrow> 1 \<le> avail tokens rl ip u" and "ok \<or> 0 < d"
    and "avail tokens rl1 ip u = avail tokens rl ip u - (if ok then 1 else 0)"
    and "\<And>i v. i \<noteq> ip \<Longrightarrow> avail tokens rl1 i v = avail tokens rl i v"
proof -
  have n: "0 < ratePerMin rl" using inv by (simp add: rl_inv_def)
  obtain a rl0 where l: "limiterFor lib ip u rl = (a, rl0)" by (cases "limiterFor lib ip u rl")
  note le = limiterFor_effect [OF tb inv f tu l]
  obtain b where b: "buckets rl0 a = Some b" "per_min b = ratePerMin rl" "tokens b u = avail tokens rl ip u"
    using le(5) by blast
  have tk: "take_token lib a u rl0 = ((ok, d), rl1)" using al l by (simp add: allow_def)
  obtain b' where b': "rl1 = set_bucket a b' rl0" "per_min b' = per_min b"
    "tokens b' u = tokens b u - (if ok then 1 else 0)" "ok \<longleftrightarrow> 1 \<le> tokens b u" "ok \<or> 0 < d"
    using take_token_effect [OF tb b(1) _ tk] n b(2) by auto
  show "rl_inv rl1" using b'(1) set_bucket_inv [OF le(1)] by simp
  show "ratePerMin rl1 = ratePerMin rl" using b'(1) le(2) by (simp add: set_bucket_def)
  show "ok \<longleftrightarrow> 1 \<le> avail tokens rl ip u" and "ok \<or> 0 < d" using b' b(3) by simp_all
  show "avail tokens rl1 ip u = avail tokens rl ip u - (if ok then 1 else 0)"
    using b' b le(3) by (simp add: avail_def set_bucket_def)
  have later: "0 \<le> avail tokens rl ip u" "avail tokens rl ip u \<le> of_int (ratePerMin rl)"
    using avail_later [OF tb f inv tu] by blast+
  show "avail tokens rl1 i v = avail tokens rl i v" if "i \<noteq> ip" for i v
    using le(6) [OF that] le(2) by (auto simp: avail_def b'(1) set_bucket_def split: option.split)
  show "filled per_min tokens u rl1"
    unfolding filled_def
  proof (intro allI impI)
    fix i c assume c: "limiters rl1 i = Some c"
    show "\<exists>b s. buckets rl1 c = Some b \<and> lastSeen rl1 i = Some s \<and> s \<le> u \<and> per_min b = ratePerMin rl1 \<and>
        0 \<le> tokens b s \<and> tokens b s \<le> of_int (ratePerMin rl1)"
    proof (cases "i = ip")
      case True
      have "c = a" using c True le(3) b'(1) by (simp add: set_bucket_def)
      then show ?thesis
        using True b' b le(2,4) later by (auto simp: set_bucket_def)
    next
      case False
      have "limiters rl i = Some c" using c le(6) [OF False] by (simp add: b'(1) set_bucket_def)
      moreover from this f obtain x s where "buckets rl c = Some x" "lastSeen rl i = Some s" "s \<le> t"
        "per_min x = ratePerMin rl" "0 \<le> tokens x s" "tokens x s \<le> of_int (ratePerMin rl)"
        by (force simp: filled_def)
      ultimately show ?thesis using le(2) le(6) [OF False] tu by (auto simp: b'(1) set_bucket_def)
    qed
  qed
qed

lemma gc_effect:
  assumes tb: "token_bucket lib per_min tokens" and inv: "rl_inv rl" and f: "filled per_min tokens t rl"
    and tu: "t \<le> u" and ttl: "60 * Second \<le> ttl"
  shows "filled per_min tokens u (gc u ttl rl)" and "avail tokens (gc u ttl rl) ip u = avail tokens rl ip u"
proof -
  show "filled per_min tokens u (gc u ttl rl)"
    unfolding filled_def
  proof (intro allI impI)
    fix i a assume a: "limiters (gc u ttl rl) i = Some a"
    then have "limiters rl i = Some a" and "lastSeen (gc u ttl rl) i = lastSeen rl i"
      by (auto simp: gc_def Let_def split: if_splits)
    moreover from this f obtain b s where "buckets rl a = Some b" "lastSeen rl i = Some s" "s \<le> t"
      "per_min b = ratePerMin rl" "0 \<le> tokens b s" "tokens b s \<le> of_int (ratePerMin rl)"
      by (force simp: filled_def)
    moreover have "buckets (gc u ttl rl) = buckets rl" and "ratePerMin (gc u ttl rl) = ratePerMin rl"
      by (simp_all add: gc_def Let_def)
    ultimately show "\<exists>b s. buckets (gc u ttl rl) a = Some b \<and> lastSeen (gc u ttl rl) i = Some s \<and> s \<le> u \<and>
        per_min b = ratePerMin (gc u ttl rl) \<and> 0 \<le> tokens b s \<and> tokens b s \<le> of_int (ratePerMin (gc u ttl rl))"
      using tu by auto
  qed
  show "avail tokens (gc u ttl rl) ip u = avail tokens rl ip u"
  proof (cases "limiters rl ip")
    case None
    then show ?thesis by (simp add: avail_def gc_def Let_def)
  next
    case (Some a)
    with f obtain b s where b: "buckets rl a = Some b" "lastSeen rl ip = Some s" "s \<le> t" "per_min b = ratePerMin rl"
      "0 \<le> tokens b s" by (force simp: filled_def)
    have "tokens b u = of_int (ratePerMin rl)" if "s < u - ttl"
    proof -
      have "60 * Second \<le> u - s" and "s \<le> u" using that ttl b(3) tu by linarith+
      with bucket_law(3) [OF tb this(2), of b] b inv show ?thesis
        by (simp add: refilled_full rl_inv_def)
    qed
    then show ?thesis by (simp add: avail_def gc_def Let_def Some b(1,2))
  qed
qed

lemma in_window_le: "in_window t0 t1 es \<Longrightarrow> t0 \<le> t1"
  by (induction es arbitrary: t0) (auto intro: order_trans)

lemma granted_simps [simp]:
  "granted ip [] = 0" "granted ip ((i, t, ok) # ds) = (if i = ip \<and> ok then 1 else 0) + granted ip ds"
  by (simp_all add: granted_def)

lemma rl_run_bound:
  assumes tb: "token_bucket lib per_min tokens" and ttl: "60 * Second \<le> ttl"
  shows "rl_inv rl \<Longrightarrow> filled per_min tokens t rl \<Longrightarrow> in_window t t1 es \<Longrightarrow>
    of_nat (granted ip (rl_run lib ttl es rl)) \<le>
      avail tokens rl ip t + of_int (ratePerMin rl) * of_int (t1 - t) / of_int (60 * Second)"
proof (induction es arbitrary: rl t)
  case Nil
  have "0 \<le> of_int (ratePerMin rl) * of_int (t1 - t) / (of_int (60 * Second) :: rat)"
    using Nil Second_pos by (intro divide_nonneg_pos mult_nonneg_nonneg) (simp_all add: rl_inv_def)
  with avail_later(1) [OF tb Nil(2,1) order_refl, of ip] show ?case by simp
next
  case (Cons e es)
  define u where "u = event_time e"
  have tu: "t \<le> u" and rest: "in_window u t1 es" using Cons.prems(3) by (simp_all add: u_def)
  note later = avail_later(3) [OF tb Cons.prems(2,1) tu, of ip]
  have sum: "of_int (ratePerMin rl) * of_int (u - t) / of_int (60 * Second) +
      of_int (ratePerMin rl) * of_int (t1 - u) / of_int (60 * Second) =
      (of_int (ratePerMin rl) * of_int (t1 - t) / of_int (60 * Second) :: rat)"
    by (simp add: add_divide_distrib [symmetric] distrib_left [symmetric])
  show ?case
  proof (cases e)
    case (Request i v)
    then have v: "v = u" by (simp add: u_def)
    obtain ok d rl1 where al: "allow lib i u rl = ((ok, d), rl1)" by (metis prod.exhaust)
    note eff = allow_effect [OF tb Cons.prems(1,2) tu al]
    have "of_nat (granted ip (rl_run lib ttl es rl1)) \<le>
        avail tokens rl1 ip u + of_int (ratePerMin rl) * of_int (t1 - u) / of_int (60 * Second)"
      using Cons.IH [OF eff(1,2) rest] eff(3) by simp
    moreover have "avail tokens rl1 ip u = avail tokens rl ip u - (if i = ip \<and> ok then 1 else 0)"
      using eff(6) eff(7) [of ip u] by (cases "i = ip") auto
    ultimately show ?thesis using later sum Request v al by (cases "i = ip \<and> ok") auto
  next
    case (Collect v)
    then have v: "v = u" by (simp add: u_def)
    note eff = gc_effect [OF tb Cons.prems(1,2) tu ttl]
    have "ratePerMin (gc u ttl rl) = ratePerMin rl" by (simp add: gc_def Let_def)
    with Cons.IH [OF rl_inv_gc [OF Cons.prems(1)] eff(1) rest] eff(2) [of ip] later sum Collect v
    show ?thesis by simp
  qed
qed

section \<open>Properties\<close>

text \<open>A token bucket that satisfies the hypothesis: full since ever, or with some tokens at some time.\<close>

datatype bucket = Full int | At int rat int

fun bucket_rate :: "bucket \<Rightarrow> int" where
  "bucket_rate (Full n) = n"
| "bucket_rate (At n x s) = n"

fun bucket_tokens :: "bucket \<Rightarrow> int \<Rightarrow> rat" where
  "bucket_tokens (Full n) t = of_int n"
| "bucket_tokens (At n x s) t = refilled n x (t - s)"

definition bucket_delay :: "bucket \<Rightarrow> int \<Rightarrow> int" where
  "bucket_delay b t = (if 1 \<le> bucket_tokens b t then 0
     else max 1 (\<lceil>(1 - bucket_tokens b t) * of_int (60 * Second) / of_int (bucket_rate b)\<rceil>))"

definition bucket_lib :: "(bucket, int) rate_lib" where
  "bucket_lib = \<lparr>NewLimiter = (\<lambda>n burst. Full n),
     ReserveN = (\<lambda>b t k. (bucket_delay b t, At (bucket_rate b) (bucket_tokens b t - of_int k) t)),
     OK = (\<lambda>_. True), DelayFrom = (\<lambda>d _. d),
     CancelAt = (\<lambda>_ t b. At (bucket_rate b) (bucket_tokens b t + 1) t)\<rparr>"

lemma bucket_le: "0 < bucket_rate b \<Longrightarrow> bucket_tokens b t \<le> of_int (bucket_rate b)"
  by (cases b) (simp_all add: refilled_def)

lemma refilled_0: "x \<le> of_int n \<Longrightarrow> refilled n x 0 = x"
  by (simp add: refilled_def)

lemma refilled_refilled:
  assumes "0 < n" and "0 \<le> e"
  shows "refilled n (refilled n x d) e = refilled n x (d + e)"
proof -
  have "0 \<le> of_int n * of_int e / (of_int (60 * Second) :: rat)"
    using assms Second_pos by (intro divide_nonneg_pos mult_nonneg_nonneg) simp_all
  moreover have "of_int n * of_int (d + e) / (of_int (60 * Second) :: rat) =
      of_int n * of_int d / of_int (60 * Second) + of_int n * of_int e / of_int (60 * Second)"
    by (simp add: add_divide_distrib distrib_left)
  ultimately show ?thesis by (simp add: refilled_def min_def)
qed

lemma refilled_stays: "0 < n \<Longrightarrow> 0 \<le> d \<Longrightarrow> refilled n (of_int n) d = of_int n"
  using refilled_mono(1,3) [of n d "of_int n"] by simp

lemma bucket_lib_laws: "token_bucket bucket_lib bucket_rate bucket_tokens"
  unfolding token_bucket_def
proof (intro conjI allI impI)
  fix b t t' assume "0 < bucket_rate b" and "t \<le> (t' :: int)"
  then show "bucket_tokens b t' = refilled (bucket_rate b) (bucket_tokens b t) (t' - t)"
    by (cases b) (simp_all add: refilled_refilled refilled_stays)
next
  fix b t res b' assume r: "0 < bucket_rate b" and v: "ReserveN bucket_lib b t 1 = (res, b')"
  then have b': "res = bucket_delay b t" "b' = At (bucket_rate b) (bucket_tokens b t - 1) t"
    by (simp_all add: bucket_lib_def)
  have le: "bucket_tokens b t \<le> of_int (bucket_rate b)" by (rule bucket_le [OF r])
  then show "bucket_tokens b' t = bucket_tokens b t - 1" by (simp add: b' refilled_0)
  then show "if 1 \<le> bucket_tokens b t then DelayFrom bucket_lib res t = 0
       else 0 < DelayFrom bucket_lib res t \<and> bucket_rate (CancelAt bucket_lib res t b') = bucket_rate b \<and>
         bucket_tokens (CancelAt bucket_lib res t b') t = bucket_tokens b t"
    using le by (simp add: bucket_lib_def bucket_delay_def b' refilled_0 less_max_iff_disj)
qed (simp_all add: bucket_lib_def)

definition demo_limiter :: "bucket rateLimiter" where
  "demo_limiter = the (newRateLimiter 1)"

lemma demo_limiter: "newRateLimiter 1 = Some demo_limiter"
  by (simp add: demo_limiter_def newRateLimiter_def)

lemma demo_limiter_ok: "rl_init demo_limiter" "rl_inv demo_limiter" "filled bucket_rate bucket_tokens 0 demo_limiter"
  using demo_limiter by (auto simp: rl_init_def) (auto simp: rl_inv_def filled_def demo_limiter_def newRateLimiter_def)



text \<open>Addresses do not share: a request of one address does not touch the bucket of another, and a denied
  request is told a positive waiting time and takes no token.\<close>

theorem rate_limit_isolated:
  assumes "token_bucket lib per_min tokens" and "rl_inv rl" and "filled per_min tokens t rl" and "t \<le> u"
    and "allow lib ip u rl = ((ok, d), rl1)"
  shows "(i \<noteq> ip \<longrightarrow> avail tokens rl1 i v = avail tokens rl i v) \<and>
    (ok \<longleftrightarrow> 1 \<le> avail tokens rl ip u) \<and> avail tokens rl1 ip u = avail tokens rl ip u - (if ok then 1 else 0) \<and>
    (\<not> ok \<longrightarrow> 0 < d \<and> 1 \<le> retry_seconds d \<and> d \<le> retry_seconds d * Second)"
  using allow_effect(4-7) [OF assms] retry_seconds [of d] by blast

theorem rate_limit_isolated_witness:
  "avail bucket_tokens (snd (allow bucket_lib ''a'' 5 demo_limiter)) ''b'' 9 = avail bucket_tokens demo_limiter ''b'' 9"
proof -
  have "allow bucket_lib ''a'' 5 demo_limiter = ((fst (fst (allow bucket_lib ''a'' 5 demo_limiter)),
      snd (fst (allow bucket_lib ''a'' 5 demo_limiter))), snd (allow bucket_lib ''a'' 5 demo_limiter))" by simp
  from rate_limit_isolated [OF bucket_lib_laws demo_limiter_ok(2,3) _ this, of "''b''" 9] show ?thesis by simp
qed

text \<open>In every interleaving of requests and collections both maps have the same addresses, no two
  addresses share a bucket, and no address has a dangling pointer; a collection keeps every address that
  was seen within the idle time.\<close>

theorem limiter_maps_consistent:
  assumes "rl_init rl0" and "(rl_step lib)\<^sup>*\<^sup>* rl0 rl"
  shows "dom (limiters rl) = dom (lastSeen rl) \<and> inj_on (limiters rl) (dom (limiters rl)) \<and>
    (\<forall>ip a. limiters rl ip = Some a \<longrightarrow> buckets rl a \<noteq> None) \<and>
    (\<forall>ip s. lastSeen rl ip = Some s \<longrightarrow> t - ttl \<le> s \<longrightarrow> limiters (gc t ttl rl) ip = limiters rl ip)"
proof -
  have inv: "rl_inv rl" by (rule rl.reach_inv [OF assms])
  then have "dom (limiters rl) = dom (lastSeen rl)" by (auto simp: rl_inv_def dom_def)
  moreover have "inj_on (limiters rl) (dom (limiters rl))"
    using inv unfolding rl_inv_def by (fastforce simp only: inj_on_def dom_def mem_Collect_eq)
  ultimately show ?thesis using inv by (auto simp: rl_inv_def gc_def Let_def)
qed

theorem limiter_maps_consistent_witness:
  "lastSeen (gc 9 3 (snd (limiterFor bucket_lib ''a'' 7 demo_limiter))) ''a'' = Some 7 \<and>
   limiters (gc 9 3 (snd (limiterFor bucket_lib ''a'' 7 demo_limiter))) ''a'' \<noteq> None"
proof -
  let ?rl = "snd (limiterFor bucket_lib ''a'' 7 demo_limiter)"
  have "(rl_step bucket_lib)\<^sup>*\<^sup>* demo_limiter ?rl" by (intro r_into_rtranclp rl_step.lookup)
  note c = limiter_maps_consistent [OF demo_limiter_ok(1) this, of 9 3]
  have s: "lastSeen ?rl ''a'' = Some 7" by (simp add: limiterFor_def Let_def split: option.split)
  then have "limiters ?rl ''a'' \<noteq> None" using c by (metis domI domIff)
  moreover have "limiters (gc 9 3 ?rl) ''a'' = limiters ?rl ''a''" using c s by simp
  moreover have "lastSeen (gc 9 3 ?rl) ''a'' = Some 7" by (simp add: gc_def Let_def s)
  ultimately show ?thesis by simp
qed

end
