(* ===== verification/Response.thy ===== *)
theory Response
  imports Http
begin

text \<open>
  The response side of a request: the connection of \<open>net/http\<close> with its clock, the
  \<open>statusWriter\<close> of \<open>main.go\<close> around it, and the interface of a writer the download loops use.
  Times are nanoseconds on the monotonic clock.
\<close>

section \<open>The connection\<close>

text \<open>
  \<open>sent\<close> is the status line and the headers once they are out, \<open>hdr\<close> the headers set so far, \<open>out\<close>
  the payload bytes accepted. \<open>link\<close> says what the network does with each \<open>Write\<close> to come: the time
  it needs beyond one tick, how many bytes get through before it breaks, and whether it breaks. When
  the list is used up, writes succeed. \<open>dropped\<close>: the handler panicked and \<open>net/http\<close> closed the connection,
  so what was sent but still buffered does not reach the client.
\<close>

record conn =
  sent :: "(int \<times> (string \<rightharpoonup> string)) option"
  hdr :: "string \<rightharpoonup> string"
  out :: nat
  now :: int
  write_deadline :: "int option"
  link :: "(nat \<times> nat \<times> bool) list"
  dropped :: bool

definition Header_Set :: "string \<Rightarrow> string \<Rightarrow> conn \<Rightarrow> conn" where
  "Header_Set k v c = c\<lparr>hdr := (hdr c)(k \<mapsto> v)\<rparr>"

text \<open>\<open>(*http.response).WriteHeader\<close>: the first final status wins; informational ones do not count.\<close>

definition informational :: "int \<Rightarrow> bool" where
  "informational code \<longleftrightarrow> 100 \<le> code \<and> code \<le> 199 \<and> code \<noteq> 101"

definition conn_WriteHeader :: "int \<Rightarrow> conn \<Rightarrow> conn" where
  "conn_WriteHeader code c =
     (if sent c \<noteq> None \<or> informational code then c else c\<lparr>sent := Some (code, hdr c)\<rparr>)"

definition next_link :: "conn \<Rightarrow> nat \<times> nat \<times> bool" where
  "next_link c = (case link c of [] \<Rightarrow> (0, 0, False) | l # _ \<Rightarrow> l)"

text \<open>A write that cannot finish by the write deadline returns at the deadline with an error.\<close>

definition conn_Write :: "nat \<Rightarrow> conn \<Rightarrow> nat \<times> bool \<times> conn" where
  "conn_Write n c =
     (case next_link c of (cost, k, broken) \<Rightarrow>
        let finish = now c + 1 + int cost;
            late = (case write_deadline c of None \<Rightarrow> False | Some d \<Rightarrow> d < finish);
            end_time = (case write_deadline c of Some d \<Rightarrow> if late then max (now c) d else finish | None \<Rightarrow> finish);
            m = (if late \<or> broken then min k n else n)
        in (m, late \<or> broken,
            (conn_WriteHeader 200 c)\<lparr>out := out c + m, now := end_time, link := tl (link c)\<rparr>))"

definition conn_Flush :: "conn \<Rightarrow> conn" where
  "conn_Flush c = conn_WriteHeader 200 c"

definition conn_SetWriteDeadline :: "int \<Rightarrow> conn \<Rightarrow> conn" where
  "conn_SetWriteDeadline d c = c\<lparr>write_deadline := Some d\<rparr>"

text \<open>When the handler returns without having written anything, the status is 200.\<close>

definition conn_finish :: "conn \<Rightarrow> conn" where
  "conn_finish c = conn_WriteHeader 200 c"

definition conn_drop :: "conn \<Rightarrow> conn" where
  "conn_drop c = c\<lparr>dropped := True\<rparr>"

definition client_status :: "conn \<Rightarrow> int option" where
  "client_status c = map_option fst (sent c)"

section \<open>statusWriter (main.go)\<close>

record statusWriter =
  inner :: conn
  sw_status :: int
  bytesSent :: nat
  hdrWritten :: bool

definition new_statusWriter :: "conn \<Rightarrow> statusWriter" where
  "new_statusWriter c = \<lparr>inner = c, sw_status = StatusOK, bytesSent = 0, hdrWritten = False\<rparr>"

definition sw_Header_Set :: "string \<Rightarrow> string \<Rightarrow> statusWriter \<Rightarrow> statusWriter" where
  "sw_Header_Set k v sw = sw\<lparr>inner := Header_Set k v (inner sw)\<rparr>"

definition sw_WriteHeader :: "int \<Rightarrow> statusWriter \<Rightarrow> statusWriter" where
  "sw_WriteHeader code sw =
     (let sw = (if \<not> hdrWritten sw then sw\<lparr>sw_status := code, hdrWritten := True\<rparr> else sw)
      in sw\<lparr>inner := conn_WriteHeader code (inner sw)\<rparr>)"

definition sw_Write :: "nat \<Rightarrow> statusWriter \<Rightarrow> nat \<times> bool \<times> statusWriter" where
  "sw_Write n sw =
     (let sw = (if \<not> hdrWritten sw then sw\<lparr>hdrWritten := True\<rparr> else sw)
      in case conn_Write n (inner sw) of (m, e, c) \<Rightarrow>
           (m, e, sw\<lparr>inner := c, bytesSent := bytesSent sw + m\<rparr>))"

definition sw_Flush :: "statusWriter \<Rightarrow> statusWriter" where
  "sw_Flush sw = sw\<lparr>inner := conn_Flush (inner sw)\<rparr>"

text \<open>\<open>http.NewResponseController(w).SetWriteDeadline\<close> reaches the connection through \<open>Unwrap\<close>.\<close>

definition sw_SetWriteDeadline :: "int \<Rightarrow> statusWriter \<Rightarrow> statusWriter" where
  "sw_SetWriteDeadline d sw = sw\<lparr>inner := conn_SetWriteDeadline d (inner sw)\<rparr>"

definition sw_now :: "statusWriter \<Rightarrow> int" where
  "sw_now sw = now (inner sw)"

section \<open>The interface of a writer\<close>

text \<open>
  What \<open>io.Writer\<close> promises, and what the deadline of the connection adds: time passes, and no write
  returns later than the deadline (or at once when that is already behind).
\<close>

type_synonym 's write_op = "nat \<Rightarrow> 's \<Rightarrow> nat \<times> bool \<times> 's"

locale timed_writer =
  fixes put :: "'s write_op"
    and flush :: "'s \<Rightarrow> 's"
    and clock :: "'s \<Rightarrow> int"
    and deadline :: "'s \<Rightarrow> int option"
    and count :: "'s \<Rightarrow> nat"
  assumes write_le: "put n s = (m, e, s') \<Longrightarrow> m \<le> n"
    and write_full: "put n s = (m, False, s') \<Longrightarrow> m = n"
    and write_count: "put n s = (m, e, s') \<Longrightarrow> count s' = count s + m"
    and write_clock: "put n s = (m, e, s') \<Longrightarrow> clock s \<le> clock s'"
    and write_tick: "put n s = (m, False, s') \<Longrightarrow> clock s < clock s'"
    and write_by: "put n s = (m, e, s') \<Longrightarrow> deadline s = Some d \<Longrightarrow> clock s' \<le> max (clock s) d"
    and write_keeps: "put n s = (m, e, s') \<Longrightarrow> deadline s' = deadline s"
    and flush_count: "count (flush s) = count s"
    and flush_clock: "clock (flush s) = clock s"
    and flush_deadline: "deadline (flush s) = deadline s"

lemma conn_WriteHeader_simps [simp]:
  "out (conn_WriteHeader k c) = out c" "now (conn_WriteHeader k c) = now c"
  "write_deadline (conn_WriteHeader k c) = write_deadline c" "link (conn_WriteHeader k c) = link c"
  "hdr (conn_WriteHeader k c) = hdr c"
  by (simp_all add: conn_WriteHeader_def)

lemma conn_Write_sent: "conn_Write n c = (m, e, c') \<Longrightarrow> sent c' = sent (conn_WriteHeader 200 c)"
  by (auto simp: conn_Write_def Let_def split: prod.splits)

interpretation conn: timed_writer conn_Write conn_Flush now write_deadline out
  by unfold_locales
     (auto simp: conn_Write_def conn_Flush_def Let_def max_def split: prod.splits option.splits if_splits)

lemma sw_Write_inner:
  "sw_Write n sw = (m, e, sw') \<Longrightarrow>
     conn_Write n (inner sw) = (m, e, inner sw') \<and> bytesSent sw' = bytesSent sw + m \<and>
     hdrWritten sw' \<and> sw_status sw' = sw_status sw"
  by (auto simp: sw_Write_def Let_def split: prod.splits if_splits)

interpretation sw: timed_writer sw_Write sw_Flush sw_now "\<lambda>sw. write_deadline (inner sw)" bytesSent
  by unfold_locales
     (auto simp: sw_now_def sw_Flush_def conn_Flush_def
       dest!: sw_Write_inner dest: conn.write_le conn.write_full conn.write_clock conn.write_tick
         conn.write_by conn.write_keeps)

section \<open>The status in the log\<close>

text \<open>The calls a handler can make on its writer.\<close>

datatype w_op = WriteHeader int | Write nat | Flush

fun sw_op :: "w_op \<Rightarrow> statusWriter \<Rightarrow> statusWriter" where
  "sw_op (WriteHeader code) sw = sw_WriteHeader code sw"
| "sw_op (Write n) sw = (case sw_Write n sw of (_, _, sw') \<Rightarrow> sw')"
| "sw_op Flush sw = sw_Flush sw"

definition sw_run :: "w_op list \<Rightarrow> statusWriter \<Rightarrow> statusWriter" where
  "sw_run ops sw = fold sw_op ops sw"

text \<open>What the logging middleware relies on: final codes only, and no \<open>Flush\<close> as long as the handler
  may still set a status (\<open>Flush\<close> sends 200 to the client behind the back of the wrapper).\<close>

fun status_ops :: "bool \<Rightarrow> w_op list \<Rightarrow> bool" where
  "status_ops started [] = True"
| "status_ops started (WriteHeader code # ops) = (\<not> informational code \<and> status_ops True ops)"
| "status_ops started (Write n # ops) = status_ops True ops"
| "status_ops started (Flush # ops) = (started \<and> status_ops started ops)"

text \<open>The wrapper agrees with the connection.\<close>

definition status_agrees :: "statusWriter \<Rightarrow> bool" where
  "status_agrees sw \<longleftrightarrow>
     (if hdrWritten sw then client_status (inner sw) = Some (sw_status sw)
      else sent (inner sw) = None \<and> sw_status sw = 200)"

lemma client_status_WriteHeader:
  "client_status (conn_WriteHeader k c) =
     (if sent c = None then (if informational k then None else Some k) else client_status c)"
  by (simp add: client_status_def conn_WriteHeader_def)

lemma not_informational_200 [simp]: "\<not> informational 200"
  by (simp add: informational_def)

lemma client_status_None: "client_status c = None \<longleftrightarrow> sent c = None"
  by (simp add: client_status_def)

lemma client_status_cong: "sent c' = sent c \<Longrightarrow> client_status c' = client_status c"
  by (simp add: client_status_def)

lemma status_agrees_WriteHeader:
  "status_agrees sw \<Longrightarrow> \<not> informational code \<Longrightarrow>
     status_agrees (sw_WriteHeader code sw) \<and> hdrWritten (sw_WriteHeader code sw)"
  by (auto simp: status_agrees_def sw_WriteHeader_def Let_def client_status_WriteHeader
      simp flip: client_status_None split: if_splits)

lemma status_agrees_Write:
  assumes "status_agrees sw" and "sw_Write n sw = (m, e, sw')"
  shows "status_agrees sw' \<and> hdrWritten sw'"
proof -
  note w = sw_Write_inner [OF assms(2)]
  then have "client_status (inner sw') = client_status (conn_WriteHeader 200 (inner sw))"
    by (intro client_status_cong) (auto dest: conn_Write_sent)
  with w assms(1) show ?thesis
    by (auto simp: status_agrees_def client_status_WriteHeader simp flip: client_status_None split: if_splits)
qed

lemma status_agrees_Flush:
  "status_agrees sw \<Longrightarrow> hdrWritten sw \<Longrightarrow> status_agrees (sw_Flush sw) \<and> hdrWritten (sw_Flush sw)"
  by (auto simp: status_agrees_def sw_Flush_def conn_Flush_def client_status_WriteHeader
      simp flip: client_status_None)

lemma status_agrees_run:
  "status_agrees sw \<Longrightarrow> status_ops (hdrWritten sw) ops \<Longrightarrow> status_agrees (sw_run ops sw)"
proof (induction ops arbitrary: sw)
  case (Cons x ops)
  show ?case
  proof (cases x)
    case (WriteHeader code)
    with Cons.prems status_agrees_WriteHeader [of sw code] show ?thesis
      using Cons.IH [of "sw_WriteHeader code sw"] by (simp add: sw_run_def)
  next
    case (Write n)
    obtain m e sw' where w: "sw_Write n sw = (m, e, sw')" by (cases "sw_Write n sw")
    with Write Cons.prems status_agrees_Write [OF Cons.prems(1) w] show ?thesis
      using Cons.IH [of sw'] by (simp add: sw_run_def)
  next
    case Flush
    with Cons.prems status_agrees_Flush [of sw] show ?thesis
      using Cons.IH [of "sw_Flush sw"] by (auto simp: sw_run_def)
  qed
qed (simp add: sw_run_def)

lemma status_agrees_new: "sent c = None \<Longrightarrow> status_agrees (new_statusWriter c)"
  by (simp add: status_agrees_def new_statusWriter_def status_codes)

lemma status_agrees_finish:
  "status_agrees sw \<Longrightarrow> client_status (conn_finish (inner sw)) = Some (sw_status sw)"
  by (auto simp: status_agrees_def conn_finish_def client_status_WriteHeader simp flip: client_status_None
      split: if_splits)

text \<open>Without the condition it fails: after an early \<open>Flush\<close> the log would show a status the client
  never saw. No handler of the program does this.\<close>

lemma early_Flush_logs_other_status:
  assumes "sent c = None"
  shows "sw_status (sw_run [Flush, WriteHeader 500] (new_statusWriter c)) = 500 \<and>
         client_status (inner (sw_run [Flush, WriteHeader 500] (new_statusWriter c))) = Some 200"
  using assms by (simp add: sw_run_def sw_Flush_def sw_WriteHeader_def new_statusWriter_def conn_Flush_def
      conn_WriteHeader_def client_status_def Let_def)

end
