(* ===== verification/Handler.thy ===== *)
theory Handler
  imports Config Admission Geo_Holder Ratelimit Response Go_IO
begin

text \<open>
  \<open>internal/handler/handler.go\<close> and \<open>health_handler.go\<close>: the handler's state and the endpoints around
  a speed test: configuration, address, ping, download, upload, health and metrics. Times are
  nanoseconds; a handler that writes to the connection takes and returns the \<open>statusWriter\<close>.
\<close>

section \<open>The handler\<close>

record BuildInfo =
  Version :: string
  Commit :: string
  Date :: string

record ('db, 'b) handler =
  cfg :: config
  tests :: admission
  h_store :: "'db option"
  Build :: BuildInfo
  h_geoip :: geo_state
  startedAt :: int
  limiter :: "'b rateLimiter option"

definition New :: "config \<Rightarrow> 'db option \<Rightarrow> int \<Rightarrow> ('db, 'b) handler" where
  "New c s t = \<lparr>cfg = c, tests = new_admission (MaxConcurrent c), h_store = s,
     Build = \<lparr>Version = [], Commit = [], Date = []\<rparr>, h_geoip = geoip0, startedAt = t,
     limiter = newRateLimiter (RatePerMin c)\<rparr>"

definition historyEnabled :: "('db, 'b) handler \<Rightarrow> bool" where
  "historyEnabled h \<longleftrightarrow> h_store h \<noteq> None"

definition versionOrDev :: "('db, 'b) handler \<Rightarrow> string" where
  "versionOrDev h = (if Version (Build h) = [] then ''dev'' else Version (Build h))"

definition commitOrEmpty :: "('db, 'b) handler \<Rightarrow> string" where
  "commitOrEmpty h = (if Commit (Build h) = [] \<or> Commit (Build h) = ''none'' then [] else Commit (Build h))"

definition dateOrEmpty :: "('db, 'b) handler \<Rightarrow> string" where
  "dateOrEmpty h = (if Date (Build h) = [] \<or> Date (Build h) = ''unknown'' then [] else Date (Build h))"

text \<open>\<open>int(d.Seconds())\<close>: whole seconds, towards zero.\<close>

definition whole_seconds :: "int \<Rightarrow> int" where
  "whole_seconds d = (if d < 0 then - ((- d) div Second) else d div Second)"

section \<open>Small endpoints\<close>

definition ConfigHandler :: "('db, 'b) handler \<Rightarrow> request \<Rightarrow> reply" where
  "ConfigHandler h r =
     (if Method r \<noteq> MethodGet then method_not_allowed
      else writeJSON Map.empty (JObj [
        (''mode'', JStr (Mode (cfg h))), (''durationSecs'', jint (whole_seconds (Duration (cfg h)))),
        (''downloadMB'', jint (DownloadMB (cfg h))), (''uploadMB'', jint (UploadMB (cfg h))),
        (''streams'', jint (Streams (cfg h))), (''warmupMs'', jint (WarmupMs (cfg h))),
        (''historyEnabled'', JBool (historyEnabled h)), (''geoipEnabled'', JBool (geoipEnabled (h_geoip h))),
        (''maxConcurrent'', jint (int (sem_cap (tests h)))), (''version'', JStr (versionOrDev h)),
        (''commit'', JStr (commitOrEmpty h)), (''date'', JStr (dateOrEmpty h))]))"

definition IPHandler :: "request \<Rightarrow> reply" where
  "IPHandler r = (if Method r \<noteq> MethodGet then method_not_allowed
     else writeJSON Map.empty (JObj [(''ip'', JStr (ClientIP r))]))"

definition no_store :: "string \<rightharpoonup> string" where
  "no_store = [''Cache-Control'' \<mapsto> ''no-store'']"

definition PingHandler :: "request \<Rightarrow> reply" where
  "PingHandler r = (if Method r \<noteq> MethodGet then method_not_allowed
     else \<lparr>status = StatusOK, headers = no_store, payload = Text ''ok''\<rparr>)"

definition HealthHandler :: "int \<Rightarrow> ('db, 'b) handler \<Rightarrow> request \<Rightarrow> reply" where
  "HealthHandler t h r =
     (if Method r \<noteq> MethodGet then method_not_allowed
      else writeJSON no_store (JObj [
        (''status'', JStr ''ok''), (''uptime_sec'', jint (whole_seconds (t - startedAt h))),
        (''active_tests'', jint (int (sem_len (tests h)))), (''accepted_total'', jint (acceptedTotal (tests h))),
        (''rejected_total'', jint (rejectedTotal (tests h))), (''history_enabled'', JBool (historyEnabled h)),
        (''version'', JStr (versionOrDev h)), (''commit'', JStr (commitOrEmpty h)), (''date'', JStr (dateOrEmpty h))]))"

text \<open>\<open>exposition\<close> is the Prometheus text of a registry and the gauge.\<close>

definition MetricsHandler :: "(metricsRegistry \<Rightarrow> nat \<Rightarrow> reply) \<Rightarrow> ('db, 'b) handler \<Rightarrow> request \<Rightarrow> reply" where
  "MetricsHandler exposition h r =
     (if Method r \<noteq> MethodGet then method_not_allowed
      else (case metrics (tests h) of
              None \<Rightarrow> http_Error Map.empty ''metrics not initialised'' StatusServiceUnavailable
            | Some reg \<Rightarrow> exposition reg (sem_len (tests h))))"

section \<open>Writing a reply\<close>

text \<open>A reply goes out as headers, status and payload; \<open>enc\<close> is the text of a JSON value.\<close>

definition payload_size :: "(json \<Rightarrow> string) \<Rightarrow> payload \<Rightarrow> nat" where
  "payload_size enc p = (case p of Text s \<Rightarrow> length s | Json v \<Rightarrow> length (enc v) + 1 | RandomBytes n \<Rightarrow> nat n)"

definition set_headers :: "(string \<rightharpoonup> string) \<Rightarrow> statusWriter \<Rightarrow> statusWriter" where
  "set_headers h sw = sw\<lparr>inner := (inner sw)\<lparr>hdr := hdr (inner sw) ++ h\<rparr>\<rparr>"

definition send :: "(json \<Rightarrow> string) \<Rightarrow> reply \<Rightarrow> statusWriter \<Rightarrow> statusWriter" where
  "send enc rep sw =
     (let sw = set_headers (headers rep) sw;
          sw = (if status rep = StatusOK then sw else sw_WriteHeader (status rep) sw)
      in case sw_Write (payload_size enc (payload rep)) sw of (_, _, sw) \<Rightarrow> sw)"

section \<open>Download\<close>

definition payloadSize :: int where "payloadSize = 1024 * 1024"
definition maxUploadBytes :: nat where "maxUploadBytes = 10 * 1024 * 1024 * 1024"
definition maxBytesPerStream :: int where "maxBytesPerStream = 1024 * 1024 * 1024"
definition maxDurationSecs :: int where "maxDurationSecs = 300"
definition writeChunk :: nat where "writeChunk = 64 * 1024"
definition writeDeadlineGrace :: int where "writeDeadlineGrace = 2 * Second"

text \<open>The loops of \<open>downloadBySize\<close> and \<open>downloadByTime\<close> over any writer; \<open>None\<close> is a loop that does not
  end. The bytes are those of the shared random buffer, so only their number matters.\<close>

partial_function (option) size_loop :: "'s write_op \<Rightarrow> int \<Rightarrow> int \<Rightarrow> 's \<Rightarrow> (int \<times> 's) option" where
  "size_loop put want written s =
     (if written < want
      then
        (let n = (if i64 (written + payloadSize) > want then want - written else payloadSize)
         in case put (nat n) s of (m, e, s') \<Rightarrow>
              if e then Some (i64 (written + int m), s') else size_loop put want (i64 (written + int m)) s')
      else Some (written, s))"

partial_function (option) time_loop ::
  "'s write_op \<Rightarrow> ('s \<Rightarrow> 's) \<Rightarrow> ('s \<Rightarrow> int) \<Rightarrow> int \<Rightarrow> int \<Rightarrow> 's \<Rightarrow> (int \<times> 's) option" where
  "time_loop put flush clock deadline written s =
     (if clock s < deadline
      then (case put writeChunk s of (m, e, s') \<Rightarrow>
              if e then Some (i64 (written + int m), s')
              else time_loop put flush clock deadline (i64 (written + int m)) (flush s'))
      else Some (written, s))"

definition downloadBySize :: "int \<Rightarrow> statusWriter \<Rightarrow> (int \<times> statusWriter) option" where
  "downloadBySize want sw = size_loop sw_Write want 0 (sw_Header_Set ''Content-Length'' (Itoa want) sw)"

definition downloadByTime :: "int \<Rightarrow> statusWriter \<Rightarrow> (int \<times> statusWriter) option" where
  "downloadByTime duration sw =
     (let deadline = sw_now sw + duration
      in time_loop sw_Write sw_Flush sw_now deadline 0 (sw_SetWriteDeadline (deadline + writeDeadlineGrace) sw))"

text \<open>The number of bytes and the duration a request asks for.\<close>

definition download_bytes :: "config \<Rightarrow> request \<Rightarrow> int" where
  "download_bytes c r =
     (let dflt = i64 (DownloadMB c * 1024 * 1024); b = query_Get r ''bytes''; s = query_Get r ''size'' in
      if b \<noteq> [] then (case Atoi b of None \<Rightarrow> dflt | Some n \<Rightarrow> if 1 \<le> n \<and> n \<le> maxBytesPerStream then n else dflt)
      else if s \<noteq> [] then (case Atoi s of None \<Rightarrow> dflt | Some n \<Rightarrow> if 1 \<le> n \<and> n \<le> 1024 then n * 1024 * 1024 else dflt)
      else dflt)"

definition download_duration :: "config \<Rightarrow> request \<Rightarrow> int" where
  "download_duration c r =
     (let s = query_Get r ''duration'' in
      if s \<noteq> [] then (case Atoi s of None \<Rightarrow> Duration c
                       | Some n \<Rightarrow> if 1 \<le> n \<and> n \<le> maxDurationSecs then n * Second else Duration c)
      else Duration c)"

definition download_headers :: "string \<rightharpoonup> string" where
  "download_headers = [''Content-Type'' \<mapsto> ''application/octet-stream'', ''Cache-Control'' \<mapsto> ''no-store'',
     ''Content-Encoding'' \<mapsto> ''identity'']"

definition download_stream :: "config \<Rightarrow> request \<Rightarrow> statusWriter \<Rightarrow> (int \<times> statusWriter) option" where
  "download_stream c r sw =
     (if query_Get r ''bytes'' \<noteq> [] \<or> query_Get r ''size'' \<noteq> [] then downloadBySize (download_bytes c r) sw
      else if Mode c = ModeTime then downloadByTime (download_duration c r) sw
      else downloadBySize (download_bytes c r) sw)"

definition server_busy :: reply where
  "server_busy = http_Error Map.empty ''server busy'' StatusServiceUnavailable"

text \<open>The deferred calls run in reverse order: first \<open>ObserveTest\<close>, then \<open>release\<close>.\<close>

definition finish_test :: "string \<Rightarrow> int \<Rightarrow> int \<Rightarrow> ('db, 'b) handler \<Rightarrow> ('db, 'b) handler" where
  "finish_test direction bytes elapsed h = h\<lparr>tests := release (ObserveTest direction bytes elapsed (tests h))\<rparr>"

definition DownloadHandler ::
  "(json \<Rightarrow> string) \<Rightarrow> ('db, 'b) handler \<Rightarrow> request \<Rightarrow> statusWriter \<Rightarrow> (('db, 'b) handler \<times> statusWriter) option" where
  "DownloadHandler enc h r sw =
     (if Method r \<noteq> MethodGet then Some (h, send enc method_not_allowed sw)
      else
        (case acquire (tests h) of (got, t) \<Rightarrow>
           (let h = h\<lparr>tests := t\<rparr> in
            if \<not> got then Some (h, send enc server_busy sw)
            else
              (let started = sw_now sw; sw = set_headers download_headers sw in
               case download_stream (cfg h) r sw of
                 None \<Rightarrow> None
               | Some (n, sw) \<Rightarrow> Some (finish_test ''down'' n (sw_now sw - started) h, sw)))))"

section \<open>Upload\<close>

definition limited_Read :: "body_state countingReader maxBytesReader read_op" where
  "limited_Read = max_Read (counting_Read body_Read)"

definition identity_header :: "string \<rightharpoonup> string" where
  "identity_header = [''Content-Encoding'' \<mapsto> ''identity'']"

definition uploaded :: "int \<Rightarrow> int \<Rightarrow> bool \<Rightarrow> reply" where
  "uploaded received ms truncated = writeJSON identity_header
     (JObj ([(''received'', jint received), (''serverElapsedMs'', jint ms)] @
            (if truncated then [(''truncated'', JBool True)] else [])))"

text \<open>\<open>elapsed\<close> is what the copy takes. The number of bytes that came over the wire is returned too: it is
  what the access log reports.\<close>

definition UploadHandler ::
  "('db, 'b) handler \<Rightarrow> request \<Rightarrow> int \<Rightarrow> (reply \<times> ('db, 'b) handler \<times> int) option" where
  "UploadHandler h r elapsed =
     (if Method r \<noteq> MethodPost then Some (method_not_allowed, h, 0)
      else
        (case acquire (tests h) of (got, t) \<Rightarrow>
           (let h = h\<lparr>tests := t\<rparr> in
            if \<not> got then Some (server_busy, h, 0)
            else
              (case Copy_discard limited_Read 0 (limited_reader maxUploadBytes r) of
                 None \<Rightarrow> None
               | Some (n, err, rd) \<Rightarrow>
                   (let h = finish_test ''up'' n elapsed h; recv = bytesRecv (mb_r rd); ms = elapsed div 1000000 in
                    case err of
                      None \<Rightarrow> Some (uploaded n ms False, h, recv)
                    | Some MaxBytesError \<Rightarrow> Some (uploaded n ms True, h, recv)
                    | Some _ \<Rightarrow> Some (http_Error identity_header ''upload failed'' StatusBadRequest, h, recv))))))"

section \<open>RateLimit\<close>

text \<open>The middleware: \<open>next\<close> is the handler it wraps, \<open>t\<close> the time.\<close>

definition RateLimit ::
  "('b, 'r) rate_lib \<Rightarrow> (json \<Rightarrow> string) \<Rightarrow> int \<Rightarrow>
   (('db, 'b) handler \<Rightarrow> request \<Rightarrow> statusWriter \<Rightarrow> 'a) \<Rightarrow> (('db, 'b) handler \<times> statusWriter \<Rightarrow> 'a) \<Rightarrow>
   ('db, 'b) handler \<Rightarrow> request \<Rightarrow> statusWriter \<Rightarrow> 'a" where
  "RateLimit lib enc t next done h r sw =
     (case limiter h of
        None \<Rightarrow> next h r sw
      | Some rl \<Rightarrow>
          if Path r \<notin> set rateLimitedPaths then next h r sw
          else
            (case allow lib (ClientIP r) t rl of
               ((ok, retryAfter), rl) \<Rightarrow>
                 (let h = h\<lparr>limiter := Some rl\<rparr> in
                  if ok then next h r sw else done (h, send enc (too_many retryAfter) sw))))"

end
