(* ===== verification/Speed_Tests.thy ===== *)
theory Speed_Tests
  imports Handler
begin

text \<open>
  What the download and the upload endpoint guarantee: both always return, whatever the network and the
  client do, give their slot back and are counted exactly once; a download sends what was asked for
  within its bounds, and the bytes that are reported are the bytes that went over the wire.
\<close>

section \<open>The download loops return\<close>

text \<open>Both loops over any writer that keeps the contract \<open>timed_writer\<close>. The size loop gains at least one
  byte per round, the time loop at least one tick.\<close>

context timed_writer begin

lemma size_loop_round:
  assumes "0 \<le> written" and "written < want" and "want \<le> 2 ^ 62"
    and "put (nat (if i64 (written + payloadSize) > want then want - written else payloadSize)) s = (m, e, s')"
  shows "written + int m \<le> want \<and> i64 (written + int m) = written + int m \<and> (\<not> e \<longrightarrow> 0 < m)"
proof -
  define n where "n = (if i64 (written + payloadSize) > want then want - written else payloadSize)"
  have "i64 (written + payloadSize) = written + payloadSize"
    using assms(1-3) by (intro i64_id) (simp add: in_i64_def payloadSize_def)
  then have n: "0 < n \<and> written + n \<le> want" using assms(1,2) by (auto simp: n_def payloadSize_def)
  have "int m \<le> n" using write_le [OF assms(4)] n by (auto simp flip: n_def)
  moreover have "i64 (written + int m) = written + int m" if "int m \<le> n"
    using that n assms(1-3) by (intro i64_id) (simp add: in_i64_def)
  moreover have "0 < m" if "\<not> e" using write_full [of "nat n" s m s'] assms(4) that n by (simp flip: n_def)
  ultimately show ?thesis using n by linarith
qed

lemma size_loop_effect:
  assumes "0 \<le> written" and "written \<le> want" and "want \<le> 2 ^ 62"
  shows "\<exists>w s'. size_loop put want written s = Some (w, s') \<and> written \<le> w \<and> w \<le> want \<and>
    int (count s') = int (count s) + (w - written) \<and> clock s \<le> clock s'"
  using assms
proof (induction "nat (want - written)" arbitrary: written s rule: less_induct)
  case less
  show ?case
  proof (cases "written < want")
    case False
    with less.prems show ?thesis by (subst size_loop.simps) simp
  next
    case True
    obtain m e s1 where p: "put (nat (if i64 (written + payloadSize) > want then want - written else payloadSize)) s
        = (m, e, s1)"
      by (metis prod_cases3)
    note r = size_loop_round [OF less.prems(1) True less.prems(3) p]
    show ?thesis
    proof (cases e)
      case True
      with p r less.prems \<open>written < want\<close> write_count [OF p] write_clock [OF p] show ?thesis
        by (subst size_loop.simps) simp
    next
      case False
      with r less.prems have "\<exists>w s'. size_loop put want (written + int m) s1 = Some (w, s') \<and> written + int m \<le> w \<and>
          w \<le> want \<and> int (count s') = int (count s1) + (w - (written + int m)) \<and> clock s1 \<le> clock s'"
        by (intro less.hyps) auto
      with False p r \<open>written < want\<close> write_count [OF p] write_clock [OF p] show ?thesis
        by (subst size_loop.simps) (auto simp: algebra_simps)
    qed
  qed
qed

text \<open>When no write fails everything is sent.\<close>

lemma size_loop_complete:
  assumes "\<And>n s. healthy s \<Longrightarrow> \<exists>s'. put n s = (n, False, s') \<and> healthy s'"
    and "healthy s" and "0 \<le> written" and "written \<le> want" and "want \<le> 2 ^ 62"
  shows "\<exists>s'. size_loop put want written s = Some (want, s')"
  using assms(2-)
proof (induction "nat (want - written)" arbitrary: written s rule: less_induct)
  case less
  show ?case
  proof (cases "written < want")
    case False
    with less.prems show ?thesis by (subst size_loop.simps) simp
  next
    case True
    define n where "n = nat (if i64 (written + payloadSize) > want then want - written else payloadSize)"
    obtain s1 where p: "put n s = (n, False, s1)" and h: "healthy s1"
      using assms(1) [OF less.prems(1)] by blast
    note r = size_loop_round [OF less.prems(2) True less.prems(4) p [unfolded n_def]]
    with less.prems h have "\<exists>s'. size_loop put want (written + int n) s1 = Some (want, s')"
      by (intro less.hyps) (auto simp flip: n_def)
    with True p r show ?thesis
      by (subst size_loop.simps) (simp flip: n_def)
  qed
qed

lemma time_loop_effect:
  assumes "deadline s = Some (stop_at + grace)" and "0 \<le> grace" and "0 \<le> written"
    and "written + int writeChunk * (stop_at - clock s) < 2 ^ 63" and "written < 2 ^ 63"
  shows "\<exists>w s'. time_loop put flush clock stop_at written s = Some (w, s') \<and> written \<le> w \<and>
    w \<le> written + int writeChunk * max 0 (stop_at - clock s) \<and>
    int (count s') = int (count s) + (w - written) \<and> clock s \<le> clock s' \<and>
    clock s' \<le> max (clock s) (stop_at + grace)"
  using assms
proof (induction "nat (stop_at - clock s)" arbitrary: written s rule: less_induct)
  case less
  show ?case
  proof (cases "clock s < stop_at")
    case False
    with less.prems show ?thesis by (subst time_loop.simps) simp
  next
    case True
    obtain m e s1 where p: "put writeChunk s = (m, e, s1)" by (metis prod_cases3)
    have m: "int m \<le> int writeChunk" using write_le [OF p] by simp
    have by1: "clock s1 \<le> max (clock s) (stop_at + grace)" by (rule write_by [OF p less.prems(1)])
    have room: "int writeChunk \<le> int writeChunk * (stop_at - clock s)"
      using True by (simp add: writeChunk_def)
    then have w: "i64 (written + int m) = written + int m"
      using m less.prems(3,4) by (intro i64_id) (simp add: in_i64_def)
    show ?thesis
    proof (cases e)
      case True
      with p w m room less.prems \<open>clock s < stop_at\<close> write_count [OF p] write_clock [OF p] by1 show ?thesis
        by (subst time_loop.simps) simp
    next
      case False
      define s2 where "s2 = flush s1"
      have s2: "clock s2 = clock s1" "count s2 = count s1" "deadline s2 = Some (stop_at + grace)"
        using write_keeps [OF p] less.prems(1)
        by (simp_all add: s2_def flush_clock flush_count flush_deadline)
      have tick: "clock s < clock s1" using write_tick [of writeChunk s m s1] p False by simp
      have "int writeChunk * (stop_at - clock s1) + int writeChunk \<le> int writeChunk * (stop_at - clock s)"
        using tick by (simp add: writeChunk_def)
      then have bound: "int m + int writeChunk * (stop_at - clock s2) \<le> int writeChunk * (stop_at - clock s)"
        using m by (simp add: s2(1))
      then have pos: "int m + int writeChunk * max 0 (stop_at - clock s2) \<le> int writeChunk * max 0 (stop_at - clock s)"
        using m room True by (auto simp: max_def)
      have "\<exists>w s'. time_loop put flush clock stop_at (written + int m) s2 = Some (w, s') \<and> written + int m \<le> w \<and>
          w \<le> written + int m + int writeChunk * max 0 (stop_at - clock s2) \<and>
          int (count s') = int (count s2) + (w - (written + int m)) \<and> clock s2 \<le> clock s' \<and>
          clock s' \<le> max (clock s2) (stop_at + grace)"
        using less.prems s2 tick \<open>clock s < stop_at\<close> bound m room by (intro less.hyps) auto
      then obtain w s' where ws: "time_loop put flush clock stop_at (written + int m) s2 = Some (w, s')"
        "written + int m \<le> w" "w \<le> written + int m + int writeChunk * max 0 (stop_at - clock s2)"
        "int (count s') = int (count s2) + (w - (written + int m))" "clock s2 \<le> clock s'"
        "clock s' \<le> max (clock s2) (stop_at + grace)" by blast
      have "time_loop put flush clock stop_at written s = Some (w, s')"
        using ws(1) False True p w by (subst time_loop.simps) (simp flip: s2_def)
      then show ?thesis
        using ws(2-) pos by1 tick s2 write_count [OF p] less.prems(2) \<open>clock s < stop_at\<close>
        by (intro exI conjI) auto
    qed
  qed
qed

end


text \<open>What every write keeps, the size loop keeps.\<close>

lemma size_loop_keeps:
  assumes step: "\<And>n s m e s'. P s \<Longrightarrow> put n s = (m, e, s') \<Longrightarrow> P s'"
    and run: "size_loop put want written s = Some y" and start: "P s"
  shows "P (snd y)"
proof -
  have "put' = put \<longrightarrow> P s \<longrightarrow> P (snd y)" if "size_loop put' want written s = Some y" for put' want written s y
    using that
  proof (rule size_loop.raw_induct [rotated], intro impI)
    fix f put' want written s y
    assume IH: "\<And>put' want written s y. f put' want written s = Some y \<Longrightarrow> put' = put \<longrightarrow> P s \<longrightarrow> P (snd y)"
      and body: "(if written < want then
          let n = if want < i64 (written + payloadSize) then want - written else payloadSize
          in case put' (nat n) s of (m, e, s') \<Rightarrow>
             if e then Some (i64 (written + int m), s') else f put' want (i64 (written + int m)) s'
        else Some (written, s)) = Some y"
      and p: "put' = put" "P s"
    show "P (snd y)"
    proof (cases "written < want")
      case True
      define n where "n = nat (if want < i64 (written + payloadSize) then want - written else payloadSize)"
      obtain m e s1 where w: "put n s = (m, e, s1)" by (metis prod_cases3)
      have "(if e then Some (i64 (written + int m), s1) else f put want (i64 (written + int m)) s1) = Some y"
        using body True unfolding Let_def n_def [symmetric] p(1) w by simp
      with step [OF p(2) w] IH [of put] show ?thesis by (cases e) auto
    qed (use body p in auto)
  qed
  then show ?thesis using run start by blast
qed

section \<open>What a download may ask for\<close>

lemma download_bytes_range:
  assumes "wf_config c"
  shows "1 \<le> download_bytes c r \<and> download_bytes c r \<le> 10240 * 1024 * 1024"
proof -
  have "1 \<le> DownloadMB c" "DownloadMB c \<le> 10240" using assms by (auto simp: wf_config_def)
  then have "i64 (DownloadMB c * 1024 * 1024) = DownloadMB c * 1024 * 1024"
    by (intro i64_id) (simp add: in_i64_def)
  with \<open>1 \<le> DownloadMB c\<close> \<open>DownloadMB c \<le> 10240\<close> show ?thesis
    by (auto simp: download_bytes_def maxBytesPerStream_def Let_def split: option.splits)
qed

lemma downloadBySize_effect:
  assumes "0 \<le> want" and "want \<le> 2 ^ 62"
  shows "\<exists>n sw'. downloadBySize want sw = Some (n, sw') \<and> 0 \<le> n \<and> n \<le> want \<and>
    int (bytesSent sw') = int (bytesSent sw) + n \<and> sw_now sw \<le> sw_now sw'"
  using sw.size_loop_effect [of 0 want "sw_Header_Set ''Content-Length'' (Itoa want) sw"] assms
  by (simp add: downloadBySize_def sw_Header_Set_def sw_now_def Header_Set_def)

text \<open>The first byte takes the headers along.\<close>

definition announced :: "(string \<rightharpoonup> string) \<Rightarrow> nat \<Rightarrow> statusWriter \<Rightarrow> bool" where
  "announced hs n sw \<longleftrightarrow> hdr (inner sw) = hs \<and>
     (sent (inner sw) = Some (200, hs) \<or> sent (inner sw) = None \<and> bytesSent sw = n)"

lemma announced_Write: "announced hs n sw \<Longrightarrow> sw_Write k sw = (m, e, sw') \<Longrightarrow> announced hs n sw'"
  by (auto simp: announced_def sw_Write_def conn_Write_def conn_WriteHeader_def Let_def split: prod.splits if_splits)

definition untroubled :: "statusWriter \<Rightarrow> bool" where
  "untroubled sw \<longleftrightarrow> link (inner sw) = [] \<and> write_deadline (inner sw) = None"

lemma untroubled_Write: "untroubled sw \<Longrightarrow> \<exists>sw'. sw_Write k sw = (k, False, sw') \<and> untroubled sw'"
  by (auto simp: untroubled_def sw_Write_def conn_Write_def next_link_def Let_def split: prod.splits)

lemma downloadBySize_complete:
  assumes "1 \<le> want" and "want \<le> 2 ^ 62" and "untroubled sw" and "sent (inner sw) = None"
  shows "\<exists>sw'. downloadBySize want sw = Some (want, sw') \<and> int (bytesSent sw') = int (bytesSent sw) + want \<and>
    sent (inner sw') = Some (200, (hdr (inner sw))(''Content-Length'' \<mapsto> Itoa want))"
proof -
  define sw0 where "sw0 = sw_Header_Set ''Content-Length'' (Itoa want) sw"
  define hs where "hs = (hdr (inner sw))(''Content-Length'' \<mapsto> Itoa want)"
  have sw0: "untroubled sw0" "announced hs (bytesSent sw) sw0" "bytesSent sw0 = bytesSent sw"
    using assms(3,4) by (simp_all add: sw0_def hs_def untroubled_def announced_def sw_Header_Set_def Header_Set_def)
  obtain sw' where run: "size_loop sw_Write want 0 sw0 = Some (want, sw')"
    using sw.size_loop_complete [of untroubled sw0 0 want] untroubled_Write sw0(1) assms by auto
  have "announced hs (bytesSent sw) (snd (want, sw'))"
    by (rule size_loop_keeps [where P = "announced hs (bytesSent sw)", OF _ run sw0(2)]) (rule announced_Write)
  moreover have "int (bytesSent sw') = int (bytesSent sw) + want"
    using sw.size_loop_effect [of 0 want sw0] run sw0(3) assms by auto
  ultimately show ?thesis
    using run assms(1) by (intro exI [of _ sw']) (auto simp: downloadBySize_def announced_def hs_def simp flip: sw0_def)
qed

lemma downloadByTime_effect:
  assumes "d \<le> 2 ^ 46"
  shows "\<exists>n sw'. downloadByTime d sw = Some (n, sw') \<and> 0 \<le> n \<and> n \<le> 2 ^ 62 \<and>
    int (bytesSent sw') = int (bytesSent sw) + n \<and> sw_now sw \<le> sw_now sw' \<and>
    sw_now sw' \<le> sw_now sw + max 0 (d + writeDeadlineGrace)"
proof -
  define sw0 where "sw0 = sw_SetWriteDeadline (sw_now sw + d + writeDeadlineGrace) sw"
  have sw0: "write_deadline (inner sw0) = Some (sw_now sw + d + writeDeadlineGrace)" "sw_now sw0 = sw_now sw"
    "bytesSent sw0 = bytesSent sw"
    by (simp_all add: sw0_def sw_SetWriteDeadline_def conn_SetWriteDeadline_def sw_now_def)
  have chunk: "int writeChunk * d \<le> 2 ^ 62" using assms by (simp add: writeChunk_def)
  have "\<exists>n sw'. time_loop sw_Write sw_Flush sw_now (sw_now sw + d) 0 sw0 = Some (n, sw') \<and> 0 \<le> n \<and>
      n \<le> 0 + int writeChunk * max 0 (sw_now sw + d - sw_now sw0) \<and>
      int (bytesSent sw') = int (bytesSent sw0) + (n - 0) \<and> sw_now sw0 \<le> sw_now sw' \<and>
      sw_now sw' \<le> max (sw_now sw0) (sw_now sw + d + writeDeadlineGrace)"
    by (rule sw.time_loop_effect) (use sw0 chunk in \<open>simp_all add: writeDeadlineGrace_def Second_def\<close>)
  moreover have "int writeChunk * max 0 (sw_now sw + d - sw_now sw0) \<le> 2 ^ 62"
    using chunk sw0(2) by (simp add: max_def)
  ultimately show ?thesis
    using sw0 by (auto simp: downloadByTime_def Let_def simp flip: sw0_def)
qed

definition timed :: "config \<Rightarrow> request \<Rightarrow> bool" where
  "timed c r \<longleftrightarrow> query_Get r ''bytes'' = [] \<and> query_Get r ''size'' = [] \<and> Mode c = ModeTime"

lemma download_stream_effect:
  assumes "wf_config c" and "timed c r \<Longrightarrow> download_duration c r \<le> 2 ^ 46"
  shows "\<exists>n sw'. download_stream c r sw = Some (n, sw') \<and> 0 \<le> n \<and>
    n \<le> (if timed c r then 2 ^ 62 else download_bytes c r) \<and>
    int (bytesSent sw') = int (bytesSent sw) + n \<and> sw_now sw \<le> sw_now sw' \<and>
    (timed c r \<longrightarrow> sw_now sw' \<le> sw_now sw + max 0 (download_duration c r + writeDeadlineGrace))"
proof (cases "timed c r")
  case True
  with downloadByTime_effect [OF assms(2) [OF True]] show ?thesis
    by (auto simp: timed_def download_stream_def)
next
  case False
  moreover have "download_stream c r sw = downloadBySize (download_bytes c r) sw"
    using False by (auto simp: timed_def download_stream_def)
  ultimately show ?thesis
    using downloadBySize_effect [of "download_bytes c r" sw] download_bytes_range [OF assms(1), of r] by auto
qed

section \<open>The slot and the counters of a test\<close>

definition test_counted :: "string \<Rightarrow> int \<Rightarrow> admission \<Rightarrow> admission \<Rightarrow> bool" where
  "test_counted direction n a a' \<longleftrightarrow>
     sem_len a' = sem_len a \<and> sem_cap a' = sem_cap a \<and> acceptedTotal a' = acceptedTotal a + 1 \<and>
     rejectedTotal a' = rejectedTotal a \<and>
     (\<forall>m m'. metrics a = Some m \<and> metrics a' = Some m' \<longrightarrow>
        counter_value (bytesTransferred m') direction = counter_value (bytesTransferred m) direction + n \<and>
        counter_value (totalTests m') ''accepted'' = counter_value (totalTests m) ''accepted'' + 1 \<and>
        length (testDuration m') = length (testDuration m) + 1)"

lemma acquire_free: "sem_len a < sem_cap a \<Longrightarrow> fst (acquire a)"
  by (simp add: acquire_def)

lemma acquire_full:
  "\<not> sem_len a < sem_cap a \<Longrightarrow> acquire a = (False, with_metrics (recordAdmission False) (count_rejected a))"
  by (simp add: acquire_def)

lemma test_counted_run:
  assumes "sem_len a < sem_cap a" and "0 \<le> n"
  shows "test_counted d n a (release (ObserveTest d n t (snd (acquire a))))"
  using assms by (auto simp: test_counted_def acquire_def admission_ops Let_def)

lemma finish_test_simps [simp]:
  "tests (finish_test d n t h) = release (ObserveTest d n t (tests h))" "cfg (finish_test d n t h) = cfg h"
  "h_store (finish_test d n t h) = h_store h" "limiter (finish_test d n t h) = limiter h"
  "h_geoip (finish_test d n t h) = h_geoip h"
  by (simp_all add: finish_test_def)

text \<open>Everything of the handler but the counters.\<close>

definition same_but_tests :: "('db, 'b) handler \<Rightarrow> ('db, 'b) handler \<Rightarrow> bool" where
  "same_but_tests h h' \<longleftrightarrow> h'\<lparr>tests := tests h\<rparr> = h"

lemma same_but_tests [simp]:
  "same_but_tests h (h\<lparr>tests := t\<rparr>)" "same_but_tests h (finish_test d n e (h\<lparr>tests := t\<rparr>))"
  by (simp_all add: same_but_tests_def finish_test_def)

lemma DownloadHandler_run:
  assumes "Method r = MethodGet" and "sem_len (tests h) < sem_cap (tests h)"
    and "download_stream (cfg h) r (set_headers download_headers sw) = Some (n, sw')"
  shows "DownloadHandler enc h r sw =
    Some (finish_test ''down'' n (sw_now sw' - sw_now sw) (h\<lparr>tests := snd (acquire (tests h))\<rparr>), sw')"
  using assms by (simp add: DownloadHandler_def Let_def acquire_free split: prod.split) (simp add: acquire_def)

lemma set_headers_simps [simp]:
  "bytesSent (set_headers hs sw) = bytesSent sw" "sw_now (set_headers hs sw) = sw_now sw"
  "hdrWritten (set_headers hs sw) = hdrWritten sw" "sw_status (set_headers hs sw) = sw_status sw"
  by (simp_all add: set_headers_def sw_now_def)

section \<open>Properties of downloads\<close>

definition slow_conn :: conn where
  "slow_conn = \<lparr>sent = None, hdr = Map.empty, out = 0, now = 0, write_deadline = None,
     link = [(10 * 10 ^ 9, 1000, False)], dropped = False\<rparr>"

definition demo_handler :: "(unit, unit) handler" where
  "demo_handler = New defaults None 0"

definition demo_request :: "string \<Rightarrow> (string \<times> string) list \<Rightarrow> string list \<Rightarrow> request" where
  "demo_request meth q body = \<lparr>Method = meth, Path = ''/api/download'', Query = q, Header = [],
     RemoteAddr = ''192.0.2.1:80'', Body = body, BodyEnd = EOF\<rparr>"

lemma demo_handler_simps [simp]:
  "cfg demo_handler = defaults" "sem_len (tests demo_handler) = 0" "sem_cap (tests demo_handler) = 10"
  "acceptedTotal (tests demo_handler) = 0" "metrics (tests demo_handler) = Some newMetricsRegistry"
  by (simp_all add: demo_handler_def New_def defaults_def new_admission_def)

lemma demo_duration: "download_duration defaults (demo_request MethodGet [] b) = 15 * Second"
  by (simp add: download_duration_def demo_request_def query_Get_def first_value_def defaults_def)



text \<open>C28: an admitted download gives its slot back, is counted once, and the bytes the metrics record are
  the bytes that went into the response; outside time mode they are never more than asked for.\<close>

theorem download_effect:
  assumes "wf_config (cfg h)" and "timed (cfg h) r \<Longrightarrow> download_duration (cfg h) r \<le> 2 ^ 46"
    and "Method r = MethodGet" and "sem_len (tests h) < sem_cap (tests h)"
  shows "\<exists>n h' sw'. DownloadHandler enc h r sw = Some (h', sw') \<and> same_but_tests h h' \<and>
    test_counted ''down'' n (tests h) (tests h') \<and>
    int (bytesSent sw') = int (bytesSent sw) + n \<and> (\<not> timed (cfg h) r \<longrightarrow> n \<le> download_bytes (cfg h) r)"
proof -
  obtain n sw' where r: "download_stream (cfg h) r (set_headers download_headers sw) = Some (n, sw')"
    "0 \<le> n" "int (bytesSent sw') = int (bytesSent sw) + n" "\<not> timed (cfg h) r \<longrightarrow> n \<le> download_bytes (cfg h) r"
    using download_stream_effect [OF assms(1,2), of "set_headers download_headers sw"] by (auto split: if_splits)
  show ?thesis
    using r DownloadHandler_run [OF assms(3,4) r(1)] test_counted_run [OF assms(4) r(2)]
    by (intro exI [of _ n] exI conjI) auto
qed

theorem download_effect_witness:
  "\<exists>n h' sw'. DownloadHandler (\<lambda>_. []) demo_handler (demo_request MethodGet [(''bytes'', ''5000'')] [])
     (new_statusWriter slow_conn) = Some (h', sw') \<and> acceptedTotal (tests h') = 1 \<and> n \<le> 5000 \<and>
     int (bytesSent sw') = n"
proof -
  let ?r = "demo_request MethodGet [(''bytes'', ''5000'')] []"
  have q: "query_Get ?r ''bytes'' = ''5000''"
    by (simp add: demo_request_def query_Get_def first_value_def)
  then have t: "\<not> timed (cfg demo_handler) ?r" by (simp add: timed_def)
  have "Atoi ''5000'' = Some 5000" by code_simp
  then have b: "download_bytes (cfg demo_handler) ?r = 5000"
    unfolding download_bytes_def q by (simp add: maxBytesPerStream_def Let_def)
  have "wf_config (cfg demo_handler)" and "Method ?r = MethodGet"
    and "sem_len (tests demo_handler) < sem_cap (tests demo_handler)"
    by (simp_all add: wf_defaults) (simp add: demo_request_def)
  from download_effect [OF this(1) _ this(2,3), of "\<lambda>_. []" "new_statusWriter slow_conn"] t
  obtain n h' sw' where r: "DownloadHandler (\<lambda>_. []) demo_handler ?r (new_statusWriter slow_conn) = Some (h', sw')"
    "test_counted ''down'' n (tests demo_handler) (tests h')" "n \<le> 5000"
    "int (bytesSent sw') = int (bytesSent (new_statusWriter slow_conn)) + n"
    by (auto simp only: b not_False_eq_True simp_thms)
  then show ?thesis
    by (intro exI [of _ n] exI [of _ h'] exI [of _ sw']) (simp add: test_counted_def new_statusWriter_def)
qed

lemma download_bytes_spec:
  assumes "wf_config c"
  shows "download_bytes c r =
    (if query_Get r ''bytes'' \<noteq> []
     then (case Atoi (query_Get r ''bytes'') of
             Some n \<Rightarrow> if 1 \<le> n \<and> n \<le> 2 ^ 30 then n else DownloadMB c * 2 ^ 20 | None \<Rightarrow> DownloadMB c * 2 ^ 20)
     else (case Atoi (query_Get r ''size'') of
             Some n \<Rightarrow> if 1 \<le> n \<and> n \<le> 1024 then n * 2 ^ 20 else DownloadMB c * 2 ^ 20 | None \<Rightarrow> DownloadMB c * 2 ^ 20))"
proof -
  have "1 \<le> DownloadMB c" "DownloadMB c \<le> 10240" using assms by (auto simp: wf_config_def)
  then have "i64 (DownloadMB c * 1024 * 1024) = DownloadMB c * 1024 * 1024"
    by (intro i64_id) (simp add: in_i64_def)
  moreover have "Atoi [] = None" by code_simp
  ultimately show ?thesis
    by (auto simp: download_bytes_def maxBytesPerStream_def Let_def split: option.splits)
qed



section \<open>Properties of uploads\<close>

text \<open>C15: an upload always returns, whatever the body: it reports the smaller of the length of the body and
  ten gigabytes, flags exactly the longer bodies as truncated, answers 400 when reading fails, gives its
  slot back and is counted once; the byte count of the access log is what was read from the connection,
  one more than reported for a truncated body.\<close>

theorem upload_effect:
  assumes "Method r = MethodPost" and "sem_len (tests h) < sem_cap (tests h)" and "BodyEnd r \<noteq> MaxBytesError"
  shows "\<exists>rep h' recv n over. UploadHandler h r elapsed = Some (rep, h', recv) \<and> same_but_tests h h' \<and>
    test_counted ''up'' n (tests h) (tests h') \<and> n = int (min maxUploadBytes (length (concat (Body r)))) \<and>
    (over \<longleftrightarrow> maxUploadBytes < length (concat (Body r))) \<and> recv = n + (if over then 1 else 0) \<and>
    rep = (if over \<or> BodyEnd r = EOF then uploaded n (elapsed div 1000000) over
           else http_Error identity_header ''upload failed'' StatusBadRequest)"
proof -
  define over where "over \<longleftrightarrow> maxUploadBytes < length (concat (Body r))"
  define n where "n = int (min maxUploadBytes (length (concat (Body r))))"
  have "max_ok (counting_ok (\<lambda>_. True)) (limited_reader maxUploadBytes r)"
    by (simp add: max_ok_def counting_ok_def limited_reader_def body_reader_def)
  from limited.Copy_total [OF this, of 0] obtain l where
    copy: "Copy_discard limited_Read 0 (limited_reader maxUploadBytes r) =
      Some (n, if over then Some MaxBytesError else if BodyEnd r = EOF then None else Some (BodyEnd r), l)"
    using assms(3) by (auto simp: limited_Read_def n_def over_def max_rest_def max_fin_def counting_rest_def
        counting_fin_def limited_reader_def body_reader_def body_rest_def body_fin_def min.commute)
  have recv: "bytesRecv (mb_r l) = n + (if over then 1 else 0)"
    using limited_counted [OF assms(3) copy [unfolded limited_Read_def]] by (simp add: n_def over_def)
  have "0 \<le> n" by (simp add: n_def)
  have "UploadHandler h r elapsed = Some (if over \<or> BodyEnd r = EOF then uploaded n (elapsed div 1000000) over
           else http_Error identity_header ''upload failed'' StatusBadRequest,
         finish_test ''up'' n elapsed (h\<lparr>tests := snd (acquire (tests h))\<rparr>), n + (if over then 1 else 0))"
    using assms(1,3) acquire_free [OF assms(2)] copy recv
    by (cases "acquire (tests h)") (auto simp: UploadHandler_def Let_def split: read_end.split)
  moreover have "test_counted ''up'' n (tests h)
      (tests (finish_test ''up'' n elapsed (h\<lparr>tests := snd (acquire (tests h))\<rparr>)))"
    using test_counted_run [OF assms(2) \<open>0 \<le> n\<close>] by simp
  ultimately show ?thesis
    using n_def over_def same_but_tests(2) by (intro exI conjI) (assumption | rule refl)+
qed

theorem upload_effect_witness:
  "\<exists>h'. UploadHandler demo_handler (demo_request MethodPost [] [''abc'', ''de'']) 7000000 =
     Some (uploaded 5 7 False, h', 5) \<and> acceptedTotal (tests h') = 1 \<and> sem_len (tests h') = 0"
proof -
  let ?r = "demo_request MethodPost [] [''abc'', ''de'']"
  have m: "min maxUploadBytes (length (concat (Body ?r))) = 5" "\<not> maxUploadBytes < length (concat (Body ?r))"
    by (simp_all add: demo_request_def maxUploadBytes_def)
  have "Method ?r = MethodPost" "BodyEnd ?r \<noteq> MaxBytesError" "BodyEnd ?r = EOF" by (simp_all add: demo_request_def)
  with upload_effect [of ?r demo_handler 7000000] show ?thesis
    by (auto simp: m test_counted_def)
qed

end
