(* ===== verification/Mux.thy ===== *)
theory Mux
  imports Net_IP Ratelimit
begin

text \<open>
  Routing: the table \<open>buildMux\<close> of \<open>main.go\<close> fills and the part of \<open>http.ServeMux\<close> it uses (literal
  patterns without method or host, and the catch-all \<open>/\<close>). The mux matches the escaped path segment by
  segment and redirects to the cleaned path first; the rate limiter looks at the decoded path. A request
  for \<open>*\<close> never gets this far.
\<close>

section \<open>Percent encoding\<close>

text \<open>\<open>url.PathUnescape\<close>; the mux keeps a segment that is not well formed as it is.\<close>

fun PathUnescape :: "string \<Rightarrow> string option" where
  "PathUnescape [] = Some []"
| "PathUnescape (c # s) =
     (if c = CHR ''%''
      then (case s of
              a # b # t \<Rightarrow>
                (case (hex_digit a, hex_digit b) of
                   (Some x, Some y) \<Rightarrow> map_option (Cons (char_of (16 * x + y))) (PathUnescape t)
                 | _ \<Rightarrow> None)
            | _ \<Rightarrow> None)
      else map_option (Cons c) (PathUnescape s))"

definition unescape_segment :: "string \<Rightarrow> string" where
  "unescape_segment s = (case PathUnescape s of None \<Rightarrow> s | Some u \<Rightarrow> u)"

section \<open>The routes\<close>

datatype route = Static | Favicon | SwJs | ConfigRoute | IPRoute | PingRoute | DownloadRoute | UploadRoute
  | HealthRoute | MetricsRoute | ExportRoute | ResultsRoute | RedirectTo string | NotFound

definition literal_routes :: "(string \<times> route) list" where
  "literal_routes =
     [(''/favicon.ico'', Favicon), (''/sw.js'', SwJs),
      (''/api/config'', ConfigRoute), (''/api/ip'', IPRoute), (''/api/ping'', PingRoute),
      (''/api/download'', DownloadRoute), (''/api/upload'', UploadRoute),
      (''/healthz'', HealthRoute), (''/metrics'', MetricsRoute),
      (''/api/results/export'', ExportRoute), (''/api/results'', ResultsRoute)]"

section \<open>ServeMux\<close>

text \<open>\<open>firstSegment\<close>, repeatedly: the unescaped segments, a trailing slash as a segment of its own.\<close>

definition path_segments :: "string \<Rightarrow> string list" where
  "path_segments p =
     (let ws = split_on CHR ''/'' (tl p)
      in if last ws = [] then map unescape_segment (butlast ws) @ [''/''] else map unescape_segment ws)"

definition match_path :: "string \<Rightarrow> route" where
  "match_path p =
     (if p = [] then NotFound
      else (case find (\<lambda>(pat, _). split_on CHR ''/'' (tl pat) = path_segments p) literal_routes of
              Some (_, rt) \<Rightarrow> rt
            | None \<Rightarrow> Static))"

definition cleanPath :: "string \<Rightarrow> string" where
  "cleanPath p =
     (if p = [] then ''/''
      else
        (let p = (if hd p = CHR ''/'' then p else CHR ''/'' # p); np = Clean p
         in if last p = CHR ''/'' \<and> np \<noteq> ''/'' then np @ ''/'' else np))"

text \<open>\<open>findHandler\<close>: \<open>escaped\<close> is \<open>r.URL.EscapedPath()\<close>. The redirect to a path with a trailing slash
  needs a pattern with one, and there is none but \<open>/\<close>.\<close>

definition findHandler :: "string \<Rightarrow> string \<Rightarrow> route" where
  "findHandler meth escaped =
     (if meth = ''CONNECT'' then match_path escaped
      else
        (let path = cleanPath escaped
         in if path \<noteq> escaped then RedirectTo path else match_path path))"

section \<open>Decoding by segments\<close>

lemma split_on_Cons: "split_on d s = w # ws \<Longrightarrow>
    d \<notin> set w \<and> (if ws = [] then s = w else (\<exists>t. s = w @ d # t \<and> split_on d t = ws))"
proof (induction s arbitrary: w ws)
  case (Cons c s)
  show ?case
  proof (cases "c = d")
    case True
    with Cons.prems show ?thesis by auto
  next
    case False
    obtain v vs where v: "split_on d s = v # vs" by (cases "split_on d s") auto
    with Cons.prems False have "w = c # v" "ws = vs" by auto
    with Cons.IH [OF v] False show ?thesis by auto
  qed
qed simp

lemma hex_digit_slash: "hex_digit CHR ''/'' = None"
  by code_simp

lemma PathUnescape_slash:
  "PathUnescape (s @ CHR ''/'' # t) =
     (case PathUnescape s of None \<Rightarrow> None | Some u \<Rightarrow> map_option (\<lambda>v. u @ CHR ''/'' # v) (PathUnescape t))"
proof (induction s rule: PathUnescape.induct)
  case 1
  then show ?case by (cases "PathUnescape t") auto
next
  case (2 c s)
  show ?case
  proof (cases "c = CHR ''%''")
    case False
    with 2 show ?thesis by (cases "PathUnescape t") (auto split: option.splits)
  next
    case True
    consider "s = []" | a where "s = [a]" | a b u where "s = a # b # u" by (cases s rule: remdups_adj.cases) auto
    then show ?thesis
    proof cases
      case 1
      with True show ?thesis by (cases t) (auto simp: hex_digit_slash split: option.splits)
    next
      case 2
      with True show ?thesis by (auto simp: hex_digit_slash split: option.splits)
    next
      case 3
      with True 2 show ?thesis by (cases "PathUnescape t") (auto split: option.splits)
    qed
  qed
qed

lemma unescape_segment_Some: "PathUnescape s = Some u \<Longrightarrow> unescape_segment s = u"
  by (simp add: unescape_segment_def)

text \<open>What the mux compares with a pattern of two segments is the decoded path.\<close>

lemma two_segments:
  assumes "path_segments p = [a, b]" and "b \<noteq> ''/''" and "PathUnescape p = Some u" and "hd p = CHR ''/''" and "p \<noteq> []"
  shows "u = ''/'' @ a @ ''/'' @ b"
proof -
  obtain rest where p: "p = CHR ''/'' # rest" using assms(4,5) by (cases p) auto
  define ws where "ws = split_on CHR ''/'' rest"
  have nl: "last ws \<noteq> []" and m: "map unescape_segment ws = [a, b]"
    using assms(1,2) by (auto simp: path_segments_def p ws_def Let_def split: if_splits)
  then obtain v w where ws: "ws = [v, w]" "unescape_segment v = a" "unescape_segment w = b"
    by (auto simp: map_eq_Cons_conv)
  have "rest = v @ CHR ''/'' # w"
    using split_on_Cons [of "CHR ''/''" rest v "[w]"] split_on_Cons [of "CHR ''/''" w w "[]"] ws
    by (auto simp: ws_def dest: split_on_Cons)
  with assms(3) p have "PathUnescape (v @ CHR ''/'' # w) = Some (tl u) \<and> u = CHR ''/'' # tl u" by auto
  with ws(2,3) show ?thesis
    by (auto simp: PathUnescape_slash unescape_segment_def split: option.splits)
qed

section \<open>Clean paths\<close>

definition proper_segment :: "string \<Rightarrow> bool" where
  "proper_segment w \<longleftrightarrow> w \<noteq> [] \<and> w \<noteq> ''.'' \<and> w \<noteq> ''..'' \<and> CHR ''/'' \<notin> set w"

lemma proper_no_slash: "proper_segment w \<Longrightarrow> CHR ''/'' \<notin> set w"
  by (simp add: proper_segment_def)

text \<open>A rooted path of proper segments, with or without a slash at the end.\<close>

definition rooted_path :: "string list \<Rightarrow> bool \<Rightarrow> string" where
  "rooted_path cs slash = CHR ''/'' # join ''/'' cs @ (if slash then ''/'' else [])"

lemma split_on_sep_free: "w \<in> set (split_on d s) \<Longrightarrow> d \<notin> set w"
  by (induction s arbitrary: w) (auto split: if_splits list.splits)

lemma clean_comps_proper:
  "list_all proper_segment out \<Longrightarrow> list_all (\<lambda>w. CHR ''/'' \<notin> set w) ws \<Longrightarrow>
     list_all proper_segment (clean_comps True out ws)"
proof (induction True out ws rule: clean_comps.induct)
  case (1 out)
  then show ?case by (simp add: list_all_iff)
next
  case (2 out w ws)
  have "proper_segment w" if "w \<noteq> []" "w \<noteq> ''.''" "w \<noteq> ''..''"
    using "2.prems"(2) that by (simp add: proper_segment_def)
  moreover have "out = [] \<or> hd out \<noteq> ''..''" using "2.prems"(1) by (cases out) (simp_all add: proper_segment_def)
  ultimately show ?case using 2 by (cases out) simp_all
qed

lemma clean_comps_proper_id: "list_all proper_segment cs \<Longrightarrow> clean_comps True out (cs @ ws) = clean_comps True (rev cs @ out) ws"
  by (induction cs arbitrary: out) (auto simp: proper_segment_def)

lemma join_eq_Nil: "list_all proper_segment cs \<Longrightarrow> join ''/'' cs = [] \<longleftrightarrow> cs = []"
  by (cases cs rule: remdups_adj.cases) (auto simp: proper_segment_def)

lemma join_snoc_Nil: "cs \<noteq> [] \<Longrightarrow> join ''/'' (cs @ [[]]) = join ''/'' cs @ ''/''"
  by (induction "''/''" cs rule: join.induct) auto

lemma last_join: "list_all proper_segment cs \<Longrightarrow> cs \<noteq> [] \<Longrightarrow> last (join ''/'' cs) \<noteq> CHR ''/''"
proof (induction "''/''" cs rule: join.induct)
  case (2 w)
  then show ?case by (auto simp: proper_segment_def) (metis last_in_set)
next
  case (3 w v ws)
  then show ?case using join_eq_Nil [of "v # ws"] by auto
qed simp

lemma Clean_rooted: "Clean (CHR ''/'' # s) = CHR ''/'' # join ''/'' (clean_comps True [] (split_on CHR ''/'' s))"
  by (simp add: Clean_def)

lemma split_on_rooted:
  assumes "list_all proper_segment cs" and "cs \<noteq> []"
  shows "split_on CHR ''/'' (join ''/'' cs @ (if slash then ''/'' else [])) = cs @ (if slash then [[]] else [])"
proof -
  have free: "CHR ''/'' \<notin> set w" if "w \<in> set (cs @ [[]])" for w
    using assms(1) that by (auto simp: list_all_iff dest: proper_no_slash)
  have "split_on CHR ''/'' (join ''/'' (cs @ [[]])) = cs @ [[]]" by (rule split_on_join) (simp, rule free)
  moreover have "split_on CHR ''/'' (join ''/'' cs) = cs" by (rule split_on_join) (simp add: assms(2), rule free, simp)
  ultimately show ?thesis using assms(2) by (simp add: join_snoc_Nil)
qed

lemma cleanPath_rooted:
  "\<exists>cs slash. list_all proper_segment cs \<and> (slash \<longrightarrow> cs \<noteq> []) \<and> cleanPath p = rooted_path cs slash"
proof (cases "p = []")
  case True
  then show ?thesis by (intro exI [of _ "[]"] exI [of _ False]) (simp add: cleanPath_def rooted_path_def)
next
  case False
  define s where "s = (if hd p = CHR ''/'' then tl p else p)"
  define cs where "cs = clean_comps True [] (split_on CHR ''/'' s)"
  have p: "(if hd p = CHR ''/'' then p else CHR ''/'' # p) = CHR ''/'' # s" using False by (cases p) (simp_all add: s_def)
  have proper: "list_all proper_segment cs"
    unfolding cs_def by (rule clean_comps_proper) (auto simp: list_all_iff dest: split_on_sep_free)
  define slash where "slash = (last (CHR ''/'' # s) = CHR ''/'' \<and> cs \<noteq> [])"
  have "cleanPath p = rooted_path cs slash"
    using False join_eq_Nil [OF proper] unfolding cleanPath_def p Let_def Clean_rooted cs_def [symmetric] rooted_path_def slash_def
    by simp
  moreover have "slash \<longrightarrow> cs \<noteq> []" by (simp add: slash_def)
  ultimately show ?thesis using proper by blast
qed

lemma cleanPath_id:
  assumes "list_all proper_segment cs" and "slash \<longrightarrow> cs \<noteq> []"
  shows "cleanPath (rooted_path cs slash) = rooted_path cs slash"
proof (cases "cs = []")
  case True
  with assms(2) show ?thesis by (simp add: rooted_path_def) code_simp
next
  case False
  let ?s = "join ''/'' cs @ (if slash then ''/'' else [])"
  have "clean_comps True [] (split_on CHR ''/'' ?s) = cs"
    unfolding split_on_rooted [OF assms(1) False] using clean_comps_proper_id [OF assms(1), of "[]"] by simp
  then have "Clean (rooted_path cs slash) = CHR ''/'' # join ''/'' cs" by (simp add: rooted_path_def Clean_rooted)
  moreover have "last (rooted_path cs slash) = CHR ''/'' \<longleftrightarrow> slash"
    using last_join [OF assms(1) False] join_eq_Nil [OF assms(1)] False by (simp add: rooted_path_def)
  moreover have "hd (rooted_path cs slash) = CHR ''/''" and "rooted_path cs slash \<noteq> []" by (simp_all add: rooted_path_def)
  ultimately show ?thesis
    using join_eq_Nil [OF assms(1)] False unfolding cleanPath_def by (simp add: rooted_path_def)
qed

section \<open>Properties\<close>

text \<open>How \<open>net/http\<close> fills a request: the decoded path is the decoding of the escaped one, which is empty
  or starts with a slash.\<close>

definition parsed_path :: "string \<Rightarrow> request \<Rightarrow> bool" where
  "parsed_path escaped r \<longleftrightarrow> PathUnescape escaped = Some (Path r) \<and> (escaped = [] \<or> hd escaped = CHR ''/'')"

lemma match_test_route:
  assumes "match_path p = rt" and "rt \<in> {PingRoute, DownloadRoute, UploadRoute}"
  shows "p \<noteq> [] \<and> (\<exists>b \<in> {''ping'', ''download'', ''upload''}. path_segments p = [''api'', b])"
  using assms by (auto simp: match_path_def literal_routes_def split: if_splits)

text \<open>C17: no way of writing a path reaches a speed-test endpoint around the rate limiter: whenever the mux
  picks the ping, download or upload handler, however the path was percent-encoded and whatever the
  method, the decoded path the limiter looks at is one of the limited ones.\<close>

theorem test_routes_limited:
  assumes "parsed_path escaped r" and "findHandler meth escaped \<in> {PingRoute, DownloadRoute, UploadRoute}"
  shows "Path r \<in> set rateLimitedPaths"
proof -
  have m: "match_path escaped \<in> {PingRoute, DownloadRoute, UploadRoute}"
    using assms(2) by (auto simp: findHandler_def Let_def split: if_splits)
  from match_test_route [OF refl m] obtain b where
    b: "escaped \<noteq> []" "b \<in> {''ping'', ''download'', ''upload''}" "path_segments escaped = [''api'', b]" by blast
  have "Path r = ''/'' @ ''api'' @ ''/'' @ b"
    using assms(1) b by (intro two_segments [of escaped]) (auto simp: parsed_path_def)
  with b(2) show ?thesis by (auto simp: rateLimitedPaths_def)
qed

theorem test_routes_limited_witness:
  "findHandler ''GET'' ''/api/%64ownload'' = DownloadRoute \<and> ''/api/download'' \<in> set rateLimitedPaths"
proof -
  define r where "r = \<lparr>Method = ''GET'', Path = ''/api/download'', Query = [], Header = [], RemoteAddr = [],
    Body = [], BodyEnd = EOF\<rparr>"
  have "PathUnescape ''/api/%64ownload'' = Some ''/api/download''" by code_simp
  then have "parsed_path ''/api/%64ownload'' r" by (simp add: parsed_path_def r_def)
  moreover have "findHandler ''GET'' ''/api/%64ownload'' = DownloadRoute" by code_simp
  ultimately show ?thesis using test_routes_limited [of "''/api/%64ownload''" r "''GET''"] by (simp add: r_def)
qed

text \<open>Every registered pattern reaches its own handler, for every method: no entry of the table is
  shadowed by another, and none is redirected.\<close>

theorem routes_reached:
  assumes "(pat, rt) \<in> set literal_routes"
  shows "findHandler meth pat = rt"
proof -
  have "list_all (\<lambda>(pat, rt). match_path pat = rt \<and> cleanPath pat = pat) literal_routes" by code_simp
  with assms have "match_path pat = rt \<and> cleanPath pat = pat" by (auto simp: list_all_iff)
  then show ?thesis by (simp add: findHandler_def)
qed

theorem routes_reached_witness: "findHandler ''POST'' ''/api/results/export'' = ExportRoute"
  by (rule routes_reached) (simp add: literal_routes_def)

text \<open>Redirects settle: a request is redirected at most once. The path it is sent to is served without
  another redirect, by the handler the mux picks for it, and whatever path is served starts with a slash and
  has no empty, \<open>.\<close> or \<open>..\<close> segment, but for a slash at its end.\<close>

theorem redirects_settle:
  assumes "meth \<noteq> ''CONNECT''"
  shows "findHandler meth escaped = (if cleanPath escaped = escaped then match_path escaped else RedirectTo (cleanPath escaped)) \<and>
    findHandler meth (cleanPath escaped) = match_path (cleanPath escaped) \<and>
    (\<forall>q. match_path (cleanPath escaped) \<noteq> RedirectTo q) \<and>
    (\<exists>cs slash. cleanPath escaped = rooted_path cs slash \<and> list_all proper_segment cs)"
proof -
  obtain cs slash where c: "list_all proper_segment cs" "slash \<longrightarrow> cs \<noteq> []" "cleanPath escaped = rooted_path cs slash"
    using cleanPath_rooted by blast
  have "match_path p \<noteq> RedirectTo q" for p q
    by (auto simp: match_path_def literal_routes_def split: if_splits)
  then show ?thesis using assms c cleanPath_id [OF c(1,2)] by (auto simp: findHandler_def Let_def)
qed

theorem redirects_settle_witness:
  "findHandler ''GET'' ''/x/..//api/./ping'' = RedirectTo ''/api/ping'' \<and> findHandler ''GET'' ''/api/ping'' = PingRoute"
proof -
  have c: "cleanPath ''/x/..//api/./ping'' = ''/api/ping''" and "match_path ''/api/ping'' = PingRoute" by code_simp+
  with redirects_settle [of "''GET''" "''/x/..//api/./ping''"] show ?thesis unfolding c by simp
qed

end
