(* ===== verification/Server.thy ===== *)
theory Server
  imports Config_Load Client_IP Results Speed_Tests Mux
begin

text \<open>
  \<open>main.go\<close>: how a request goes through the server (access log, rate limiter, mux, handler), the two
  handlers \<open>main.go\<close> has itself (\<open>sw.js\<close> and \<open>favicon.ico\<close>), and the construction of the server.
\<close>

section \<open>The libraries behind the handlers\<close>

text \<open>
  JSON text and its decoder (with the number of bytes it reads), the float formats, the geoip database,
  the store, the token bucket, the Prometheus text, the file server with its redirects, the file
  \<open>favicon.ico\<close> on disk and the embedded \<open>sw.js\<close>, the wall clock, and how long a body takes to arrive.
\<close>

record ('db, 'b, 'r) libs =
  json_text :: "json \<Rightarrow> string"
  json_value :: "string \<times> read_end \<Rightarrow> json option"
  json_used :: "string \<times> read_end \<Rightarrow> nat"
  parse_float :: "string \<Rightarrow> float64 option"
  float_json :: "float64 \<Rightarrow> string"
  float_csv :: "float64 \<Rightarrow> string"
  locate_in :: "handle \<Rightarrow> ip option \<Rightarrow> string"
  store_lib :: "'db store_ops"
  rate :: "('b, 'r) rate_lib"
  exposition :: "metricsRegistry \<Rightarrow> nat \<Rightarrow> reply"
  file_server :: "request \<Rightarrow> reply"
  embedded_icon :: "request \<Rightarrow> reply"
  redirect_to :: "string \<Rightarrow> request \<Rightarrow> reply"
  disk_icon :: "string option"
  embedded_sw :: "string option"
  wall_ms :: "int \<Rightarrow> int"
  export_stamp :: "int \<Rightarrow> string"
  copy_time :: "request \<Rightarrow> nat"
  label_ok :: "string \<Rightarrow> bool"

section \<open>sw.js and favicon.ico\<close>

text \<open>\<open>bytes.ReplaceAll\<close> for a nonempty \<open>old\<close>: from left to right, without overlaps.\<close>

function ReplaceAll :: "string \<Rightarrow> string \<Rightarrow> string \<Rightarrow> string" where
  "ReplaceAll old new s =
     (if old = [] \<or> s = [] then s
      else if prefix old s then new @ ReplaceAll old new (drop (length old) s)
      else hd s # ReplaceAll old new (tl s))"
  by auto
termination by (relation "measure (\<lambda>(_, _, s). length s)") auto

declare ReplaceAll.simps [simp del]

definition swjsCachePlaceholder :: string where
  "swjsCachePlaceholder = ''__SPEEDTEST_CACHE_NAME__''"

definition swjsHandler :: "string option \<Rightarrow> string \<Rightarrow> reply" where
  "swjsHandler embedded version =
     (case embedded of
        None \<Rightarrow> http_Error Map.empty ''sw.js unavailable'' StatusInternalServerError
      | Some raw \<Rightarrow> \<lparr>status = StatusOK,
          headers = [''Content-Type'' \<mapsto> ''application/javascript; charset=utf-8'', ''Cache-Control'' \<mapsto> ''no-cache''],
          payload = Text (ReplaceAll swjsCachePlaceholder (''speedtest-'' @ version) raw)\<rparr>)"

definition faviconHandler :: "string option \<Rightarrow> (request \<Rightarrow> reply) \<Rightarrow> request \<Rightarrow> reply" where
  "faviconHandler disk embedded r =
     (case disk of
        Some bytes \<Rightarrow> \<lparr>status = StatusOK,
          headers = [''Content-Type'' \<mapsto> ''image/x-icon'', ''Cache-Control'' \<mapsto> ''public, max-age=86400''],
          payload = Text bytes\<rparr>
      | None \<Rightarrow> embedded r)"

section \<open>The mux\<close>

text \<open>Each route runs its handler and gives the new state, the writer, and the bytes read from the body.\<close>

type_synonym ('db, 'b) outcome3 = "(('db, 'b) handler \<times> statusWriter \<times> int) option"

definition answer :: "('db, 'b, 'r) libs \<Rightarrow> reply \<Rightarrow> ('db, 'b) handler \<Rightarrow> statusWriter \<Rightarrow> ('db, 'b) outcome3" where
  "answer l rep h sw = Some (h, send (json_text l) rep sw, 0)"

definition pass_time :: "nat \<Rightarrow> statusWriter \<Rightarrow> statusWriter" where
  "pass_time d sw = sw\<lparr>inner := (inner sw)\<lparr>now := now (inner sw) + int d\<rparr>\<rparr>"

lemma pass_no_time [simp]: "pass_time 0 sw = sw"
  by (simp add: pass_time_def)

text \<open>Only an upload that is admitted reads its body, which takes \<open>copy_time\<close>.\<close>

definition serve_upload :: "('db, 'b, 'r) libs \<Rightarrow> ('db, 'b) handler \<Rightarrow> request \<Rightarrow> statusWriter \<Rightarrow> ('db, 'b) outcome3" where
  "serve_upload l h r sw =
     (let d = (if Method r = MethodPost \<and> sem_len (tests h) < sem_cap (tests h) then copy_time l r else 0) in
      case UploadHandler h r (int (copy_time l r)) of
        None \<Rightarrow> None
      | Some (rep, h, recv) \<Rightarrow> Some (h, send (json_text l) rep (pass_time d sw), recv))"

definition serve_export :: "('db, 'b, 'r) libs \<Rightarrow> ('db, 'b) handler \<Rightarrow> request \<Rightarrow> statusWriter \<Rightarrow> ('db, 'b) outcome3" where
  "serve_export l h r sw =
     (case ResultsExport (float_json l) (float_csv l) (store_lib l) (export_stamp l (sw_now sw)) (h_store h) r of
        (rep, s) \<Rightarrow> Some (h\<lparr>h_store := s\<rparr>, send (json_text l) rep sw, 0))"

definition serve_results :: "('db, 'b, 'r) libs \<Rightarrow> ('db, 'b) handler \<Rightarrow> request \<Rightarrow> statusWriter \<Rightarrow> ('db, 'b) outcome3" where
  "serve_results l h r sw =
     (case ResultsListOrCreate (json_value l) (parse_float l) (float_json l) (locate_in l) (store_lib l) (h_geoip h)
             (wall_ms l (sw_now sw)) (h_store h) r of
        None \<Rightarrow> None
      | Some (rep, s) \<Rightarrow>
          Some (h\<lparr>h_store := s\<rparr>, send (json_text l) rep sw,
            if Method r = MethodPost \<and> h_store h \<noteq> None then int (json_used l (limited_body maxResultBody r)) else 0))"

fun serve :: "('db, 'b, 'r) libs \<Rightarrow> route \<Rightarrow> ('db, 'b) handler \<Rightarrow> request \<Rightarrow> statusWriter \<Rightarrow> ('db, 'b) outcome3" where
  "serve l Static h r sw = answer l (file_server l r) h sw"
| "serve l Favicon h r sw = answer l (faviconHandler (disk_icon l) (embedded_icon l) r) h sw"
| "serve l SwJs h r sw = answer l (swjsHandler (embedded_sw l) (Version (Build h))) h sw"
| "serve l ConfigRoute h r sw = answer l (ConfigHandler h r) h sw"
| "serve l IPRoute h r sw = answer l (IPHandler r) h sw"
| "serve l PingRoute h r sw = answer l (PingHandler r) h sw"
| "serve l DownloadRoute h r sw =
     map_option (\<lambda>(h, sw). (h, sw, 0)) (DownloadHandler (json_text l) h r sw)"
| "serve l UploadRoute h r sw = serve_upload l h r sw"
| "serve l HealthRoute h r sw = answer l (HealthHandler (sw_now sw) h r) h sw"
| "serve l MetricsRoute h r sw = answer l (MetricsHandler (exposition l) h r) h sw"
| "serve l ExportRoute h r sw = serve_export l h r sw"
| "serve l ResultsRoute h r sw = serve_results l h r sw"
| "serve l (RedirectTo p) h r sw = answer l (redirect_to l p r) h sw"
| "serve l NotFound h r sw = answer l (http_Error Map.empty ''404 page not found'' 404) h sw"

definition mux_ServeHTTP :: "('db, 'b, 'r) libs \<Rightarrow> string \<Rightarrow> ('db, 'b) handler \<Rightarrow> request \<Rightarrow> statusWriter \<Rightarrow> ('db, 'b) outcome3" where
  "mux_ServeHTTP l escaped h r sw = serve l (findHandler (Method r) escaped) h r sw"

section \<open>The access log\<close>

record access_log =
  l_method :: string
  l_path :: string
  l_remote_addr :: string
  l_status :: int
  l_duration_ms :: int
  l_bytes_sent :: nat
  l_bytes_recv :: int
  l_request_id :: string
  l_user_agent :: string

text \<open>\<open>entropy\<close> is what \<open>rand.Read\<close> delivers, \<open>clock_text\<close> the time the fallback uses.\<close>

definition newRequestID :: "8 word list option \<Rightarrow> string \<Rightarrow> string" where
  "newRequestID entropy clock_text =
     (case entropy of
        None \<Rightarrow> EncodeToString (map (\<lambda>c. word_of_nat (byte_of c)) clock_text)
      | Some buf \<Rightarrow> EncodeToString buf)"

text \<open>The entry is logged before the request is counted. When counting panics, the connection is dropped.\<close>

definition loggingMiddleware ::
  "(string \<Rightarrow> bool) \<Rightarrow> (('db, 'b) handler \<Rightarrow> request \<Rightarrow> statusWriter \<Rightarrow> ('db, 'b) outcome3) \<Rightarrow> string \<Rightarrow>
   ('db, 'b) handler \<Rightarrow> request \<Rightarrow> conn \<Rightarrow> (('db, 'b) handler \<times> conn \<times> access_log) option" where
  "loggingMiddleware accepts next reqID h r c =
     (let start = now c; sw = new_statusWriter (Header_Set ''X-Request-Id'' reqID c) in
      case next h r sw of
        None \<Rightarrow> None
      | Some (h, sw, recv) \<Rightarrow>
          (let entry = \<lparr>l_method = Method r, l_path = Path r, l_remote_addr = RemoteAddr r, l_status = sw_status sw,
                 l_duration_ms = (sw_now sw - start) div 1000000, l_bytes_sent = bytesSent sw, l_bytes_recv = recv,
                 l_request_id = reqID, l_user_agent = header_Get r ''User-Agent''\<rparr>
           in case ObserveRequest accepts (Method r) (Path r) (Itoa (sw_status sw)) (tests h) of
                None \<Rightarrow> Some (h, conn_drop (inner sw), entry)
              | Some a \<Rightarrow> Some (h\<lparr>tests := a\<rparr>, conn_finish (inner sw), entry)))"

section \<open>The server\<close>

definition idleTimeout :: "int \<Rightarrow> int" where
  "idleTimeout d =
     (let maxTestDuration = 300 * Second; d = (if d < maxTestDuration then maxTestDuration else d)
      in i64 (d + 60 * Second))"

definition buildMux :: "config \<Rightarrow> 'db option \<Rightarrow> handle option \<Rightarrow> BuildInfo \<Rightarrow> geo_state \<Rightarrow> int \<Rightarrow> ('db, 'b) handler" where
  "buildMux c s g build g0 t =
     (let h = (New c s t)\<lparr>Build := build, h_geoip := g0\<rparr> in h\<lparr>h_geoip := SetGeoIP g (h_geoip h)\<rparr>)"

record http_Server =
  srv_Addr :: string
  ReadHeaderTimeout :: int
  ReadTimeout :: int
  WriteTimeout :: int
  IdleTimeout :: int

definition newServerWithStore ::
  "config \<Rightarrow> 'db option \<Rightarrow> handle option \<Rightarrow> BuildInfo \<Rightarrow> geo_state \<Rightarrow> int \<Rightarrow> http_Server \<times> ('db, 'b) handler" where
  "newServerWithStore c s g build g0 t =
     (\<lparr>srv_Addr = Addr c, ReadHeaderTimeout = 30 * Second, ReadTimeout = 0, WriteTimeout = 0,
       IdleTimeout = idleTimeout (Duration c)\<rparr>, buildMux c s g build g0 t)"

text \<open>The metadata of a build without \<open>-ldflags\<close>, and the server without history and database of the tests.\<close>

definition build_default :: BuildInfo where
  "build_default = \<lparr>Version = ''dev'', Commit = ''none'', Date = ''unknown''\<rparr>"

definition newServer :: "config \<Rightarrow> BuildInfo \<Rightarrow> geo_state \<Rightarrow> int \<Rightarrow> http_Server" where
  "newServer c build g0 t = fst (newServerWithStore c (None :: unit option) None build g0 t)"

text \<open>The \<open>Handler\<close> of the server: the access log around the rate limiter around the mux.\<close>

definition server_ServeHTTP ::
  "('db, 'b, 'r) libs \<Rightarrow> string \<Rightarrow> string \<Rightarrow> ('db, 'b) handler \<Rightarrow> request \<Rightarrow> conn \<Rightarrow>
   (('db, 'b) handler \<times> conn \<times> access_log) option" where
  "server_ServeHTTP l reqID escaped h r c =
     loggingMiddleware (label_ok l)
       (RateLimit (rate l) (json_text l) (now c) (mux_ServeHTTP l escaped) (\<lambda>(h, sw). Some (h, sw, 0))) reqID h r c"

end
