(* ===== verification/Access_Log.thy ===== *)
theory Access_Log
  imports Server
begin

text \<open>
  What the access log and the metrics say about a request is what happened on the connection. The
  invariant \<open>logged\<close> of the writer is kept by every operation a handler can do, hence by every handler,
  hence by the whole server.
\<close>

section \<open>The invariant of the writer\<close>

definition id_header :: string where "id_header = ''X-Request-Id''"

definition logged :: "string \<Rightarrow> nat \<Rightarrow> statusWriter \<Rightarrow> bool" where
  "logged i n0 sw \<longleftrightarrow>
     status_agrees sw \<and> hdr (inner sw) id_header = Some i \<and> out (inner sw) = n0 + bytesSent sw \<and> \<not> dropped (inner sw) \<and>
     (\<forall>p. sent (inner sw) = Some p \<longrightarrow> snd p id_header = Some i)"

definition final_reply :: "reply \<Rightarrow> bool" where
  "final_reply rep \<longleftrightarrow> \<not> informational (status rep) \<and> headers rep id_header = None"

lemma logged_new: "sent c = None \<Longrightarrow> \<not> dropped c \<Longrightarrow> logged i (out c) (new_statusWriter (Header_Set id_header i c))"
  using status_agrees_new [of "Header_Set id_header i c"]
  by (simp add: logged_def new_statusWriter_def Header_Set_def)

lemma logged_WriteHeader:
  assumes "logged i n0 sw" and "\<not> informational code"
  shows "logged i n0 (sw_WriteHeader code sw)"
  using assms status_agrees_WriteHeader [of sw code]
  by (auto simp: logged_def sw_WriteHeader_def conn_WriteHeader_def Let_def split: if_splits)

lemma WriteHeader_dropped [simp]: "dropped (conn_WriteHeader k c) = dropped c"
  by (simp add: conn_WriteHeader_def)

lemma conn_Write_hdr: "conn_Write n c = (m, e, c') \<Longrightarrow> hdr c' = hdr c \<and> dropped c' = dropped c"
  by (auto simp: conn_Write_def Let_def split: prod.splits)

lemma logged_Write:
  assumes "logged i n0 sw" and "sw_Write n sw = (m, e, sw')"
  shows "logged i n0 sw' \<and> hdrWritten sw'"
proof -
  have "status_agrees sw' \<and> hdrWritten sw'"
    using assms by (intro status_agrees_Write [of sw n m e]) (simp_all add: logged_def)
  moreover note w = sw_Write_inner [OF assms(2)]
  moreover have "out (inner sw') = out (inner sw) + m" using w conn.write_count by blast
  moreover have "hdr (inner sw') = hdr (inner sw) \<and> dropped (inner sw') = dropped (inner sw)"
    using w conn_Write_hdr by blast
  moreover have "sent (inner sw') = sent (conn_WriteHeader 200 (inner sw))" using w conn_Write_sent by blast
  ultimately show ?thesis
    using assms(1) by (auto simp: logged_def conn_WriteHeader_def split: if_splits)
qed

lemma logged_Flush: "logged i n0 sw \<Longrightarrow> hdrWritten sw \<Longrightarrow> logged i n0 (sw_Flush sw)"
  using status_agrees_Flush [of sw]
  by (auto simp: logged_def sw_Flush_def conn_Flush_def conn_WriteHeader_def split: if_splits)

lemma status_agrees_cong:
  "sent (inner sw') = sent (inner sw) \<Longrightarrow> hdrWritten sw' = hdrWritten sw \<Longrightarrow> sw_status sw' = sw_status sw \<Longrightarrow>
     status_agrees sw' = status_agrees sw"
  by (simp add: status_agrees_def client_status_def)

lemma logged_quiet:
  assumes "sent (inner sw') = sent (inner sw)" and "hdrWritten sw' = hdrWritten sw" and "sw_status sw' = sw_status sw"
    and "out (inner sw') = out (inner sw)" and "bytesSent sw' = bytesSent sw"
    and "hdr (inner sw') id_header = hdr (inner sw) id_header" and "dropped (inner sw') = dropped (inner sw)"
  shows "logged i n0 sw \<Longrightarrow> logged i n0 sw'"
  using assms status_agrees_cong [of sw' sw] by (simp add: logged_def)

lemma logged_set_headers: "hs id_header = None \<Longrightarrow> logged i n0 sw \<Longrightarrow> logged i n0 (set_headers hs sw)"
  by (rule logged_quiet) (simp_all add: set_headers_def map_add_def)

lemma logged_Header_Set: "k \<noteq> id_header \<Longrightarrow> logged i n0 sw \<Longrightarrow> logged i n0 (sw_Header_Set k v sw)"
  by (rule logged_quiet) (simp_all add: sw_Header_Set_def Header_Set_def)

lemma logged_SetWriteDeadline: "logged i n0 sw \<Longrightarrow> logged i n0 (sw_SetWriteDeadline d sw)"
  by (rule logged_quiet) (simp_all add: sw_SetWriteDeadline_def conn_SetWriteDeadline_def)

lemma logged_pass_time: "logged i n0 sw \<Longrightarrow> logged i n0 (pass_time d sw)"
  by (rule logged_quiet) (simp_all add: pass_time_def)

lemma logged_send: "logged i n0 sw \<Longrightarrow> final_reply rep \<Longrightarrow> logged i n0 (send enc rep sw)"
  unfolding send_def Let_def final_reply_def
  by (auto split: prod.split dest!: logged_Write [rotated] simp: logged_WriteHeader logged_set_headers)

section \<open>The download loops keep it\<close>

lemma time_loop_keeps:
  assumes step: "\<And>n s m e s'. P s \<Longrightarrow> put n s = (m, e, s') \<Longrightarrow> P s' \<and> P (flush s')"
    and run: "time_loop put flush clock stop_at written s = Some y" and start: "P s"
  shows "P (snd y)"
proof -
  have "put' = put \<longrightarrow> flush' = flush \<longrightarrow> P s \<longrightarrow> P (snd y)"
    if "time_loop put' flush' clock stop_at written s = Some y" for put' flush' clock stop_at written s y
    using that
  proof (rule time_loop.raw_induct [rotated], intro impI)
    fix f put' flush' clock stop_at written s y
    assume IH: "\<And>put' flush' clock stop_at written s y. f put' flush' clock stop_at written s = Some y \<Longrightarrow>
        put' = put \<longrightarrow> flush' = flush \<longrightarrow> P s \<longrightarrow> P (snd y)"
      and body: "(if clock s < stop_at then case put' writeChunk s of (m, e, s') \<Rightarrow>
           if e then Some (i64 (written + int m), s')
           else f put' flush' clock stop_at (i64 (written + int m)) (flush' s')
         else Some (written, s)) = Some y"
      and p: "put' = put" "flush' = flush" "P s"
    obtain m e s1 where w: "put writeChunk s = (m, e, s1)" by (metis prod_cases3)
    show "P (snd y)"
    proof (cases "clock s < stop_at \<and> \<not> e")
      case True
      then have "f put flush clock stop_at (i64 (written + int m)) (flush s1) = Some y"
        using body w p by simp
      with step [OF p(3) w] IH show ?thesis by blast
    qed (use body p w step [OF p(3) w] in \<open>auto split: if_splits\<close>)
  qed
  then show ?thesis using run start by blast
qed

lemma logged_download_stream:
  assumes "download_stream c r sw = Some (n, sw')" and "logged i n0 sw"
  shows "logged i n0 sw'"
proof -
  have size: "logged i n0 sw'" if "downloadBySize want sw = Some (n, sw')" for want
    using size_loop_keeps [where P = "logged i n0", OF _ that [unfolded downloadBySize_def]] logged_Write
      logged_Header_Set [OF _ assms(2)] by (fastforce simp: id_header_def)
  have flush: "logged i n0 s' \<and> logged i n0 (sw_Flush s')" if "logged i n0 s" "sw_Write k s = (m, e, s')" for k s m e s'
    using logged_Write [OF that] logged_Flush by blast
  have "logged i n0 sw'" if "downloadByTime d sw = Some (n, sw')" for d
    using time_loop_keeps [where P = "logged i n0", OF flush that [unfolded downloadByTime_def Let_def]]
      logged_SetWriteDeadline [OF assms(2)] by simp
  with size assms(1) show ?thesis by (auto simp: download_stream_def split: if_splits)
qed

section \<open>The replies of the handlers\<close>

lemma final_http_Error [simp]: "final_reply (http_Error h msg code) \<longleftrightarrow> \<not> informational code \<and> h id_header = None"
  by (simp add: final_reply_def http_Error_def id_header_def)

lemma final_writeJSON [simp]: "final_reply (writeJSON h v) \<longleftrightarrow> h id_header = None"
  by (simp add: final_reply_def writeJSON_def id_header_def status_codes)

lemma final_writeErr [simp]: "final_reply (writeErr code msg) \<longleftrightarrow> \<not> informational code"
  by (simp add: final_reply_def writeErr_def json_header_def id_header_def)

lemma informational_codes [simp]:
  "\<not> informational StatusOK" "\<not> informational StatusCreated" "\<not> informational StatusBadRequest"
  "\<not> informational StatusMethodNotAllowed" "\<not> informational StatusTooManyRequests"
  "\<not> informational StatusInternalServerError" "\<not> informational StatusServiceUnavailable" "\<not> informational 404"
  by (simp_all add: informational_def status_codes)

lemma final_errors [simp]:
  "final_reply method_not_allowed" "final_reply server_busy" "final_reply internalErr"
  "final_reply writeHistoryDisabled" "final_reply (too_many d)" "final_reply (created x)"
  by (simp_all add: method_not_allowed_def server_busy_def internalErr_def writeHistoryDisabled_def created_def
      too_many_def json_header_def) (simp_all add: final_reply_def id_header_def)

lemma final_encode_results: "h id_header = None \<Longrightarrow> final_reply (encode_results h rs v)"
  by (simp add: encode_results_def) (simp add: final_reply_def id_header_def)

lemma final_small [simp]:
  "final_reply (ConfigHandler h r)" "final_reply (IPHandler r)" "final_reply (PingHandler r)"
  "final_reply (HealthHandler t h r)" "final_reply (uploaded n ms tr)"
  "final_reply (swjsHandler raw v)"
  by (simp_all add: ConfigHandler_def IPHandler_def PingHandler_def HealthHandler_def uploaded_def swjsHandler_def
      no_store_def identity_header_def id_header_def split: option.split)
     (simp_all add: final_reply_def id_header_def)

lemma final_upload: "UploadHandler h r el = Some (rep, h', recv) \<Longrightarrow> final_reply rep"
  by (auto simp: UploadHandler_def Let_def identity_header_def id_header_def
      split: if_splits prod.splits option.splits read_end.splits)

lemma final_list: "final_reply (fst (listResults fmt st s r))"
  by (auto simp: listResults_def Let_def intro!: final_encode_results split: option.splits prod.splits)

lemma final_results: "ResultsListOrCreate dec pf fmt loc st g t s r = Some (rep, s') \<Longrightarrow> final_reply rep"
  using final_list [of fmt st s r]
  by (auto simp: ResultsListOrCreate_def createResult_def split: if_splits option.splits prod.splits)

lemma final_export: "final_reply (fst (ResultsExport fj fc st ts s r))"
  by (auto simp: ResultsExport_def Let_def id_header_def intro!: final_encode_results split: option.splits prod.splits)
     (auto simp: final_reply_def id_header_def)

section \<open>The whole server\<close>

text \<open>The labels under which a request is counted, and whether the vector accepts them.\<close>

definition countable :: "('db, 'b, 'r) libs \<Rightarrow> access_log \<Rightarrow> bool" where
  "countable l entry \<longleftrightarrow> list_all (label_ok l) [l_method entry, l_path entry, Itoa (l_status entry)]"

text \<open>What is asked of the handlers that are libraries: a final status, and hands off the request id.\<close>

definition lib_replies :: "('db, 'b, 'r) libs \<Rightarrow> bool" where
  "lib_replies l \<longleftrightarrow>
     (\<forall>r p reg n. final_reply (file_server l r) \<and> final_reply (embedded_icon l r) \<and>
        final_reply (redirect_to l p r) \<and> final_reply (exposition l reg n))"

lemma logged_answer:
  "answer l rep h sw = Some (h', sw', n) \<Longrightarrow> final_reply rep \<Longrightarrow> logged i n0 sw \<Longrightarrow> logged i n0 sw'"
  by (auto simp: answer_def intro: logged_send)

lemma final_favicon: "(\<And>r. final_reply (emb r)) \<Longrightarrow> final_reply (faviconHandler disk emb r)"
  by (auto simp: faviconHandler_def final_reply_def id_header_def status_codes informational_def split: option.split)

lemma final_metrics: "(\<And>reg n. final_reply (ex reg n)) \<Longrightarrow> final_reply (MetricsHandler ex h r)"
  by (auto simp: MetricsHandler_def split: option.split)

lemma logged_download:
  assumes "DownloadHandler enc h r sw = Some (h', sw')" and "logged i n0 sw"
  shows "logged i n0 sw'"
proof -
  have "logged i n0 (set_headers download_headers sw)"
    using assms(2) by (intro logged_set_headers) (simp_all add: download_headers_def id_header_def)
  then show ?thesis
    using assms by (auto simp: DownloadHandler_def Let_def intro: logged_send logged_download_stream
        split: if_splits prod.splits option.splits)
qed

lemma logged_serve:
  assumes "lib_replies l" and "serve l rt h r sw = Some (h', sw', n)" and "logged i n0 sw"
  shows "logged i n0 sw'"
proof (cases rt)
  case UploadRoute
  with assms show ?thesis
    by (auto simp: serve_upload_def Let_def intro!: logged_send logged_pass_time dest: final_upload split: option.splits prod.splits)
next
  case ExportRoute
  with assms show ?thesis
    using final_export [of "float_json l" "float_csv l" "store_lib l" "export_stamp l (sw_now sw)" "h_store h" r]
    by (auto simp: serve_export_def intro: logged_send split: prod.splits)
next
  case ResultsRoute
  with assms show ?thesis
    by (auto simp: serve_results_def intro: logged_send dest: final_results split: option.splits prod.splits)
next
  case DownloadRoute
  with assms show ?thesis by (auto intro: logged_download)
next
  case MetricsRoute
  with assms have "answer l (MetricsHandler (exposition l) h r) h sw = Some (h', sw', n)" by simp
  moreover have "final_reply (MetricsHandler (exposition l) h r)"
    by (rule final_metrics) (use assms(1) in \<open>simp add: lib_replies_def\<close>)
  ultimately show ?thesis using assms(3) by (rule logged_answer)
qed (use assms in \<open>auto simp: lib_replies_def intro: logged_answer final_favicon final_metrics\<close>)

lemma RateLimit_cases:
  assumes "RateLimit lib enc t next (\<lambda>(h, sw). Some (h, sw, 0)) h r sw = Some (h', sw', n)"
  obtains (passed) rl where "next (h\<lparr>limiter := rl\<rparr>) r sw = Some (h', sw', n)"
  | (limited) rl rl' d where "limiter h = Some rl" and "Path r \<in> set rateLimitedPaths"
      and "allow lib (ClientIP r) t rl = ((False, d), rl')" and "h' = h\<lparr>limiter := Some rl'\<rparr>"
      and "sw' = send enc (too_many d) sw" and "n = 0"
proof -
  have same: "h\<lparr>limiter := limiter h\<rparr> = h" by simp
  show thesis
  proof (cases "limiter h = None \<or> Path r \<notin> set rateLimitedPaths")
    case True
    with assms have "next (h\<lparr>limiter := limiter h\<rparr>) r sw = Some (h', sw', n)"
      by (auto simp: RateLimit_def split: option.splits)
    then show thesis by (rule passed)
  next
    case False
    then obtain rl where rl: "limiter h = Some rl" "Path r \<in> set rateLimitedPaths" by auto
    obtain ok d rl' where a: "allow lib (ClientIP r) t rl = ((ok, d), rl')" by (metis prod_cases3 surj_pair)
    show thesis
    proof (cases ok)
      case True
      with assms rl a have "next (h\<lparr>limiter := Some rl'\<rparr>) r sw = Some (h', sw', n)" by (simp add: RateLimit_def)
      then show thesis by (rule passed)
    next
      case False
      with assms rl a show thesis by (intro limited [of rl d rl']) (auto simp: RateLimit_def)
    qed
  qed
qed

lemma server_run:
  assumes "server_ServeHTTP l i escaped h r c = Some (h', c', entry)"
  obtains h1 sw recv where
    "RateLimit (rate l) (json_text l) (now c) (mux_ServeHTTP l escaped) (\<lambda>(h, sw). Some (h, sw, 0)) h r
       (new_statusWriter (Header_Set id_header i c)) = Some (h1, sw, recv)"
    and "case ObserveRequest (label_ok l) (Method r) (Path r) (Itoa (sw_status sw)) (tests h1) of
           None \<Rightarrow> h' = h1 \<and> c' = conn_drop (inner sw)
         | Some a \<Rightarrow> h' = h1\<lparr>tests := a\<rparr> \<and> c' = conn_finish (inner sw)"
    and "l_status entry = sw_status sw" and "l_bytes_sent entry = bytesSent sw"
    and "l_bytes_recv entry = recv" and "l_request_id entry = i" and "l_method entry = Method r" and "l_path entry = Path r"
  using assms
  by (auto simp: server_ServeHTTP_def loggingMiddleware_def Let_def id_header_def split: option.splits)

lemma logged_server:
  assumes "lib_replies l" and "logged i n0 sw"
    and "RateLimit (rate l) (json_text l) t (mux_ServeHTTP l escaped) (\<lambda>(h, sw). Some (h, sw, 0)) h r sw = Some (h', sw', n)"
  shows "logged i n0 sw'"
  using assms(3)
proof (cases rule: RateLimit_cases)
  case (passed rl)
  with assms show ?thesis by (auto simp: mux_ServeHTTP_def intro: logged_serve)
next
  case (limited rl rl' d)
  with assms show ?thesis by (auto intro: logged_send)
qed

section \<open>UTF-8 labels\<close>

lemma utf8_ascii: "(\<And>c. c \<in> set s \<Longrightarrow> byte_of c < 128) \<Longrightarrow> utf8 s"
proof (induction s)
  case (Cons c s)
  then have "rune_ok c s 0" and "utf8 (drop 0 s)" by (auto simp: rune_ok_def)
  then show ?case by (rule utf8.rune)
qed (rule utf8.empty)

lemma utf8_Itoa: "utf8 (Itoa n)"
proof (rule utf8_ascii)
  fix c
  assume "c \<in> set (Itoa n)"
  from Itoa_no_special [OF this] show "byte_of c < 128"
    by (auto simp: byte_of_def digit_char_def)
qed

lemma not_utf8_FF: "\<not> utf8 (''/'' @ [CHR 0xFF] @ s)"
proof
  assume "utf8 (''/'' @ [CHR 0xFF] @ s)"
  then have "utf8 (CHR 0xFF # s)"
    by (cases rule: utf8.cases) (auto simp: rune_ok_def cont_in_def byte_of_def)
  then show False
    by (cases rule: utf8.cases) (auto simp: rune_ok_def cont_in_def byte_of_def)
qed

section \<open>Properties\<close>

text \<open>C8: the access log tells the truth about every request that goes through the server: the status it
  shows is the one the client received, its byte count is what was written to the connection, the
  \<open>X-Request-Id\<close> of the response is the id of the entry, and exactly one request with that method, path
  and status is added to the metrics. The exception is a request with a label the metrics do not accept, as
  a path that is not UTF-8: it is logged, but counting it panics and its connection is dropped.\<close>

theorem access_log_truthful:
  assumes "lib_replies l" and "sent c = None" and "\<not> dropped c"
    and "server_ServeHTTP l i escaped h r c = Some (h', c', entry)"
  shows "out c' = out c + l_bytes_sent entry \<and>
    (if countable l entry \<or> metrics (tests h') = None
     then \<not> dropped c' \<and> client_status c' = Some (l_status entry) \<and> snd (the (sent c')) id_header = Some (l_request_id entry) \<and>
       (\<exists>m. metrics (tests h') = map_option (observeRequest (l_method entry) (l_path entry) (Itoa (l_status entry))) m)
     else dropped c')"
  using assms(4)
proof (cases rule: server_run)
  case (1 h1 sw recv)
  have log: "logged i (out c) sw" by (rule logged_server [OF assms(1) logged_new [OF assms(2,3)] 1(1)])
  show ?thesis
  proof (cases "ObserveRequest (label_ok l) (Method r) (Path r) (Itoa (sw_status sw)) (tests h1)")
    case None
    with 1 log show ?thesis
      using ObserveRequest_None [of "label_ok l" "Method r" "Path r" "Itoa (sw_status sw)" "tests h1"]
      by (simp add: logged_def countable_def conn_drop_def)
  next
    case (Some a)
    with ObserveRequest_Some [OF Some] 1 log status_agrees_finish [of sw] show ?thesis
      by (auto simp: logged_def countable_def conn_finish_def conn_WriteHeader_def split: if_splits)
  qed
qed

text \<open>A library that answers every file with the same text, for the examples.\<close>

definition demo_reply :: reply where
  "demo_reply = \<lparr>status = 200, headers = Map.empty, payload = Text ''file''\<rparr>"

definition demo_libs :: "(table option, bucket, int) libs" where
  "demo_libs = \<lparr>json_text = (\<lambda>_. ''{}''), json_value = demo_decode, json_used = (\<lambda>_. 0), parse_float = demo_parse_float,
     float_json = (\<lambda>_. ''1''), float_csv = (\<lambda>_. ''1''), locate_in = (\<lambda>_ _. ''X''), store_lib = sqlite_store mem_engine,
     rate = bucket_lib, exposition = (\<lambda>_ _. demo_reply), file_server = (\<lambda>_. demo_reply), embedded_icon = (\<lambda>_. demo_reply),
     redirect_to = (\<lambda>_ _. demo_reply), disk_icon = None, embedded_sw = None, wall_ms = (\<lambda>t. 1700),
     export_stamp = (\<lambda>_. ''T''), copy_time = (\<lambda>_. 0), label_ok = utf8\<rparr>"

lemma demo_libs_replies: "lib_replies demo_libs"
  by (simp add: lib_replies_def demo_libs_def demo_reply_def final_reply_def informational_def)

definition demo_conn :: conn where
  "demo_conn = \<lparr>sent = None, hdr = Map.empty, out = 0, now = 0, write_deadline = None, link = [], dropped = False\<rparr>"

definition demo_build :: BuildInfo where
  "demo_build = \<lparr>Version = [], Commit = [], Date = []\<rparr>"

definition demo_server :: "config \<Rightarrow> (table option, bucket) handler" where
  "demo_server c = buildMux c (Some demo_empty) None demo_build geoip0 0"

theorem access_log_truthful_witness:
  "\<exists>h' c' entry. server_ServeHTTP demo_libs ''id'' ''/api/ping'' (demo_server defaults)
      ((demo_request MethodPost [] [])\<lparr>Path := ''/api/ping''\<rparr>) demo_conn = Some (h', c', entry) \<and>
     l_status entry = 405 \<and> client_status c' = Some 405 \<and> \<not> dropped c' \<and> out c' = l_bytes_sent entry"
proof -
  define r where "r = (demo_request MethodPost [] [])\<lparr>Path := ''/api/ping''\<rparr>"
  have r: "Method r = MethodPost" by (simp add: r_def demo_request_def)
  have rt: "findHandler MethodPost ''/api/ping'' = PingRoute" by code_simp
  have lim: "limiter (demo_server defaults) = None"
    by (simp add: demo_server_def buildMux_def New_def newRateLimiter_def defaults_def Let_def)
  have "\<exists>sw. serve demo_libs PingRoute (demo_server defaults) r (new_statusWriter (Header_Set ''X-Request-Id'' ''id'' demo_conn)) =
      Some (demo_server defaults, sw, 0) \<and> sw_status sw = 405"
    by (simp add: answer_def PingHandler_def r MethodPost_def MethodGet_def send_def method_not_allowed_def
        http_Error_def status_codes set_headers_def sw_WriteHeader_def sw_Write_def new_statusWriter_def Let_def
        split: prod.split)
  then have "\<exists>h' c' entry. server_ServeHTTP demo_libs ''id'' ''/api/ping'' (demo_server defaults) r demo_conn = Some (h', c', entry) \<and>
      l_status entry = 405"
    unfolding server_ServeHTTP_def loggingMiddleware_def RateLimit_def lim mux_ServeHTTP_def r rt Let_def option.case
    by (auto split: option.split)
  then obtain h' c' entry where s: "server_ServeHTTP demo_libs ''id'' ''/api/ping'' (demo_server defaults) r demo_conn = Some (h', c', entry)"
    "l_status entry = 405" by blast
  have c: "sent demo_conn = None" "\<not> dropped demo_conn" "out demo_conn = 0" by (simp_all add: demo_conn_def)
  have "l_method entry = Method r \<and> l_path entry = Path r" using s(1) by (cases rule: server_run) simp
  then have "countable demo_libs entry"
    by (auto simp: countable_def demo_libs_def r_def demo_request_def MethodPost_def utf8_Itoa byte_of_def intro!: utf8_ascii)
  with access_log_truthful [OF demo_libs_replies c(1,2) s(1)] s c(3) show ?thesis
    unfolding r_def by (intro exI [of _ h'] exI [of _ c'] exI [of _ entry]) simp
qed

text \<open>A path that is not UTF-8, as a client sends it with \<open>/%FF\<close>: the request is answered and logged, and then dropped.\<close>

lemma path_not_utf8:
  assumes "Path r = ''/'' @ [CHR 0xFF] @ p" and "metrics (tests h') \<noteq> None"
    and "server_ServeHTTP demo_libs i escaped h r demo_conn = Some (h', c', entry)"
  shows "dropped c' \<and> l_path entry = Path r"
proof -
  have path: "l_path entry = Path r" using assms(3) by (cases rule: server_run) simp
  then have "\<not> countable demo_libs entry" using assms(1) not_utf8_FF by (simp add: countable_def demo_libs_def)
  moreover have "sent demo_conn = None" "\<not> dropped demo_conn" by (simp_all add: demo_conn_def)
  ultimately show ?thesis using access_log_truthful [OF demo_libs_replies _ _ assms(3)] assms(2) path by simp
qed

end
