(* ===== verification/Requests.thy ===== *)
theory Requests
  imports Access_Log
begin

text \<open>
  The state of the server over a sequence of requests: what one request does to it (\<open>request_effect\<close>),
  that every request gets an answer, and what holds in every state a run of the server reaches.
\<close>

section \<open>The effect of one request\<close>

definition store_effect ::
  "('db \<Rightarrow> result list) \<Rightarrow> ('db \<Rightarrow> bool) \<Rightarrow> request \<Rightarrow> 'db option \<Rightarrow> 'db option \<Rightarrow> bool" where
  "store_effect contents ok r s s' \<longleftrightarrow>
     (case s of
        None \<Rightarrow> s' = None
      | Some db \<Rightarrow> ok db \<longrightarrow>
          (\<exists>db'. s' = Some db' \<and> ok db' \<and>
             (contents db' = contents db \<or>
              Method r = MethodPost \<and>
              (\<exists>x. contents db' = contents db @ [x] \<and> result_bounds x \<and> ClientIPAddr x = ClientIP r))))"

definition slots_effect :: "admission \<Rightarrow> admission \<Rightarrow> bool" where
  "slots_effect a a' \<longleftrightarrow>
     sem_len a' = sem_len a \<and> sem_cap a' = sem_cap a \<and>
     (acceptedTotal a' = acceptedTotal a \<and> rejectedTotal a' = rejectedTotal a \<or>
      acceptedTotal a' = acceptedTotal a + 1 \<and> rejectedTotal a' = rejectedTotal a \<and> sem_len a < sem_cap a \<or>
      acceptedTotal a' = acceptedTotal a \<and> rejectedTotal a' = rejectedTotal a + 1 \<and> sem_len a = sem_cap a)"

definition request_effect ::
  "('db \<Rightarrow> result list) \<Rightarrow> ('db \<Rightarrow> bool) \<Rightarrow> request \<Rightarrow> ('db, 'b) handler \<Rightarrow> ('db, 'b) handler \<Rightarrow> bool" where
  "request_effect contents ok r h h' \<longleftrightarrow>
     cfg h' = cfg h \<and> h_geoip h' = h_geoip h \<and> Build h' = Build h \<and>
     (sem_len (tests h) \<le> sem_cap (tests h) \<longrightarrow> slots_effect (tests h) (tests h')) \<and>
     store_effect contents ok r (h_store h) (h_store h')"

lemma store_effect_refl [simp]: "store_effect contents ok r s s"
  by (auto simp: store_effect_def split: option.split)

lemma slots_effect_refl [simp]: "slots_effect a a"
  by (simp add: slots_effect_def)

lemma request_effect_refl [simp]: "request_effect contents ok r h h"
  by (simp add: request_effect_def)

lemma slots_refused: "\<not> sem_len a < sem_cap a \<Longrightarrow> sem_len a \<le> sem_cap a \<Longrightarrow> acquire a = (got, a') \<Longrightarrow> \<not> got \<and> slots_effect a a'"
  by (auto simp: acquire_full slots_effect_def admission_ops)

lemma slots_tested:
  "acquire a = (True, a') \<Longrightarrow> slots_effect a (release (ObserveTest d n t a'))"
  by (auto simp: acquire_def slots_effect_def admission_ops Let_def split: if_splits)

lemma slots_acquire:
  assumes "acquire a = (got, a')" and "sem_len a \<le> sem_cap a"
  shows "if got then slots_effect a (release (ObserveTest d n t a')) else slots_effect a a'"
  using slots_tested [of a a' d n t] slots_refused [of a got a'] assms by (cases got) (auto simp: acquire_def split: if_splits)

text \<open>The shape both test handlers have: refused, or run and finished.\<close>

lemma tested_effect:
  assumes "h' = h \<or> (\<exists>got a. acquire (tests h) = (got, a) \<and>
      (if got then \<exists>d n t. h' = finish_test d n t (h\<lparr>tests := a\<rparr>) else h' = h\<lparr>tests := a\<rparr>))"
  shows "request_effect contents ok r h h'"
  using assms
proof (elim disjE exE conjE)
  fix got a
  assume a: "acquire (tests h) = (got, a)"
    and h': "if got then \<exists>d n t. h' = finish_test d n t (h\<lparr>tests := a\<rparr>) else h' = h\<lparr>tests := a\<rparr>"
  show ?thesis
  proof (cases got)
    case True
    with h' obtain d n t where "h' = finish_test d n t (h\<lparr>tests := a\<rparr>)" by auto
    with slots_acquire [OF a, of d n t] True show ?thesis by (simp add: request_effect_def finish_test_def)
  next
    case False
    with h' slots_acquire [OF a] show ?thesis by (simp add: request_effect_def)
  qed
qed simp

lemma download_request_effect:
  assumes "DownloadHandler enc h r sw = Some (h', sw')"
  shows "request_effect contents ok r h h'"
proof (rule tested_effect)
  obtain got a where a: "acquire (tests h) = (got, a)" by (cases "acquire (tests h)")
  show "h' = h \<or> (\<exists>got a. acquire (tests h) = (got, a) \<and>
      (if got then \<exists>d n t. h' = finish_test d n t (h\<lparr>tests := a\<rparr>) else h' = h\<lparr>tests := a\<rparr>))"
    using assms a by (auto simp: DownloadHandler_def Let_def split: if_splits option.splits)
qed

lemma upload_request_effect:
  assumes "UploadHandler h r el = Some (rep, h', n)"
  shows "request_effect contents ok r h h'"
proof (rule tested_effect)
  obtain got a where a: "acquire (tests h) = (got, a)" by (cases "acquire (tests h)")
  show "h' = h \<or> (\<exists>got a. acquire (tests h) = (got, a) \<and>
      (if got then \<exists>d n t. h' = finish_test d n t (h\<lparr>tests := a\<rparr>) else h' = h\<lparr>tests := a\<rparr>))"
    using assms a by (auto simp: UploadHandler_def Let_def split: if_splits option.splits read_end.splits prod.splits)
qed

context result_store begin

lemma listResults_keeps:
  assumes "listResults fmt st (Some db) r = (rep, s')" and "ok db"
  shows "\<exists>db'. s' = Some db' \<and> ok db' \<and> contents db' = contents db"
proof -
  define limit where "limit = clampInt (parseQueryInt r ''limit'' 20) 1 maxListLimit"
  define offset where "offset = clampInt (parseQueryInt r ''offset'' 0) 0 maxListOffset"
  obtain x db1 where l: "List st limit offset db = (x, db1)" by (cases "List st limit offset db")
  note k1 = list_keeps [OF assms(2) l]
  obtain y db2 where c: "Count st db1 = (y, db2)" by (cases "Count st db1")
  note k2 = count_keeps [OF conjunct1 [OF k1] c]
  have "s' = Some db1 \<or> s' = Some db2"
    using assms(1) unfolding listResults_def Let_def limit_def [symmetric] offset_def [symmetric]
    by (simp add: l c split: option.splits)
  with k1 k2 show ?thesis by auto
qed

lemma export_keeps:
  assumes "ResultsExport fj fc st ts (Some db) r = (rep, s')" and "ok db"
  shows "\<exists>db'. s' = Some db' \<and> ok db' \<and> contents db' = contents db"
proof -
  obtain x db1 where l: "List st exportLimit 0 db = (x, db1)" by (cases "List st exportLimit 0 db")
  have "s' = Some db \<or> s' = Some db1"
    using assms(1) by (simp add: ResultsExport_def Let_def l split: if_splits option.splits)
  with list_keeps [OF assms(2) l] assms(2) show ?thesis by auto
qed

lemma export_effect:
  assumes "ResultsExport fj fc st ts s r = (rep, s')"
  shows "store_effect contents ok r s s'"
proof (cases s)
  case None
  with assms show ?thesis by (simp add: ResultsExport_def store_effect_def)
next
  case (Some db)
  with assms export_keeps [of fj fc ts db r rep s'] show ?thesis by (auto simp: store_effect_def)
qed

lemma results_effect:
  assumes "ResultsListOrCreate dec pf fmt loc st g t s r = Some (rep, s')"
  shows "store_effect contents ok r s s'"
proof (cases s)
  case None
  with assms show ?thesis
    by (auto simp: ResultsListOrCreate_def listResults_def createResult_def store_effect_def split: if_splits)
next
  case (Some db)
  show ?thesis
  proof (cases "Method r = MethodPost")
    case True
    then have m: "Method r \<noteq> MethodGet" by (simp add: MethodPost_def MethodGet_def)
    with True assms Some have c: "createResult dec pf loc st g t (Some db) r = Some (rep, s')"
      by (simp add: ResultsListOrCreate_def)
    then show ?thesis
      using createResult_store [OF _ c] True Some
      by (auto simp: store_effect_def server_fields_def split: if_splits)
  next
    case False
    with assms Some listResults_keeps [of fmt db r rep s'] show ?thesis
      by (auto simp: ResultsListOrCreate_def store_effect_def split: if_splits)
  qed
qed

lemma serve_effect:
  assumes "serve l rt h r sw = Some (h', sw', n)" and "store_lib l = st"
  shows "request_effect contents ok r h h'"
proof (cases rt)
  case DownloadRoute
  with assms show ?thesis by (auto intro: download_request_effect)
next
  case UploadRoute
  with assms show ?thesis by (auto simp: serve_upload_def Let_def intro: upload_request_effect split: option.splits prod.splits)
next
  case ExportRoute
  with assms show ?thesis
    by (auto simp: serve_export_def request_effect_def split: prod.splits dest: export_effect [folded assms(2)])
next
  case ResultsRoute
  with assms show ?thesis
    by (auto simp: serve_results_def request_effect_def split: option.splits prod.splits dest: results_effect [folded assms(2)])
qed (use assms in \<open>auto simp: answer_def\<close>)

lemma server_effect:
  assumes "server_ServeHTTP l i escaped h r c = Some (h', c', entry)" and "store_lib l = st"
  shows "request_effect contents ok r h h'"
  using assms(1)
proof (cases rule: server_run)
  case (1 h1 sw recv)
  have "request_effect contents ok r h h1"
    using 1(1)
  proof (cases rule: RateLimit_cases)
    case (passed rl)
    then have "request_effect contents ok r (h\<lparr>limiter := rl\<rparr>) h1"
      unfolding mux_ServeHTTP_def by (rule serve_effect) (rule assms(2))
    then show ?thesis by (simp add: request_effect_def)
  next
    case (limited rl rl' d)
    then show ?thesis by (simp add: request_effect_def)
  qed
  with 1(2) show ?thesis
    by (auto simp: request_effect_def slots_effect_def dest!: ObserveRequest_Some split: option.splits)
qed

end

section \<open>Every request is answered\<close>

definition geo_consistent :: "geo_state \<Rightarrow> bool" where
  "geo_consistent g \<longleftrightarrow> (\<forall>x. geoip g = Some x \<longrightarrow> x \<in> set (opened g))"

lemma locate_Some: "geo_consistent g \<Longrightarrow> \<exists>s. LocateIP loc g p = Some s"
  by (auto simp: geo_consistent_def LocateIP_def split: option.split)

lemma results_answer:
  assumes "geo_consistent g"
  shows "ResultsListOrCreate dec pf fmt loc st g t s r \<noteq> None"
proof -
  have "server_result loc g t r x \<noteq> None" for x
    using locate_Some [OF assms, of loc] by (auto simp: server_result_def Let_def split: option.split)
  then show ?thesis
    by (auto simp: ResultsListOrCreate_def createResult_def split: option.split prod.split)
       (metis option.distinct(1))+
qed

lemma download_duration_bound:
  "Duration c \<le> 2 ^ 46 \<Longrightarrow> download_duration c r \<le> 2 ^ 46"
  by (auto simp: download_duration_def Let_def maxDurationSecs_def Second_def split: option.split)

lemma download_answer:
  assumes "wf_config (cfg h)" and "Duration (cfg h) \<le> 2 ^ 46"
  shows "DownloadHandler enc h r sw \<noteq> None"
proof -
  have "\<exists>n sw'. download_stream (cfg h) r sw0 = Some (n, sw')" for sw0
    using download_stream_effect [OF assms(1) download_duration_bound [OF assms(2)], of r sw0] by blast
  then show ?thesis by (auto simp: DownloadHandler_def Let_def split: option.split prod.split) (metis option.distinct(1))
qed

lemma upload_answer: "UploadHandler h r el \<noteq> None"
proof -
  have "max_ok (counting_ok (\<lambda>_. True)) (limited_reader maxUploadBytes r)"
    by (simp add: max_ok_def counting_ok_def limited_reader_def body_reader_def)
  from limited.Copy_total [OF this, of 0] show ?thesis
    by (auto simp: UploadHandler_def Let_def limited_Read_def split: prod.split read_end.split)
qed

lemma serve_answer:
  assumes "wf_config (cfg h)" and "Duration (cfg h) \<le> 2 ^ 46" and "geo_consistent (h_geoip h)"
  shows "serve l rt h r sw \<noteq> None"
proof (cases rt)
  case UploadRoute
  obtain rep h' n where "UploadHandler h r (int (copy_time l r)) = Some (rep, h', n)"
    using upload_answer [of h r] by (metis option.exhaust prod_cases3)
  with UploadRoute show ?thesis by (simp add: serve_upload_def)
next
  case ResultsRoute
  moreover obtain rep s where "ResultsListOrCreate (json_value l) (parse_float l) (float_json l) (locate_in l)
      (store_lib l) (h_geoip h) (wall_ms l (sw_now sw)) (h_store h) r = Some (rep, s)"
    using results_answer [OF assms(3)] by (metis option.exhaust surj_pair)
  ultimately show ?thesis by (simp add: serve_results_def)
qed (use download_answer [OF assms(1,2)] in \<open>auto simp: answer_def serve_export_def split: prod.split\<close>)

lemma server_answer:
  assumes "wf_config (cfg h)" and "Duration (cfg h) \<le> 2 ^ 46" and "geo_consistent (h_geoip h)"
  shows "server_ServeHTTP l i escaped h r c \<noteq> None"
proof -
  have n: "mux_ServeHTTP l escaped (h\<lparr>limiter := rl\<rparr>) r sw \<noteq> None" for rl sw
    using serve_answer [of "h\<lparr>limiter := rl\<rparr>"] assms by (simp add: mux_ServeHTTP_def)
  have "mux_ServeHTTP l escaped h r sw \<noteq> None" for sw using n [of "limiter h"] by simp
  with n have "RateLimit (rate l) (json_text l) t (mux_ServeHTTP l escaped) (\<lambda>(h, sw). Some (h, sw, 0)) h r sw \<noteq> None" for t sw
    by (auto simp: RateLimit_def Let_def split: option.split prod.split)
  then show ?thesis by (auto simp: server_ServeHTTP_def loggingMiddleware_def Let_def split: option.split)
qed

section \<open>Runs of the server\<close>

text \<open>
  The server handles requests and, in between, the updater swaps in a database it has just opened and the
  limiter collects idle addresses.
\<close>

inductive srv_step :: "('db, 'b, 'r) libs \<Rightarrow> ('db, 'b) handler \<Rightarrow> ('db, 'b) handler \<Rightarrow> bool" for l where
  handled: "server_ServeHTTP l i escaped h r c = Some (h', c', entry) \<Longrightarrow> srv_step l h h'"
| swapped_in: "x \<notin> set (opened (h_geoip h)) \<Longrightarrow> g = (h_geoip h)\<lparr>opened := x # opened (h_geoip h)\<rparr> \<Longrightarrow>
    srv_step l h (h\<lparr>h_geoip := SetGeoIP (Some x) g\<rparr>)"
| collected: "srv_step l h (h\<lparr>limiter := map_option (gc t ratelimitIdleTTL) (limiter h)\<rparr>)"

definition srv_inv ::
  "('db \<Rightarrow> result list) \<Rightarrow> ('db \<Rightarrow> bool) \<Rightarrow> ('db, 'b, 'r) libs \<Rightarrow> ('db, 'b) handler \<Rightarrow> bool" where
  "srv_inv contents ok l h \<longleftrightarrow>
     result_store (store_lib l) contents ok \<and>
     wf_config (cfg h) \<and> Duration (cfg h) \<le> 2 ^ 46 \<and> geo_consistent (h_geoip h) \<and> sem_len (tests h) = 0 \<and>
     (\<forall>db. h_store h = Some db \<longrightarrow> ok db \<and> list_all result_bounds (contents db))"

definition srv_init ::
  "('db \<Rightarrow> result list) \<Rightarrow> ('db \<Rightarrow> bool) \<Rightarrow> ('db, 'b, 'r) libs \<Rightarrow> ('db, 'b) handler \<Rightarrow> bool" where
  "srv_init contents ok l h \<longleftrightarrow>
     result_store (store_lib l) contents ok \<and>
     (\<exists>c s g build g0 t. h = buildMux c s g build g0 t \<and> wf_config c \<and> Duration c \<le> 2 ^ 46 \<and>
        geoip g0 = None \<and> \<not> geoipClosed g0 \<and> (\<forall>x. g = Some x \<longrightarrow> x \<in> set (opened g0)) \<and>
        (\<forall>db. s = Some db \<longrightarrow> ok db \<and> list_all result_bounds (contents db)))"

lemma srv_inv_init: "srv_init contents ok l h \<Longrightarrow> srv_inv contents ok l h"
  by (auto simp: srv_init_def srv_inv_def buildMux_def New_def new_admission_def SetGeoIP_def geo_consistent_def Let_def)

lemma geo_consistent_swap:
  "geo_consistent g \<Longrightarrow> x \<notin> set (opened g) \<Longrightarrow> geo_consistent (SetGeoIP (Some x) (g\<lparr>opened := x # opened g\<rparr>))"
  by (auto simp: geo_consistent_def SetGeoIP_def Close_def Let_def split: option.splits)

lemma srv_inv_handled:
  assumes "server_ServeHTTP l i escaped h r c = Some (h', c', entry)" and "srv_inv contents ok l h"
  shows "srv_inv contents ok l h'"
proof -
  have store: "result_store (store_lib l) contents ok" using assms(2) by (simp add: srv_inv_def)
  note e = result_store.server_effect [OF store assms(1) refl]
  have "\<forall>db. h_store h' = Some db \<longrightarrow> ok db \<and> list_all result_bounds (contents db)"
  proof (cases "h_store h")
    case None
    with e show ?thesis by (simp add: request_effect_def store_effect_def)
  next
    case (Some db)
    with e assms(2) show ?thesis by (auto simp: request_effect_def store_effect_def srv_inv_def)
  qed
  moreover have "sem_len (tests h') = 0" using e assms(2) by (simp add: request_effect_def srv_inv_def slots_effect_def)
  ultimately show ?thesis using e assms(2) by (simp add: srv_inv_def request_effect_def)
qed

lemma srv_inv_step: "srv_step l h h' \<Longrightarrow> srv_inv contents ok l h \<Longrightarrow> srv_inv contents ok l h'"
proof (induction rule: srv_step.induct)
  case (handled i escaped h r c h' c' entry)
  then show ?case by (rule srv_inv_handled)
next
  case (swapped_in x h g)
  then show ?case using geo_consistent_swap [of "h_geoip h" x] by (simp add: srv_inv_def)
qed (simp add: srv_inv_def)

interpretation srv: machine "srv_init contents ok l" "srv_step l" "srv_inv contents ok l" for contents ok l
  by unfold_locales (auto intro: srv_inv_init srv_inv_step)

section \<open>Properties\<close>

text \<open>The server never gets stuck: after any sequence of requests, database swaps and collections no test
  slot is taken, and the next request, whatever it is and whatever its connection does, is answered.\<close>

theorem server_answers:
  assumes "srv_init contents ok l h0" and "(srv_step l)\<^sup>*\<^sup>* h0 h"
  shows "sem_len (tests h) = 0 \<and> (\<exists>h' c' entry. server_ServeHTTP l i escaped h r c = Some (h', c', entry))"
proof -
  have "srv_inv contents ok l h" by (rule srv.reach_inv [OF assms])
  then show ?thesis using server_answer [of h l i escaped r c] by (auto simp: srv_inv_def)
qed

lemma demo_init: "srv_init (stored_results id) (store_ok id) demo_libs (demo_server defaults)"
proof -
  have "result_store (store_lib demo_libs) (stored_results id) (store_ok id)"
    using mem.result_store_axioms by (simp add: demo_libs_def)
  moreover have "stored_results id demo_empty = []" by code_simp
  moreover have dur: "Duration defaults \<le> 2 ^ 46" by (simp add: defaults_def Second_def)
  ultimately show ?thesis
    unfolding srv_init_def demo_server_def
    by (intro conjI exI [of _ defaults] exI [of _ "Some demo_empty"] exI [of _ None] exI [of _ geoip0] exI)
       (auto simp: wf_defaults geoip0_def demo_empty_ok dur)
qed

theorem server_answers_witness:
  "\<exists>h' c' entry. server_ServeHTTP demo_libs ''id'' ''/x'' (demo_server defaults) demo_post demo_conn = Some (h', c', entry)"
  using server_answers [OF demo_init] by blast

text \<open>Whatever clients send, the history of a server that started with sane results only ever holds results
  in range: finite numbers within their bounds, grades and settings of bounded length, distinct ids.\<close>

theorem history_in_range:
  assumes "srv_init contents ok l h0" and "(srv_step l)\<^sup>*\<^sup>* h0 h" and "h_store h = Some db"
  shows "list_all result_bounds (contents db) \<and> distinct (map ID (contents db))"
proof -
  have "srv_inv contents ok l h" by (rule srv.reach_inv [OF assms(1,2)])
  then show ?thesis using assms(3) result_store.ids by (fastforce simp: srv_inv_def)
qed

theorem history_in_range_witness:
  "distinct (map ID (stored_results id (the (h_store (demo_server defaults)))))"
  using history_in_range [OF demo_init rtranclp.rtrancl_refl, of demo_empty]
  by (simp add: demo_server_def buildMux_def New_def)



text \<open>C24: a client over its rate cannot run a test: when the limiter refuses, any spelling of the path of a test
  endpoint gets 429 with a \<open>Retry-After\<close> of at least one second, no slot is taken and no test is counted.\<close>

theorem refused_runs_no_test:
  assumes "parsed_path escaped r" and "findHandler (Method r) escaped \<in> {PingRoute, DownloadRoute, UploadRoute}"
    and "limiter h = Some rl" and "allow (rate l) (ClientIP r) (now c) rl = ((False, d), rl')"
    and "sent c = None" and "\<not> dropped c"
  shows "\<exists>h' c' entry. server_ServeHTTP l i escaped h r c = Some (h', c', entry) \<and> l_status entry = 429 \<and>
    acceptedTotal (tests h') = acceptedTotal (tests h) \<and> sem_len (tests h') = sem_len (tests h) \<and>
    client_status c' = Some 429 \<and> (\<exists>n \<ge> 1. snd (the (sent c')) ''Retry-After'' = Some (Itoa n)) \<and>
    (dropped c' \<longrightarrow> \<not> countable l entry)"
proof -
  have p: "Path r \<in> set rateLimitedPaths" by (rule test_routes_limited [OF assms(1,2)])
  let ?sw = "new_statusWriter (Header_Set id_header i c)"
  define sw where "sw = send (json_text l) (too_many d) ?sw"
  have log: "logged i (out c) sw" unfolding sw_def by (intro logged_send logged_new assms(5,6)) simp
  have st: "sw_status sw = 429 \<and> hdrWritten sw \<and> (\<exists>hs. sent (inner sw) = Some (429, hs) \<and>
      hs ''Retry-After'' = Some (Itoa (retry_seconds d)))"
    using assms(5)
    by (auto simp: sw_def send_def too_many_def set_headers_def new_statusWriter_def sw_WriteHeader_def sw_Write_def
        Header_Set_def conn_WriteHeader_def conn_Write_def informational_def status_codes Let_def split: prod.split)
  have "1 \<le> retry_seconds d" by (simp add: retry_seconds_def Let_def)
  have run: "RateLimit (rate l) (json_text l) (now c) (mux_ServeHTTP l escaped) (\<lambda>(h, sw). Some (h, sw, 0)) h r ?sw =
      Some (h\<lparr>limiter := Some rl'\<rparr>, sw, 0)"
    by (simp add: RateLimit_def assms(3,4) p sw_def)
  obtain h' c' entry where s: "server_ServeHTTP l i escaped h r c = Some (h', c', entry)"
    using run that by (cases "ObserveRequest (label_ok l) (Method r) (Path r) (Itoa (sw_status sw)) (tests h)")
      (simp_all add: server_ServeHTTP_def loggingMiddleware_def id_header_def)
  have e: "sem_len (tests h') = sem_len (tests h) \<and> acceptedTotal (tests h') = acceptedTotal (tests h) \<and>
    (c' = conn_drop (inner sw) \<and> \<not> countable l entry \<or> c' = conn_finish (inner sw)) \<and> l_status entry = sw_status sw"
    using s
  proof (cases rule: server_run)
    case (1 h1 sw1 recv)
    with run have "h1 = h\<lparr>limiter := Some rl'\<rparr>" "sw1 = sw" by simp_all
    with 1(2-) show ?thesis
      by (auto simp: ObserveRequest_None countable_def dest!: ObserveRequest_Some split: option.splits)
  qed
  have "\<not> dropped (inner sw)" using log by (simp add: logged_def)
  with s e st \<open>1 \<le> retry_seconds d\<close> show ?thesis
    by (intro exI [of _ h'] exI [of _ c'] exI [of _ entry])
       (auto simp: conn_finish_def conn_drop_def conn_WriteHeader_def client_status_def)
qed

definition spent_limiter :: "bucket rateLimiter" where
  "spent_limiter = \<lparr>ratePerMin = 1, limiters = [''192.0.2.1'' \<mapsto> 0], lastSeen = [''192.0.2.1'' \<mapsto> 0], stopped = False,
     buckets = [0 \<mapsto> At 1 0 0], next_addr = 1\<rparr>"

lemma spent_refuses: "\<exists>d rl'. allow bucket_lib ''192.0.2.1'' 0 spent_limiter = ((False, d), rl')"
  by (simp add: allow_def limiterFor_def take_token_def spent_limiter_def bucket_lib_def bucket_delay_def refilled_def
      set_bucket_def Let_def)

theorem refused_runs_no_test_witness:
  "\<exists>h' c' entry. server_ServeHTTP demo_libs ''id'' ''/api/download''
      ((demo_server defaults)\<lparr>limiter := Some spent_limiter\<rparr>) (demo_request MethodGet [] []) demo_conn =
      Some (h', c', entry) \<and> l_status entry = 429 \<and> acceptedTotal (tests h') = 0"
proof -
  define r where "r = demo_request MethodGet [] []"
  define h where "h = (demo_server defaults)\<lparr>limiter := Some spent_limiter\<rparr>"
  have ip: "ClientIP r = ''192.0.2.1''" unfolding r_def demo_request_def by code_simp
  have "rate demo_libs = bucket_lib" "now demo_conn = 0" "sent demo_conn = None" "\<not> dropped demo_conn"
    by (simp_all add: demo_libs_def demo_conn_def)
  moreover obtain d rl' where "allow bucket_lib ''192.0.2.1'' 0 spent_limiter = ((False, d), rl')"
    using spent_refuses by blast
  moreover have "PathUnescape ''/api/download'' = Some ''/api/download''" by code_simp
  then have "parsed_path ''/api/download'' r" by (simp add: parsed_path_def r_def demo_request_def)
  moreover have "findHandler MethodGet ''/api/download'' = DownloadRoute" by code_simp
  then have "findHandler (Method r) ''/api/download'' \<in> {PingRoute, DownloadRoute, UploadRoute}"
    by (simp add: r_def demo_request_def)
  moreover have "limiter h = Some spent_limiter" "acceptedTotal (tests h) = 0"
    by (simp_all add: h_def demo_server_def buildMux_def New_def new_admission_def)
  ultimately show ?thesis
    using refused_runs_no_test [of "''/api/download''" r h spent_limiter demo_libs demo_conn d rl' "''id''"] ip
    unfolding r_def [symmetric] h_def [symmetric] by auto
qed

end
