(* ===== verification/Updater.thy ===== *)
theory Updater
  imports Geo_Holder
begin

text \<open>
  \<open>internal/geoip/updater.go\<close>: the background job that downloads a bundle, extracts the database,
  verifies it and swaps it in. The disk, the network, the archive formats and the database library are
  the environment of one tick (\<open>env\<close>): each system call may fail, the server may answer anything, the
  archive reader and the opener may panic. What the code does with that is the model.
\<close>

section \<open>The environment and the world\<close>

datatype syscall = MkdirAll | CreateTar | WriteTar | CloseTar | OpenTar | CreateMmdb | WriteMmdb | CloseMmdb
  | Rename | Remove

datatype http_result = RequestErr | DoErr | Response int string read_end

datatype opener_result = Opened | OpenErr | OpenPanic

text \<open>How a stream of the archive reader ends.\<close>

datatype stream_end = StreamEOF | StreamErr | StreamPanic

record tar_entry =
  Regular :: bool
  Name :: string
  Data :: string
  DataEnd :: stream_end

text \<open>
  \<open>http\<close> takes the URL and the modification time offered in \<open>If-Modified-Since\<close>; \<open>gunzip_tar\<close> is
  \<open>None\<close> when the gzip header is bad, otherwise the entries and how the archive ends; \<open>temp\<close> is the
  name \<open>os.CreateTemp\<close> picks, from the directory, the pattern and the files there are; \<open>stamp\<close> is the
  modification time new files get.
\<close>

type_synonym file_map = "string \<rightharpoonup> string \<times> int"

record env =
  fault :: "syscall \<Rightarrow> bool"
  http :: "string \<Rightarrow> int option \<Rightarrow> http_result"
  gunzip_tar :: "string \<Rightarrow> (tar_entry list \<times> stream_end) option"
  opener :: "string \<Rightarrow> opener_result"
  temp :: "string \<Rightarrow> string \<Rightarrow> file_map \<Rightarrow> string"
  stamp :: int

text \<open>The files, the geoip holder of the handler, the content behind each handle, the next handle and
  the log.\<close>

record world =
  files :: file_map
  holder :: geo_state
  backing :: "handle \<rightharpoonup> string"
  next_handle :: handle
  logs :: "(string \<times> string) list"

datatype 'a outcome = Done 'a | Fail string | Panic

section \<open>Configuration\<close>

text \<open>\<open>HTTPClient\<close>, \<open>Log\<close> and \<open>Opener\<close> may be nil; what they do is in the environment, so here they are
  only told apart.\<close>

record ('c, 'o) updaterConfig =
  LicenseKey :: string
  Edition :: string
  TargetPath :: string
  RefreshInterval :: int
  HTTPClient :: "'c option"
  BaseURL :: string
  Log :: bool
  Opener :: "'o option"

definition downloadHostDefault :: string where
  "downloadHostDefault = ''https://download.maxmind.com''"

datatype updater_error = LicenseKeyRequired | EditionRequired | TargetPathRequired

text \<open>The defaults of the client and the opener are arguments; a nil \<open>Log\<close> becomes one that drops its
  input, which is how \<open>logf\<close> treats it.\<close>

definition NewUpdater :: "'c \<Rightarrow> 'o \<Rightarrow> ('c, 'o) updaterConfig \<Rightarrow> updater_error + ('c, 'o) updaterConfig" where
  "NewUpdater client60 Open cfg =
     (if LicenseKey cfg = [] then Inl LicenseKeyRequired
      else if Edition cfg = [] then Inl EditionRequired
      else if TargetPath cfg = [] then Inl TargetPathRequired
      else
        (let cfg = (if RefreshInterval cfg \<le> 0 then cfg\<lparr>RefreshInterval := 7 * 24 * Hour\<rparr> else cfg);
             cfg = (if HTTPClient cfg = None then cfg\<lparr>HTTPClient := Some client60\<rparr> else cfg);
             cfg = (if BaseURL cfg = [] then cfg\<lparr>BaseURL := downloadHostDefault\<rparr> else cfg);
             cfg = (if Opener cfg = None then cfg\<lparr>Opener := Some Open\<rparr> else cfg)
         in Inr cfg))"

section \<open>Small steps on the world\<close>

definition logf :: "('c, 'o) updaterConfig \<Rightarrow> string \<Rightarrow> string \<Rightarrow> world \<Rightarrow> world" where
  "logf cfg level msg w = (if Log cfg then w\<lparr>logs := logs w @ [(level, msg)]\<rparr> else w)"

definition os_Remove :: "env \<Rightarrow> string \<Rightarrow> world \<Rightarrow> world" where
  "os_Remove env n w = (if fault env Remove then w else w\<lparr>files := (files w)(n := None)\<rparr>)"

definition write_file :: "env \<Rightarrow> string \<Rightarrow> string \<Rightarrow> world \<Rightarrow> world" where
  "write_file env n content w = w\<lparr>files := (files w)(n \<mapsto> (content, stamp env))\<rparr>"

definition os_Rename :: "string \<Rightarrow> string \<Rightarrow> world \<Rightarrow> world" where
  "os_Rename a b w = w\<lparr>files := ((files w)(b := files w a))(a := None)\<rparr>"

definition temp_in :: "env \<Rightarrow> ('c, 'o) updaterConfig \<Rightarrow> string \<Rightarrow> world \<Rightarrow> string" where
  "temp_in env cfg pattern w = temp env (path_Dir (TargetPath cfg)) pattern (files w)"

text \<open>\<open>io.Copy\<close> from an \<open>io.LimitReader\<close>: at most \<open>max\<close> bytes are read, and an end that lies beyond
  them is not seen.\<close>

definition maxBytes :: nat where
  "maxBytes = 200 * 1024 * 1024"

definition cut_off :: "string \<Rightarrow> bool" where
  "cut_off content \<longleftrightarrow> maxBytes \<le> length content"

section \<open>download\<close>

definition unreserved :: "char \<Rightarrow> bool" where
  "unreserved c \<longleftrightarrow> (let b = byte_of c in 48 \<le> b \<and> b \<le> 57 \<or> 65 \<le> b \<and> b \<le> 90 \<or> 97 \<le> b \<and> b \<le> 122 \<or>
     c \<in> set ''-_.~'')"

definition upper_hex :: "nat \<Rightarrow> char" where
  "upper_hex d = char_of (if d < 10 then 48 + d else 55 + d)"

definition QueryEscape :: "string \<Rightarrow> string" where
  "QueryEscape s = concat (map (\<lambda>c. if unreserved c then [c] else if c = CHR '' '' then ''+''
     else [CHR 0x25, upper_hex (byte_of c div 16), upper_hex (byte_of c mod 16)]) s)"

definition TrimRight_slash :: "string \<Rightarrow> string" where
  "TrimRight_slash s = rev (dropWhile (\<lambda>c. c = CHR ''/'') (rev s))"

definition download_url :: "('c, 'o) updaterConfig \<Rightarrow> string" where
  "download_url cfg = TrimRight_slash (BaseURL cfg) @ ''/app/geoip_download?'' @
     ''edition_id='' @ QueryEscape (Edition cfg) @ ''&license_key='' @ QueryEscape (LicenseKey cfg) @
     ''&suffix=tar.gz''"

definition download :: "env \<Rightarrow> ('c, 'o) updaterConfig \<Rightarrow> world \<Rightarrow> string outcome \<times> world" where
  "download env cfg w =
     (case http env (download_url cfg) (map_option snd (files w (TargetPath cfg))) of
        RequestErr \<Rightarrow> (Fail ''new request'', w)
      | DoErr \<Rightarrow> (Fail ''http'', w)
      | Response code body bend \<Rightarrow>
          if code = 304 then (Done [], w)
          else if code \<noteq> 200 then (Fail ''http status'', w)
          else if fault env CreateTar then (Fail ''create temp'', w)
          else
            (let tmp = temp_in env cfg ''geoip-*.tar.gz'' w;
                 w = write_file env tmp (take maxBytes body) w
             in if fault env WriteTar \<or> (\<not> cut_off body \<and> bend \<noteq> EOF)
                then (Fail ''copy body'', os_Remove env tmp w)
                else if fault env CloseTar then (Fail ''close temp'', os_Remove env tmp w)
                else if cut_off body then (Fail ''bundle exceeds'', os_Remove env tmp w)
                else (Done tmp, w)))"

section \<open>extract\<close>

definition is_mmdb :: "tar_entry \<Rightarrow> bool" where
  "is_mmdb e \<longleftrightarrow> Regular e \<and> HasSuffix (ToLower (path_Base (Name e))) ''.mmdb''"

text \<open>Copying the entry to a fresh file. A panic of the archive reader leaves that file behind.\<close>

definition extract_entry :: "env \<Rightarrow> ('c, 'o) updaterConfig \<Rightarrow> tar_entry \<Rightarrow> world \<Rightarrow> string outcome \<times> world" where
  "extract_entry env cfg e w =
     (if fault env CreateMmdb then (Fail ''create temp mmdb'', w)
      else
        (let out = temp_in env cfg ''geoip-*.mmdb'' w;
             w = write_file env out (take maxBytes (Data e)) w
         in if \<not> cut_off (Data e) \<and> DataEnd e = StreamPanic then (Panic, w)
            else if fault env WriteMmdb \<or> (\<not> cut_off (Data e) \<and> DataEnd e = StreamErr)
            then (Fail ''copy mmdb'', os_Remove env out w)
            else if fault env CloseMmdb then (Fail ''close mmdb'', os_Remove env out w)
            else (Done out, w)))"

fun extract_loop ::
  "env \<Rightarrow> ('c, 'o) updaterConfig \<Rightarrow> tar_entry list \<Rightarrow> stream_end \<Rightarrow> world \<Rightarrow> string outcome \<times> world" where
  "extract_loop env cfg [] StreamEOF w = (Fail ''no .mmdb entry in archive'', w)"
| "extract_loop env cfg [] StreamErr w = (Fail ''tar next'', w)"
| "extract_loop env cfg [] StreamPanic w = (Panic, w)"
| "extract_loop env cfg (e # es) tend w =
     (if \<not> is_mmdb e then extract_loop env cfg es tend w else extract_entry env cfg e w)"

definition extract_bundle :: "env \<Rightarrow> ('c, 'o) updaterConfig \<Rightarrow> string \<Rightarrow> world \<Rightarrow> string outcome \<times> world" where
  "extract_bundle env cfg tarGzPath w =
     (if fault env OpenTar then (Fail ''open tar'', w)
      else (case files w tarGzPath of
          None \<Rightarrow> (Fail ''open tar'', w)
        | Some (content, _) \<Rightarrow>
            (case gunzip_tar env content of
               None \<Rightarrow> (Fail ''gzip'', w)
             | Some (entries, tend) \<Rightarrow> extract_loop env cfg entries tend w)))"

section \<open>tick, tickSafe, Run\<close>

type_synonym swap = "handle \<Rightarrow> geo_state \<Rightarrow> geo_state"

text \<open>The opener opens the extracted file: a new handle, over the content of the file.\<close>

definition open_lookup :: "string \<Rightarrow> world \<Rightarrow> world" where
  "open_lookup content w = w\<lparr>holder := (holder w)\<lparr>opened := next_handle w # opened (holder w)\<rparr>,
     backing := (backing w)(next_handle w \<mapsto> content), next_handle := next_handle w + 1\<rparr>"

definition install ::
  "env \<Rightarrow> ('c, 'o) updaterConfig \<Rightarrow> swap option \<Rightarrow> string \<Rightarrow> world \<Rightarrow> unit outcome \<times> world" where
  "install env cfg onSwap extracted w =
     (case files w extracted of
        None \<Rightarrow> (Done (), logf cfg ''warn'' ''geoip: verify failed'' w)
      | Some (content, _) \<Rightarrow>
          (case opener env content of
             OpenPanic \<Rightarrow> (Panic, w)
           | OpenErr \<Rightarrow> (Done (), logf cfg ''warn'' ''geoip: verify failed'' w)
           | Opened \<Rightarrow>
               (let lu = next_handle w; w = open_lookup content w in
                if fault env Rename
                then (Done (), logf cfg ''warn'' ''geoip: rename failed'' (w\<lparr>holder := Close lu (holder w)\<rparr>))
                else
                  (let w = logf cfg ''info'' ''geoip: mmdb updated'' (os_Rename extracted (TargetPath cfg) w)
                   in (Done (), w\<lparr>holder := (case onSwap of Some f \<Rightarrow> f lu (holder w)
                                              | None \<Rightarrow> Close lu (holder w))\<rparr>)))))"

text \<open>The deferred removals run on every way out, a panic included.\<close>

definition unpack ::
  "env \<Rightarrow> ('c, 'o) updaterConfig \<Rightarrow> swap option \<Rightarrow> string \<Rightarrow> world \<Rightarrow> unit outcome \<times> world" where
  "unpack env cfg onSwap tmp w =
     (case extract_bundle env cfg tmp w of
        (Panic, w) \<Rightarrow> (Panic, w)
      | (Fail e, w) \<Rightarrow> (Done (), logf cfg ''warn'' ''geoip: extract failed'' w)
      | (Done extracted, w) \<Rightarrow>
          (case install env cfg onSwap extracted w of (r, w) \<Rightarrow> (r, os_Remove env extracted w)))"

definition tick :: "env \<Rightarrow> ('c, 'o) updaterConfig \<Rightarrow> swap option \<Rightarrow> world \<Rightarrow> unit outcome \<times> world" where
  "tick env cfg onSwap w =
     (let w = logf cfg ''info'' ''geoip: checking for update'' w in
      if fault env MkdirAll then (Done (), logf cfg ''warn'' ''geoip: target dir create failed'' w)
      else
        (case download env cfg w of
           (Panic, w) \<Rightarrow> (Panic, w)
         | (Fail e, w) \<Rightarrow> (Done (), logf cfg ''warn'' ''geoip: download failed'' w)
         | (Done tmp, w) \<Rightarrow>
             if tmp = [] then (Done (), logf cfg ''info'' ''geoip: already up to date'' w)
             else (case unpack env cfg onSwap tmp w of (r, w) \<Rightarrow> (r, os_Remove env tmp w))))"

definition tickSafe :: "env \<Rightarrow> ('c, 'o) updaterConfig \<Rightarrow> swap option \<Rightarrow> world \<Rightarrow> world" where
  "tickSafe env cfg onSwap w =
     (case tick env cfg onSwap w of
        (Panic, w) \<Rightarrow> logf cfg ''warn'' ''geoip: tick panicked'' w
      | (_, w) \<Rightarrow> w)"

text \<open>The select of the loop: a tick of the ticker, each with its own environment, or the cancelled
  context. The loop waits when the list is at its end.\<close>

datatype event = Ticked env | Cancelled

fun run_loop :: "('c, 'o) updaterConfig \<Rightarrow> swap option \<Rightarrow> event list \<Rightarrow> world \<Rightarrow> bool \<times> world" where
  "run_loop cfg onSwap [] w = (False, w)"
| "run_loop cfg onSwap (Cancelled # evs) w = (True, w)"
| "run_loop cfg onSwap (Ticked env # evs) w = run_loop cfg onSwap evs (tickSafe env cfg onSwap w)"

definition Run :: "('c, 'o) updaterConfig \<Rightarrow> swap option \<Rightarrow> env \<Rightarrow> event list \<Rightarrow> world \<Rightarrow> bool \<times> world" where
  "Run cfg onSwap env0 evs w = run_loop cfg onSwap evs (tickSafe env0 cfg onSwap w)"

section \<open>What a tick can do to the files\<close>

text \<open>The temporary names of a tick; \<open>os.CreateTemp\<close> promises new names.\<close>

definition tar_temp :: "env \<Rightarrow> ('c, 'o) updaterConfig \<Rightarrow> world \<Rightarrow> string" where
  "tar_temp env cfg w = temp_in env cfg ''geoip-*.tar.gz'' w"

definition mmdb_temp :: "env \<Rightarrow> ('c, 'o) updaterConfig \<Rightarrow> world \<Rightarrow> string \<Rightarrow> string" where
  "mmdb_temp env cfg w body = temp_in env cfg ''geoip-*.mmdb'' (write_file env (tar_temp env cfg w) body w)"

definition temps :: "env \<Rightarrow> ('c, 'o) updaterConfig \<Rightarrow> world \<Rightarrow> string set" where
  "temps env cfg w = insert (tar_temp env cfg w) (range (mmdb_temp env cfg w))"

definition temps_new :: "env \<Rightarrow> ('c, 'o) updaterConfig \<Rightarrow> world \<Rightarrow> bool" where
  "temps_new env cfg w \<longleftrightarrow>
     (\<forall>n \<in> temps env cfg w. files w n = None \<and> n \<noteq> TargetPath cfg \<and> n \<noteq> []) \<and>
     (\<forall>body. mmdb_temp env cfg w body \<noteq> tar_temp env cfg w)"

text \<open>No removal fails and the archive reader does not panic in the middle of an entry.\<close>

definition clean :: "env \<Rightarrow> bool" where
  "clean env \<longleftrightarrow> \<not> fault env Remove \<and>
     (\<forall>c es tend. gunzip_tar env c = Some (es, tend) \<longrightarrow> (\<forall>e \<in> set es. DataEnd e \<noteq> StreamPanic))"

text \<open>\<open>F'\<close> differs from \<open>F\<close> at most in the names \<open>T\<close>, and not even there in a clean run.\<close>

definition settles :: "bool \<Rightarrow> string set \<Rightarrow> file_map \<Rightarrow> file_map \<Rightarrow> bool" where
  "settles ok T F F' \<longleftrightarrow> (\<forall>n. n \<notin> T \<longrightarrow> F' n = F n) \<and> (ok \<longrightarrow> (\<forall>n \<in> T. F' n = F n))"

lemma settles_refl [simp]: "settles ok T F F"
  by (simp add: settles_def)

lemma settles_weaken: "settles ok S F F' \<Longrightarrow> S \<subseteq> T \<Longrightarrow> (ok' \<Longrightarrow> ok) \<Longrightarrow> settles ok' T F F'"
  unfolding settles_def by blast

lemma settles_eq: "settles True T F F' \<longleftrightarrow> F' = F"
  by (auto simp: settles_def)

lemma logf_simps [simp]:
  "files (logf cfg l m w) = files w" "holder (logf cfg l m w) = holder w" "backing (logf cfg l m w) = backing w"
  "next_handle (logf cfg l m w) = next_handle w"
  by (simp_all add: logf_def)

lemma files_simps [simp]:
  "holder (os_Remove env n w) = holder w" "backing (os_Remove env n w) = backing w"
  "next_handle (os_Remove env n w) = next_handle w"
  "holder (write_file env n c w) = holder w" "backing (write_file env n c w) = backing w"
  "next_handle (write_file env n c w) = next_handle w"
  "files (write_file env n c w) = (files w)(n \<mapsto> (c, stamp env))"
  "files (os_Remove env n w) = (if fault env Remove then files w else (files w)(n := None))"
  by (simp_all add: os_Remove_def write_file_def)

text \<open>Everything but the files and the log is as before.\<close>

definition same_handles :: "world \<Rightarrow> world \<Rightarrow> bool" where
  "same_handles w w' \<longleftrightarrow> holder w' = holder w \<and> backing w' = backing w \<and> next_handle w' = next_handle w"

lemma same_handles_refl [simp]: "same_handles w w"
  by (simp add: same_handles_def)

lemma download_cases:
  assumes "download env cfg w = (r, w1)" and new: "files w (tar_temp env cfg w) = None"
  shows "(\<exists>body. r = Done (tar_temp env cfg w) \<and> w1 = write_file env (tar_temp env cfg w) body w \<and>
            http env (download_url cfg) (map_option snd (files w (TargetPath cfg))) = Response 200 body EOF) \<or>
         (r = Done [] \<or> (\<exists>e. r = Fail e)) \<and> same_handles w w1 \<and>
            settles (\<not> fault env Remove) {tar_temp env cfg w} (files w) (files w1)"
  using assms
  by (auto simp: download_def Let_def tar_temp_def [symmetric] cut_off_def same_handles_def settles_def
      split: http_result.splits if_splits)

lemma extract_entry_cases:
  assumes "extract_entry env cfg e w = (r, w1)" and "files w t = None"
    and t: "t = temp_in env cfg ''geoip-*.mmdb'' w"
  shows "r = Done t \<and> w1 = write_file env t (take maxBytes (Data e)) w \<or>
         (\<forall>x. r \<noteq> Done x) \<and> same_handles w w1 \<and>
            settles (\<not> fault env Remove \<and> DataEnd e \<noteq> StreamPanic) {t} (files w) (files w1)"
  using assms
  by (auto simp: extract_entry_def Let_def same_handles_def settles_def split: if_splits)

lemma extract_loop_find:
  "extract_loop env cfg es tend w =
     (case find is_mmdb es of Some e \<Rightarrow> extract_entry env cfg e w
      | None \<Rightarrow> (case tend of StreamEOF \<Rightarrow> Fail ''no .mmdb entry in archive'' | StreamErr \<Rightarrow> Fail ''tar next''
                  | StreamPanic \<Rightarrow> Panic, w))"
  by (induction es) (auto split: stream_end.split)

text \<open>The database a body holds: the first regular entry with the right suffix.\<close>

definition bundle_entry :: "env \<Rightarrow> string \<Rightarrow> tar_entry option" where
  "bundle_entry env body = (case gunzip_tar env body of None \<Rightarrow> None | Some (es, _) \<Rightarrow> find is_mmdb es)"

lemma extract_cases:
  assumes x: "extract_bundle env cfg tmp w = (r, w1)" and c: "files w tmp = Some (body, m)"
    and "files w t = None" and "t = temp_in env cfg ''geoip-*.mmdb'' w"
  shows "(\<exists>e. bundle_entry env body = Some e \<and> r = Done t \<and>
            w1 = write_file env t (take maxBytes (Data e)) w) \<or>
         (\<forall>x. r \<noteq> Done x) \<and> same_handles w w1 \<and> settles (clean env) {t} (files w) (files w1)"
proof (cases "gunzip_tar env body")
  case None
  with x c show ?thesis by (auto simp: extract_bundle_def split: if_splits)
next
  case (Some p)
  obtain es tend where p: "p = (es, tend)" by (cases p)
  show ?thesis
  proof (cases "find is_mmdb es")
    case None
    with x c Some p show ?thesis
      by (auto simp: extract_bundle_def extract_loop_find split: if_splits stream_end.splits)
  next
    case (Some e)
    have "e \<in> set es" using Some by (auto simp: find_Some_iff)
    then have cl: "clean env \<Longrightarrow> \<not> fault env Remove \<and> DataEnd e \<noteq> StreamPanic"
      using \<open>gunzip_tar env body = Some p\<close> p by (auto simp: clean_def)
    show ?thesis
    proof (cases "fault env OpenTar")
      case True
      with x show ?thesis by (auto simp: extract_bundle_def)
    next
      case False
      then have "extract_entry env cfg e w = (r, w1)"
        using x c \<open>gunzip_tar env body = Some p\<close> p Some by (simp add: extract_bundle_def extract_loop_find)
      from extract_entry_cases [OF this assms(3,4)] cl show ?thesis
        using \<open>gunzip_tar env body = Some p\<close> p Some
        by (auto simp: bundle_entry_def settles_def)
    qed
  qed
qed

text \<open>The holder after the callback.\<close>

definition swapped :: "swap option \<Rightarrow> string \<Rightarrow> world \<Rightarrow> geo_state" where
  "swapped onSwap content w = (case onSwap of None \<Rightarrow> holder w
     | Some f \<Rightarrow> f (next_handle w) (holder (open_lookup content w)))"

lemma Close_opened [simp]: "Close h (g\<lparr>opened := h # opened g\<rparr>) = g"
  by (simp add: Close_def)

lemma install_cases:
  assumes "install env cfg onSwap t w = (r, w1)" and "files w t = Some (content, m)" and "t \<noteq> TargetPath cfg"
  shows "opener env content = Opened \<and> r = Done () \<and>
           files w1 = ((files w)(TargetPath cfg \<mapsto> (content, m)))(t := None) \<and>
           holder w1 = swapped onSwap content w \<and> backing w1 = (backing w)(next_handle w \<mapsto> content) \<and>
           next_handle w1 = next_handle w + 1 \<or>
         files w1 = files w \<and> holder w1 = holder w \<and> next_handle w \<le> next_handle w1 \<and>
           (\<forall>h < next_handle w. backing w1 h = backing w h)"
  using assms
  by (auto simp: install_def Let_def open_lookup_def swapped_def os_Rename_def fun_upd_twist
      split: opener_result.splits if_splits option.splits)

lemma swapped_cong:
  "holder w' = holder w \<Longrightarrow> next_handle w' = next_handle w \<Longrightarrow> swapped f c w' = swapped f c w"
  by (simp add: swapped_def open_lookup_def split: option.split)

text \<open>The two ways a tick can end: the verified database of the downloaded bundle is in place and handed
  over, or everything is as it was.\<close>

definition installed ::
  "env \<Rightarrow> ('c, 'o) updaterConfig \<Rightarrow> swap option \<Rightarrow> world \<Rightarrow> world \<Rightarrow> bool" where
  "installed env cfg onSwap w w1 \<longleftrightarrow>
     (\<exists>body e. http env (download_url cfg) (map_option snd (files w (TargetPath cfg))) = Response 200 body EOF \<and>
        bundle_entry env body = Some e \<and> opener env (take maxBytes (Data e)) = Opened \<and>
        settles (clean env) (temps env cfg w)
          ((files w)(TargetPath cfg \<mapsto> (take maxBytes (Data e), stamp env))) (files w1) \<and>
        holder w1 = swapped onSwap (take maxBytes (Data e)) w \<and>
        backing w1 = (backing w)(next_handle w \<mapsto> take maxBytes (Data e)) \<and>
        next_handle w1 = next_handle w + 1)"

definition skipped :: "env \<Rightarrow> ('c, 'o) updaterConfig \<Rightarrow> world \<Rightarrow> world \<Rightarrow> bool" where
  "skipped env cfg w w1 \<longleftrightarrow>
     settles (clean env) (temps env cfg w) (files w) (files w1) \<and> holder w1 = holder w \<and>
     next_handle w \<le> next_handle w1 \<and> (\<forall>h < next_handle w. backing w1 h = backing w h)"

lemma clean_Remove: "clean env \<Longrightarrow> \<not> fault env Remove"
  by (simp add: clean_def)

lemma skipped_same:
  "same_handles w w1 \<Longrightarrow> settles (\<not> fault env Remove) {tar_temp env cfg w} (files w) (files w1) \<Longrightarrow> skipped env cfg w w1"
  unfolding skipped_def same_handles_def
  by (auto simp: temps_def elim: settles_weaken dest: clean_Remove)

lemma unpack_cases:
  assumes u: "unpack env cfg onSwap tmp (write_file env tmp body w) = (r, w1)"
    and new: "temps_new env cfg w" and tmp: "tmp = tar_temp env cfg w"
    and h: "http env (download_url cfg) (map_option snd (files w (TargetPath cfg))) = Response 200 body EOF"
  shows "installed env cfg onSwap w (os_Remove env tmp w1) \<or> skipped env cfg w (os_Remove env tmp w1)"
proof -
  let ?w = "write_file env tmp body w"
  define t where "t = mmdb_temp env cfg w body"
  have t: "t = temp_in env cfg ''geoip-*.mmdb'' ?w" by (simp add: t_def mmdb_temp_def tmp)
  have T: "tmp \<in> temps env cfg w" "t \<in> temps env cfg w" by (auto simp: temps_def tmp t_def)
  have n: "files w tmp = None" "files w t = None" "t \<noteq> tmp" "tmp \<noteq> TargetPath cfg" "t \<noteq> TargetPath cfg"
    using new T by (auto simp: temps_new_def t_def tmp)
  have out: "F' = F" if "n \<notin> temps env cfg w \<Longrightarrow> F' = F" and "n \<notin> temps env cfg w" for n and F F' :: "(string \<times> int) option"
    using that by simp
  obtain x w2 where x: "extract_bundle env cfg tmp ?w = (x, w2)" by (cases "extract_bundle env cfg tmp ?w")
  have "files ?w tmp = Some (body, stamp env)" "files ?w t = None" using n by simp_all
  from extract_cases [OF x this t] show ?thesis
  proof (elim disjE exE conjE)
    fix e assume e: "bundle_entry env body = Some e" and x1: "x = Done t"
      and w2: "w2 = write_file env t (take maxBytes (Data e)) ?w"
    obtain r3 w3 where i: "install env cfg onSwap t w2 = (r3, w3)" by (cases "install env cfg onSwap t w2")
    have w1: "w1 = os_Remove env t w3" using u x x1 i by (simp add: unpack_def)
    have f2: "files w2 = (files w)(tmp \<mapsto> (body, stamp env), t \<mapsto> (take maxBytes (Data e), stamp env))"
      by (simp add: w2)
    then have "files w2 t = Some (take maxBytes (Data e), stamp env)" by simp
    from install_cases [OF i this n(5)] show ?thesis
    proof (elim disjE conjE)
      assume *: "opener env (take maxBytes (Data e)) = Opened"
        "files w3 = ((files w2)(TargetPath cfg \<mapsto> (take maxBytes (Data e), stamp env)))(t := None)"
        "holder w3 = swapped onSwap (take maxBytes (Data e)) w2"
        "backing w3 = (backing w2)(next_handle w2 \<mapsto> take maxBytes (Data e))"
        "next_handle w3 = next_handle w2 + 1"
      have "swapped onSwap (take maxBytes (Data e)) w2 = swapped onSwap (take maxBytes (Data e)) w"
        by (rule swapped_cong) (simp_all add: w2)
      moreover have "settles (clean env) (temps env cfg w)
          ((files w)(TargetPath cfg \<mapsto> (take maxBytes (Data e), stamp env))) (files (os_Remove env tmp w1))"
        using n T by (auto simp: w1 *(2) f2 settles_def temps_new_def dest: clean_Remove)
      ultimately show ?thesis using h e *(1,3,4,5) by (auto simp: installed_def w1 w2)
    next
      assume *: "files w3 = files w2" "holder w3 = holder w2" "next_handle w2 \<le> next_handle w3"
        "\<forall>h<next_handle w2. backing w3 h = backing w2 h"
      have "settles (clean env) (temps env cfg w) (files w) (files (os_Remove env tmp w1))"
        using n T by (auto simp: w1 *(1) f2 settles_def dest: clean_Remove)
      with * show ?thesis by (auto simp: skipped_def w1 w2)
    qed
  next
    assume nd: "\<forall>y. x \<noteq> Done y" and sh: "same_handles ?w w2" and st: "settles (clean env) {t} (files ?w) (files w2)"
    have w1: "same_handles w2 w1 \<and> files w1 = files w2"
      using u x nd by (auto simp: unpack_def same_handles_def split: outcome.splits)
    have "settles (clean env) (temps env cfg w) (files w) (files (os_Remove env tmp w1))"
      unfolding settles_def
    proof (intro conjI allI impI ballI)
      fix k assume "k \<notin> temps env cfg w"
      then show "files (os_Remove env tmp w1) k = files w k" using n T st by (cases "k = t") (auto simp: w1 settles_def)
    next
      fix k assume "clean env" and "k \<in> temps env cfg w"
      then show "files (os_Remove env tmp w1) k = files w k"
        using n st by (cases "k = t") (auto simp: w1 settles_def dest: clean_Remove)
    qed
    with w1 sh show ?thesis by (auto simp: skipped_def same_handles_def)
  qed
qed

lemma temps_logf [simp]: "temps env cfg (logf cfg' l m w) = temps env cfg w"
  "temps_new env cfg (logf cfg' l m w) = temps_new env cfg w"
  by (simp_all add: temps_new_def temps_def tar_temp_def mmdb_temp_def temp_in_def)

lemma tick_logf: "installed env cfg f (logf cfg l m w) w1 = installed env cfg f w w1"
  "skipped env cfg (logf cfg l m w) w1 = skipped env cfg w w1"
  "installed env cfg f w (logf cfg l m w1) = installed env cfg f w w1"
  "skipped env cfg w (logf cfg l m w1) = skipped env cfg w w1"
  using swapped_cong [of "logf cfg l m w" w] by (simp_all add: installed_def skipped_def)

lemma skipped_refl [simp]: "skipped env cfg w w"
  by (simp add: skipped_def)

lemma tick_cases:
  assumes tk: "tick env cfg onSwap w = (r, w1)" and new: "temps_new env cfg w"
  shows "installed env cfg onSwap w w1 \<or> skipped env cfg w w1"
proof -
  define w0 where "w0 = logf cfg ''info'' ''geoip: checking for update'' w"
  have new0: "temps_new env cfg w0" using new by (simp add: w0_def)
  have "installed env cfg onSwap w0 w1 \<or> skipped env cfg w0 w1"
  proof (cases "fault env MkdirAll")
    case True
    with tk show ?thesis by (auto simp: tick_def w0_def Let_def tick_logf)
  next
    case False
    obtain x w2 where x: "download env cfg w0 = (x, w2)" by (cases "download env cfg w0")
    have T: "tar_temp env cfg w0 \<in> temps env cfg w0" by (simp add: temps_def)
    have n: "files w0 (tar_temp env cfg w0) = None" "tar_temp env cfg w0 \<noteq> []"
      using new0 T by (auto simp: temps_new_def)
    from download_cases [OF x n(1)] show ?thesis
    proof (elim disjE exE conjE)
      fix body assume x1: "x = Done (tar_temp env cfg w0)"
        and w2: "w2 = write_file env (tar_temp env cfg w0) body w0"
        and h: "http env (download_url cfg) (map_option snd (files w0 (TargetPath cfg))) = Response 200 body EOF"
      obtain r3 w3 where u: "unpack env cfg onSwap (tar_temp env cfg w0) w2 = (r3, w3)"
        by (cases "unpack env cfg onSwap (tar_temp env cfg w0) w2")
      have "w1 = os_Remove env (tar_temp env cfg w0) w3"
        using tk x x1 u False n(2) by (simp add: tick_def w0_def [symmetric])
      with unpack_cases [OF u [unfolded w2] new0 refl h] show ?thesis by simp
    next
      assume x1: "x = Done []" and "same_handles w0 w2"
        and st: "settles (\<not> fault env Remove) {tar_temp env cfg w0} (files w0) (files w2)"
      then have "skipped env cfg w0 w2" by (intro skipped_same)
      moreover have "w1 = logf cfg ''info'' ''geoip: already up to date'' w2"
        using tk x x1 False by (simp add: tick_def w0_def [symmetric])
      ultimately show ?thesis by (simp add: tick_logf)
    next
      fix e assume x1: "x = Fail e" and "same_handles w0 w2"
        and st: "settles (\<not> fault env Remove) {tar_temp env cfg w0} (files w0) (files w2)"
      then have "skipped env cfg w0 w2" by (intro skipped_same)
      moreover have "w1 = logf cfg ''warn'' ''geoip: download failed'' w2"
        using tk x x1 False by (simp add: tick_def w0_def [symmetric])
      ultimately show ?thesis by (simp add: tick_logf)
    qed
  qed
  then show ?thesis by (simp add: w0_def tick_logf)
qed

lemma tickSafe_cases:
  assumes "temps_new env cfg w"
  shows "installed env cfg onSwap w (tickSafe env cfg onSwap w) \<or> skipped env cfg w (tickSafe env cfg onSwap w)"
proof -
  obtain r w1 where t: "tick env cfg onSwap w = (r, w1)" by (cases "tick env cfg onSwap w")
  then have "tickSafe env cfg onSwap w = w1 \<or>
      tickSafe env cfg onSwap w = logf cfg ''warn'' ''geoip: tick panicked'' w1"
    by (simp add: tickSafe_def split: outcome.split)
  with tick_cases [OF t assms] show ?thesis by (auto simp: tick_logf)
qed

section \<open>The life of the updater\<close>

text \<open>
  Any sequence of ticks, each in its own environment, and shutdowns. \<open>good\<close> is any property of
  database files the opener guarantees.
\<close>

definition SetGeoIP_swap :: swap where
  "SetGeoIP_swap lu g = SetGeoIP (Some lu) g"

inductive upd_step :: "(string \<Rightarrow> bool) \<Rightarrow> ('c, 'o) updaterConfig \<Rightarrow> world \<Rightarrow> world \<Rightarrow> bool"
  for good cfg where
  tick: "temps_new env cfg w \<Longrightarrow> (\<And>c. opener env c = Opened \<Longrightarrow> good c) \<Longrightarrow>
    upd_step good cfg w (tickSafe env cfg (Some SetGeoIP_swap) w)"
| shut: "upd_step good cfg w (w\<lparr>holder := CloseGeoIP (holder w)\<rparr>)"

text \<open>At the start the handler may hold the database opened from the configured path.\<close>

definition owns :: "geo_state \<Rightarrow> bool" where
  "owns g \<longleftrightarrow> opened g = (case geoip g of None \<Rightarrow> [] | Some h \<Rightarrow> [h]) \<and> (geoipClosed g \<longrightarrow> geoip g = None)"

definition upd_inv :: "(string \<Rightarrow> bool) \<Rightarrow> ('c, 'o) updaterConfig \<Rightarrow> world \<Rightarrow> bool" where
  "upd_inv good cfg w \<longleftrightarrow> owns (holder w) \<and>
     (\<forall>c m. files w (TargetPath cfg) = Some (c, m) \<longrightarrow> good c) \<and>
     (\<forall>h. geoip (holder w) = Some h \<longrightarrow> h < next_handle w \<and> (\<exists>c. backing w h = Some c \<and> good c))"

definition upd_init :: "(string \<Rightarrow> bool) \<Rightarrow> ('c, 'o) updaterConfig \<Rightarrow> world \<Rightarrow> bool" where
  "upd_init good cfg w \<longleftrightarrow>
     (\<forall>c m. files w (TargetPath cfg) = Some (c, m) \<longrightarrow> good c) \<and>
     (holder w = geoip0 \<or>
      (\<exists>c. good c \<and> backing w 0 = Some c \<and> next_handle w = 1 \<and>
         holder w = SetGeoIP (Some 0) (geoip0\<lparr>opened := [0]\<rparr>)))"

lemma upd_inv_init: "upd_init good cfg w \<Longrightarrow> upd_inv good cfg w"
  by (auto simp: upd_init_def upd_inv_def owns_def geoip0_def SetGeoIP_def)

lemma owns_CloseGeoIP: "owns g \<Longrightarrow> owns (CloseGeoIP g) \<and> geoip (CloseGeoIP g) = None"
  by (auto simp: owns_def CloseGeoIP_def Close_def Let_def split: option.splits)

lemma settles_target:
  "temps_new env cfg w \<Longrightarrow> settles ok (temps env cfg w) F F' \<Longrightarrow> F' (TargetPath cfg) = F (TargetPath cfg)"
  by (auto simp: settles_def temps_new_def)

lemma swapped_SetGeoIP:
  assumes "owns (holder w)" and "\<And>h. geoip (holder w) = Some h \<Longrightarrow> h < next_handle w"
  shows "owns (swapped (Some SetGeoIP_swap) c w) \<and>
    geoip (swapped (Some SetGeoIP_swap) c w) = (if geoipClosed (holder w) then None else Some (next_handle w))"
  using assms
  by (auto simp: owns_def swapped_def SetGeoIP_swap_def SetGeoIP_def open_lookup_def Close_def Let_def
      split: option.splits)

lemma upd_inv_step: "upd_step good cfg w w' \<Longrightarrow> upd_inv good cfg w \<Longrightarrow> upd_inv good cfg w'"
proof (induction rule: upd_step.induct)
  case (tick env w)
  let ?w1 = "tickSafe env cfg (Some SetGeoIP_swap) w"
  from tickSafe_cases [OF tick.hyps(1), of "Some SetGeoIP_swap"] show ?case
  proof
    assume "installed env cfg (Some SetGeoIP_swap) w (tickSafe env cfg (Some SetGeoIP_swap) w)"
    then obtain e :: tar_entry where e: "opener env (take maxBytes (Data e)) = Opened"
      and f: "settles (clean env) (temps env cfg w)
        ((files w)(TargetPath cfg \<mapsto> (take maxBytes (Data e), stamp env))) (files ?w1)"
      and h: "holder ?w1 = swapped (Some SetGeoIP_swap) (take maxBytes (Data e)) w"
      and b: "backing ?w1 = (backing w)(next_handle w \<mapsto> take maxBytes (Data e))"
      and k: "next_handle ?w1 = next_handle w + 1"
      unfolding installed_def by blast
    have "good (take maxBytes (Data e))" by (rule tick.hyps(2) [OF e])
    moreover have "files ?w1 (TargetPath cfg) = Some (take maxBytes (Data e), stamp env)"
      using settles_target [OF tick.hyps(1) f] by simp
    moreover have "owns (holder w)" and "\<And>h. geoip (holder w) = Some h \<Longrightarrow> h < next_handle w"
      using tick.prems by (auto simp: upd_inv_def)
    note swapped_SetGeoIP [OF this, of "take maxBytes (Data e)"]
    ultimately show ?thesis by (simp add: upd_inv_def h b k)
  next
    assume sk: "skipped env cfg w ?w1"
    then have "settles (clean env) (temps env cfg w) (files w) (files ?w1)" by (simp add: skipped_def)
    note settles_target [OF tick.hyps(1) this]
    with sk tick.prems show ?thesis by (simp add: skipped_def upd_inv_def) (metis order.strict_trans2)
  qed
next
  case (shut w)
  then show ?case using owns_CloseGeoIP by (auto simp: upd_inv_def)
qed

interpretation upd: machine "upd_init good cfg" "upd_step good cfg" "upd_inv good cfg" for good cfg
  by unfold_locales (auto intro: upd_inv_init upd_inv_step)

section \<open>Properties\<close>

text \<open>A first download into an empty directory, used by the witnesses.\<close>

definition demo_updater :: "(unit, unit) updaterConfig" where
  "demo_updater = \<lparr>LicenseKey = ''k'', Edition = ''City'', TargetPath = ''geo.mmdb'', RefreshInterval = 0,
     HTTPClient = None, BaseURL = ''https://m/'', Log = True, Opener = None\<rparr>"

definition demo_bundle :: "tar_entry list" where
  "demo_bundle = [\<lparr>Regular = True, Name = ''City_1/LICENSE.txt'', Data = ''text'', DataEnd = StreamEOF\<rparr>,
     \<lparr>Regular = True, Name = ''City_1/City.MMDB'', Data = ''db'', DataEnd = StreamEOF\<rparr>]"

definition demo_environment :: env where
  "demo_environment = \<lparr>fault = (\<lambda>_. False),
     http = (\<lambda>_ since. case since of None \<Rightarrow> Response 200 ''bundle'' EOF | Some _ \<Rightarrow> Response 304 [] EOF),
     gunzip_tar = (\<lambda>c. if c = ''bundle'' then Some (demo_bundle, StreamEOF) else None),
     opener = (\<lambda>c. if c = ''db'' then Opened else OpenErr),
     temp = (\<lambda>dir pattern _. dir @ ''/'' @ pattern), stamp = 1700\<rparr>"

definition demo_world :: world where
  "demo_world = \<lparr>files = Map.empty, holder = geoip0, backing = Map.empty, next_handle = 0, logs = []\<rparr>"

lemma demo_dir: "path_Dir ''geo.mmdb'' = ''.''"
  by code_simp

lemma demo_temps: "temps_new demo_environment demo_updater demo_world"
  by (auto simp: temps_new_def temps_def tar_temp_def mmdb_temp_def temp_in_def demo_environment_def
      demo_updater_def demo_world_def write_file_def demo_dir)

lemma demo_mmdb: "find is_mmdb demo_bundle = Some (demo_bundle ! 1)"
proof -
  have "is_mmdb (demo_bundle ! 0) = False" and "is_mmdb (demo_bundle ! 1) = True" by code_simp+
  then show ?thesis by (simp add: demo_bundle_def)
qed

lemma demo_entry: "bundle_entry demo_environment ''bundle'' = Some (demo_bundle ! 1)"
  by (simp add: bundle_entry_def demo_environment_def demo_mmdb)

lemma take_demo: "take maxBytes ''db'' = ''db''"
  by (simp add: maxBytes_def)



text \<open>A tick leaves nothing behind: unless a removal fails or the archive reader panics inside an
  entry, the only file that can differ afterwards is the one at the target path.\<close>

theorem tick_leaves_no_files:
  assumes "temps_new env cfg w" and "clean env" and "n \<noteq> TargetPath cfg"
  shows "files (tickSafe env cfg onSwap w) n = files w n"
  using tickSafe_cases [OF assms(1), of onSwap] assms(2,3)
  by (auto simp: installed_def skipped_def settles_eq)

lemma demo_clean: "clean demo_environment"
  by (auto simp: clean_def demo_environment_def demo_bundle_def split: if_splits)

theorem tick_leaves_no_files_witness:
  "files (tickSafe demo_environment demo_updater None demo_world) ''./geoip-*.mmdb'' = None"
  using tick_leaves_no_files [OF demo_temps demo_clean, of "''./geoip-*.mmdb''" None]
  by (simp add: demo_updater_def demo_world_def)

text \<open>C38: over the whole life of the updater, with shutdowns at any time: the handler has no open handle but
  its current one, none after a shutdown, and both the file at the target path and the database behind
  the current handle are ones the opener has accepted.\<close>

theorem updater_life:
  assumes "upd_init good cfg w" and "(upd_step good cfg)\<^sup>*\<^sup>* w w'"
  shows "opened (holder w') = (case geoip (holder w') of None \<Rightarrow> [] | Some h \<Rightarrow> [h]) \<and>
    (geoipClosed (holder w') \<longrightarrow> opened (holder w') = []) \<and>
    (\<forall>c m. files w' (TargetPath cfg) = Some (c, m) \<longrightarrow> good c) \<and>
    (\<forall>h. geoip (holder w') = Some h \<longrightarrow> (\<exists>c. backing w' h = Some c \<and> good c))"
  using upd.reach_inv [OF assms] by (auto simp: upd_inv_def owns_def)

theorem updater_life_witness:
  "opened (holder ((tickSafe demo_environment demo_updater (Some SetGeoIP_swap) demo_world)
      \<lparr>holder := CloseGeoIP (holder (tickSafe demo_environment demo_updater (Some SetGeoIP_swap) demo_world))\<rparr>)) = []"
proof -
  let ?good = "\<lambda>c. c = ''db''"
  let ?w = "tickSafe demo_environment demo_updater (Some SetGeoIP_swap) demo_world"
  have "upd_init ?good demo_updater demo_world" by (simp add: upd_init_def demo_world_def)
  moreover have "upd_step ?good demo_updater demo_world ?w"
    by (rule upd_step.tick [OF demo_temps]) (simp add: demo_environment_def split: if_splits)
  then have "(upd_step ?good demo_updater)\<^sup>*\<^sup>* demo_world (?w\<lparr>holder := CloseGeoIP (holder ?w)\<rparr>)"
    using upd_step.shut [of ?good demo_updater ?w] by (meson rtranclp.rtrancl_refl rtranclp.rtrancl_into_rtrancl)
  ultimately have "geoipClosed (holder (?w\<lparr>holder := CloseGeoIP (holder ?w)\<rparr>)) \<longrightarrow>
      opened (holder (?w\<lparr>holder := CloseGeoIP (holder ?w)\<rparr>)) = []"
    using updater_life by blast
  moreover have "geoipClosed (CloseGeoIP (holder ?w))"
    by (simp add: CloseGeoIP_def Close_def Let_def split: option.split)
  ultimately show ?thesis by simp
qed

text \<open>And it does its work: when the server sends a new bundle whose database opens and no system call
  fails, the database ends up at the target path and the handler serves lookups from it, also when it had
  none before; the previous handle is closed.\<close>

theorem tick_installs:
  assumes "temps_new env cfg w" and "\<And>c. \<not> fault env c"
    and "http env (download_url cfg) (map_option snd (files w (TargetPath cfg))) = Response 200 body EOF"
    and "length body < maxBytes" and "bundle_entry env body = Some e"
    and "DataEnd e = StreamEOF" and "opener env (take maxBytes (Data e)) = Opened"
    and "\<not> geoipClosed (holder w)" and "owns (holder w)" and "\<And>h. geoip (holder w) = Some h \<Longrightarrow> h < next_handle w"
    and "w1 = tickSafe env cfg (Some SetGeoIP_swap) w"
  shows "files w1 (TargetPath cfg) = Some (take maxBytes (Data e), stamp env) \<and>
    geoip (holder w1) = Some (next_handle w) \<and> opened (holder w1) = [next_handle w] \<and>
    backing w1 (next_handle w) = Some (take maxBytes (Data e))"
proof -
  define w0 where "w0 = logf cfg ''info'' ''geoip: checking for update'' w"
  have new0: "temps_new env cfg w0" using assms(1) by (simp add: w0_def)
  define tmp where "tmp = tar_temp env cfg w0"
  define w2 where "w2 = write_file env tmp body w0"
  define t where "t = mmdb_temp env cfg w0 body"
  define w3 where "w3 = write_file env t (take maxBytes (Data e)) w2"
  have T: "tmp \<in> temps env cfg w0" "t \<in> temps env cfg w0" by (auto simp: temps_def tmp_def t_def)
  have n: "tmp \<noteq> []" "t \<noteq> tmp" "tmp \<noteq> TargetPath cfg" "t \<noteq> TargetPath cfg"
    using new0 T by (auto simp: temps_new_def tmp_def t_def)
  have f0: "files w0 = files w" by (simp add: w0_def)
  have cut: "\<not> cut_off body" "take maxBytes body = body" using assms(4) by (simp_all add: cut_off_def)
  have d: "download env cfg w0 = (Done tmp, w2)"
    using assms(2,3) f0 cut by (simp add: download_def w2_def tmp_def tar_temp_def Let_def)
  obtain es tend where g: "gunzip_tar env body = Some (es, tend)" "find is_mmdb es = Some e"
    using assms(5) by (auto simp: bundle_entry_def split: option.splits)
  have x: "extract_bundle env cfg tmp w2 = (Done t, w3)"
    using assms(2,6) g
    by (simp add: extract_bundle_def w2_def extract_loop_find extract_entry_def w3_def t_def mmdb_temp_def tmp_def Let_def)
  have f3: "files w3 t = Some (take maxBytes (Data e), stamp env)" by (simp add: w3_def)
  obtain r4 w4 where i: "install env cfg (Some SetGeoIP_swap) t w3 = (r4, w4)"
    by (cases "install env cfg (Some SetGeoIP_swap) t w3")
  have w4: "r4 = Done ()" "files w4 (TargetPath cfg) = Some (take maxBytes (Data e), stamp env)"
    "holder w4 = swapped (Some SetGeoIP_swap) (take maxBytes (Data e)) w3"
    "backing w4 = (backing w3)(next_handle w3 \<mapsto> take maxBytes (Data e))"
    using i f3 assms(2,7) n
    by (auto simp: install_def Let_def os_Rename_def swapped_def open_lookup_def)
  have "w1 = os_Remove env tmp (os_Remove env t w4)"
    using n assms(2,11) d x i w4(1) by (simp add: tickSafe_def tick_def unpack_def w0_def [symmetric])
  moreover have "swapped (Some SetGeoIP_swap) (take maxBytes (Data e)) w3 =
      swapped (Some SetGeoIP_swap) (take maxBytes (Data e)) w"
    by (rule swapped_cong) (simp_all add: w3_def w2_def w0_def)
  moreover note swapped_SetGeoIP [OF assms(9,10), of "take maxBytes (Data e)"]
  ultimately show ?thesis
    using w4 n assms(8) by (simp add: owns_def w3_def w2_def w0_def)
qed

theorem tick_installs_witness:
  "files (tickSafe demo_environment demo_updater (Some SetGeoIP_swap) demo_world) ''geo.mmdb'' = Some (''db'', 1700) \<and>
   geoip (holder (tickSafe demo_environment demo_updater (Some SetGeoIP_swap) demo_world)) = Some 0"
  using tick_installs [OF demo_temps _ _ _ demo_entry, of "tickSafe demo_environment demo_updater (Some SetGeoIP_swap) demo_world"]
  by (simp add: demo_environment_def demo_world_def demo_updater_def demo_bundle_def take_demo geoip0_def owns_def)
     (simp add: maxBytes_def)

end
