(* ===== verification/Boot.thy ===== *)
theory Boot
  imports Requests Updater
begin

text \<open>
  \<open>main\<close>: from the command line to a serving process, and from the signal to its end. Everything that is
  optional (history, geoip, the updater) may fail without stopping the server. The shutdown runs in its
  own goroutine next to the requests still in flight and the updater.
\<close>

section \<open>Exit codes and usage\<close>

definition isHelpErr :: "load_error \<Rightarrow> bool" where
  "isHelpErr err \<longleftrightarrow> err = CliErr ErrHelp"

text \<open>The flags \<open>printUsage\<close> lists.\<close>

definition printUsage :: "string list" where
  "printUsage = [''config'', ''host'', ''port'', ''mode'', ''duration'', ''streams'', ''download-mb'', ''upload-mb'',
     ''max-concurrent'', ''warmup-ms'', ''db-path'', ''rate-per-min'', ''version'']"

section \<open>History, geoip and the updater at the start\<close>

text \<open>\<open>time.Now().Add(-time.Duration(days) * 24 * time.Hour).UnixMilli()\<close>; times are nanoseconds since the
  epoch.\<close>

definition retention_cutoff :: "int \<Rightarrow> int \<Rightarrow> int" where
  "retention_cutoff t days = (t + i64 (i64 (i64 (- days) * 24) * Hour)) div 1000000"

text \<open>\<open>connect\<close> opens and pings the file of the database.\<close>

definition open_history :: "'db engine \<Rightarrow> (string \<Rightarrow> 'db option) \<Rightarrow> int \<Rightarrow> config \<Rightarrow> 'db option" where
  "open_history e connect t c =
     (if DBPath c = [] then None
      else (case Open e (connect (DBPath c)) of
              None \<Rightarrow> None
            | Some db \<Rightarrow>
                if HistoryRetentionDays c > 0
                then Some (snd (sq_PruneOlderThan e (retention_cutoff t (HistoryRetentionDays c)) db))
                else Some db))"

text \<open>\<open>readable\<close> says whether the file opens as an mmdb; the handle is the first one.\<close>

definition open_geoip :: "(string \<Rightarrow> bool) \<Rightarrow> config \<Rightarrow> handle option \<times> geo_state" where
  "open_geoip readable c =
     (if GeoIPDBPath c \<noteq> [] \<and> readable (GeoIPDBPath c) then (Some 0, geoip0\<lparr>opened := [0]\<rparr>) else (None, geoip0))"

definition updater_target :: "config \<Rightarrow> string" where
  "updater_target c = (if GeoIPDBPath c = [] then ''./'' @ GeoIPEdition c @ ''.mmdb'' else GeoIPDBPath c)"

definition start_updater :: "config \<Rightarrow> (unit, unit) updaterConfig option" where
  "start_updater c =
     (if GeoIPLicenseKey c = [] then None
      else (case NewUpdater () () \<lparr>LicenseKey = GeoIPLicenseKey c, Edition = GeoIPEdition c,
                TargetPath = updater_target c, RefreshInterval = 0, HTTPClient = None, BaseURL = [], Log = True,
                Opener = None\<rparr> of
              Inl _ \<Rightarrow> None
            | Inr u \<Rightarrow> Some u))"

section \<open>main\<close>

datatype ('db, 'b) started = Exit nat | Serving http_Server "('db, 'b) handler" "(unit, unit) updaterConfig option"

definition main_start ::
  "(load_error + (config \<times> CLIOpts)) \<Rightarrow> BuildInfo \<Rightarrow> 'db engine \<Rightarrow> (string \<Rightarrow> 'db option) \<Rightarrow> (string \<Rightarrow> bool) \<Rightarrow> int \<Rightarrow>
   ('db, 'b) started" where
  "main_start loaded build e connect readable t =
     (case loaded of
        Inl err \<Rightarrow> if isHelpErr err then Exit 0 else Exit 2
      | Inr (c, opts) \<Rightarrow>
          if ShowVersion opts then Exit 0
          else
            (case open_geoip readable c of (g, g0) \<Rightarrow>
               (case newServerWithStore c (open_history e connect t c) g build g0 t of (srv, h) \<Rightarrow>
                  Serving srv h (start_updater c))))"

section \<open>Shutdown\<close>

text \<open>
  The goroutine that waits for the signal: \<open>cancelUpdater\<close>, \<open>srv.Shutdown\<close> (closes the listener; returns when
  no request is in flight or after 30 seconds), close the store, \<open>CloseGeoIP\<close>. While it drains, a connection
  that was accepted before may still send its first request. A tick of the updater that was running when the
  context was cancelled may still deliver its database, at any later time. This is the shutdown in outline;
  \<open>Lifecycle\<close> has the whole process and refines it.
\<close>

datatype phase = Up | Cancelled_updater | Draining | Drained | Store_closed | Stopped

record live =
  phase :: phase
  in_flight :: nat
  timed_out :: bool
  store_open :: bool
  live_geo :: geo_state

inductive live_step :: "live \<Rightarrow> live \<Rightarrow> bool" where
  arrive: "phase s \<in> {Up, Cancelled_updater, Draining} \<or> timed_out s \<Longrightarrow> live_step s (s\<lparr>in_flight := in_flight s + 1\<rparr>)"
| finish: "0 < in_flight s \<Longrightarrow> live_step s (s\<lparr>in_flight := in_flight s - 1\<rparr>)"
| swap: "x \<notin> set (opened (live_geo s)) \<Longrightarrow>
    live_step s (s\<lparr>live_geo := SetGeoIP_swap x ((live_geo s)\<lparr>opened := x # opened (live_geo s)\<rparr>)\<rparr>)"
| signal: "phase s = Up \<Longrightarrow> live_step s (s\<lparr>phase := Cancelled_updater\<rparr>)"
| begin_drain: "phase s = Cancelled_updater \<Longrightarrow> live_step s (s\<lparr>phase := Draining\<rparr>)"
| end_drain: "phase s = Draining \<Longrightarrow> in_flight s = 0 \<Longrightarrow> live_step s (s\<lparr>phase := Drained\<rparr>)"
| give_up: "phase s = Draining \<Longrightarrow> live_step s (s\<lparr>phase := Drained, timed_out := True\<rparr>)"
| close_store: "phase s = Drained \<Longrightarrow> live_step s (s\<lparr>phase := Store_closed, store_open := False\<rparr>)"
| close_geo: "phase s = Store_closed \<Longrightarrow> live_step s (s\<lparr>phase := Stopped, live_geo := CloseGeoIP (live_geo s)\<rparr>)"

definition live_init :: "live \<Rightarrow> bool" where
  "live_init s \<longleftrightarrow> phase s = Up \<and> in_flight s = 0 \<and> \<not> timed_out s \<and> store_open s \<and> owns (live_geo s) \<and>
     \<not> geoipClosed (live_geo s)"

definition live_inv :: "live \<Rightarrow> bool" where
  "live_inv s \<longleftrightarrow> owns (live_geo s) \<and> (geoipClosed (live_geo s) \<longleftrightarrow> phase s = Stopped) \<and>
     (phase s \<in> {Drained, Store_closed, Stopped} \<longrightarrow> in_flight s = 0 \<or> timed_out s) \<and>
     (store_open s \<longleftrightarrow> phase s \<notin> {Store_closed, Stopped})"

lemma owns_swap:
  "owns g \<Longrightarrow> x \<notin> set (opened g) \<Longrightarrow> owns (SetGeoIP_swap x (g\<lparr>opened := x # opened g\<rparr>)) \<and>
     geoipClosed (SetGeoIP_swap x (g\<lparr>opened := x # opened g\<rparr>)) = geoipClosed g"
  by (auto simp: owns_def SetGeoIP_swap_def SetGeoIP_def Close_def Let_def split: option.splits)

lemma CloseGeoIP_closed: "geoipClosed (CloseGeoIP g)"
  by (auto simp: CloseGeoIP_def Close_def Let_def split: option.split)

lemma live_inv_step: "live_step s t \<Longrightarrow> live_inv s \<Longrightarrow> live_inv t"
proof (induction rule: live_step.induct)
  case (swap x s)
  then show ?case using owns_swap [of "live_geo s" x] by (auto simp: live_inv_def)
next
  case (close_geo s)
  then show ?case using owns_CloseGeoIP [of "live_geo s"] CloseGeoIP_closed by (auto simp: live_inv_def)
qed (auto simp: live_inv_def)

interpretation live: machine live_init live_step live_inv
proof unfold_locales
  fix s
  show "live_init s \<Longrightarrow> live_inv s" by (auto simp: live_init_def live_inv_def)
next
  fix s t
  show "live_step s t \<Longrightarrow> live_inv s \<Longrightarrow> live_inv t" by (rule live_inv_step)
qed

section \<open>Lemmas\<close>

lemma retention_exact:
  assumes "0 \<le> days" and "days \<le> 3650"
  shows "retention_cutoff t days = t div 1000000 - days * 86400000"
proof -
  have d: "i64 (- days) = - days" "i64 (- days * 24) = - days * 24"
    "i64 (- days * 24 * Hour) = - days * 24 * Hour"
    using assms by (auto intro!: i64_id simp: in_i64_def Hour_def Second_def)
  have "t + - days * 24 * Hour = t + (- days * 86400000) * 1000000" by (simp add: Hour_def Second_def)
  then have "retention_cutoff t days = (t + (- days * 86400000) * 1000000) div 1000000"
    by (simp only: retention_cutoff_def d)
  then show ?thesis by simp
qed

lemma prune_effect:
  assumes "sqlite_laws e tbl" and "store_ok tbl db"
  shows "store_ok tbl (snd (sq_PruneOlderThan e t db)) \<and>
    (stored_results tbl (snd (sq_PruneOlderThan e t db)) = stored_results tbl db \<or>
     stored_results tbl (snd (sq_PruneOlderThan e t db)) = filter (\<lambda>x. t \<le> CreatedAt x) (stored_results tbl db))"
proof -
  obtain k db' where p: "sq_PruneOlderThan e t db = (k, db')" by (cases "sq_PruneOlderThan e t db")
  then have q: "PruneOlderThan (sqlite_store e) t db = (k, db')" by (simp add: sqlite_store_def)
  note st = sqlite_refines [OF assms(1)]
  show ?thesis
  proof (cases k)
    case None
    with q result_store.prune_err [OF st assms(2)] p show ?thesis by simp
  next
    case (Some n)
    with q result_store.prune_ok [OF st assms(2)] p show ?thesis by (auto split: if_splits)
  qed
qed

lemma NewUpdater_ok:
  "wf_config c \<Longrightarrow> GeoIPLicenseKey c \<noteq> [] \<Longrightarrow> \<exists>u. start_updater c = Some u \<and> TargetPath u = updater_target c \<and>
     Edition u = GeoIPEdition c \<and> LicenseKey u = GeoIPLicenseKey c \<and> RefreshInterval u = 7 * 24 * Hour \<and>
     BaseURL u = downloadHostDefault"
  by (auto simp: start_updater_def NewUpdater_def updater_target_def wf_config_def Let_def)

lemma ReplaceAll_cases [simp]:
  "ReplaceAll old new [] = []"
  "old \<noteq> [] \<Longrightarrow> ReplaceAll old new (old @ s) = new @ ReplaceAll old new s"
  "\<not> prefix old (c # s) \<Longrightarrow> ReplaceAll old new (c # s) = c # ReplaceAll old new s"
  by (subst ReplaceAll.simps; auto)+

lemma ReplaceAll_induct [case_names Nil hit miss, consumes 1]:
  assumes "old \<noteq> []" and "P []" and "\<And>s. P s \<Longrightarrow> P (old @ s)" and "\<And>c s. \<not> prefix old (c # s) \<Longrightarrow> P s \<Longrightarrow> P (c # s)"
  shows "P s"
proof (induction "length s" arbitrary: s rule: less_induct)
  case less
  consider "s = []" | t where "s = old @ t" | c t where "s = c # t" "\<not> prefix old s"
    by (cases s) (auto elim: prefixE)
  then show ?case
    by cases (use less assms in auto)
qed

lemma ReplaceAll_prefix:
  assumes "old \<noteq> []" and "new \<noteq> []"
  shows "hd new \<notin> set q \<Longrightarrow> prefix q (ReplaceAll old new s) \<Longrightarrow> prefix q s"
  using assms(1)
proof (induction s arbitrary: q rule: ReplaceAll_induct)
  case (hit s)
  then show ?case using assms by (cases q; cases new) auto
next
  case (miss c s)
  then show ?case by (cases q) auto
qed simp

lemma sublist_skip:
  "p \<noteq> [] \<Longrightarrow> hd p \<notin> set u \<Longrightarrow> sublist p (u @ s) \<Longrightarrow> sublist p s"
proof (induction u)
  case (Cons c u)
  then show ?case by (cases p) (auto simp: sublist_Cons_right)
qed simp

lemma ReplaceAll_none_left:
  assumes "old \<noteq> []" and "new \<noteq> []" and "hd new \<notin> set old" and "hd old \<notin> set new"
  shows "\<not> sublist old (ReplaceAll old new s)"
  using assms(1)
proof (induction s rule: ReplaceAll_induct)
  case Nil
  show ?case using assms(1) by simp
next
  case (hit s)
  then show ?case using sublist_skip [OF assms(1,4)] assms(1) by auto
next
  case (miss c s)
  have "\<not> prefix old (ReplaceAll old new (c # s))" using ReplaceAll_prefix [OF assms(1-3)] miss.hyps by blast
  with miss show ?case by (simp add: sublist_Cons_right)
qed

lemma ReplaceAll_inserts:
  assumes "old \<noteq> []"
  shows "sublist old s \<Longrightarrow> sublist new (ReplaceAll old new s)"
  using assms
proof (induction s rule: ReplaceAll_induct)
  case Nil
  with assms show ?case by simp
next
  case (hit s)
  show ?case using assms by (simp add: sublist_appendI [of "[]", simplified])
next
  case (miss c s)
  then show ?case by (simp add: sublist_Cons_right)
qed

lemma open_history_effect:
  assumes "wf_config c" and "sqlite_laws e tbl" and "connect (DBPath c) = Some db"
    and "case tbl db of None \<Rightarrow> True | Some tb \<Rightarrow> old_schema tb \<and> rows_ok tb"
    and "open_history e connect t c = Some db'"
  shows "store_ok tbl db' \<and>
    (stored_results tbl db' = stored_results tbl db \<or>
     0 < HistoryRetentionDays c \<and>
     stored_results tbl db' =
       filter (\<lambda>x. t div 1000000 - HistoryRetentionDays c * 86400000 \<le> CreatedAt x) (stored_results tbl db))"
proof -
  obtain db1 where o: "Open e (Some db) = Some db1" and db': "db' = (if HistoryRetentionDays c > 0
      then snd (sq_PruneOlderThan e (retention_cutoff t (HistoryRetentionDays c)) db1) else db1)"
    using assms(3,5) by (auto simp: open_history_def split: option.splits if_splits)
  note r = Open_result [OF assms(2) o assms(4)]
  then have ok: "store_ok tbl db1" by simp
  have "retention_cutoff t (HistoryRetentionDays c) = t div 1000000 - HistoryRetentionDays c * 86400000"
    if "HistoryRetentionDays c > 0"
    using that assms(1) by (intro retention_exact) (auto simp: wf_config_def)
  then show ?thesis
    using r db' prune_effect [OF assms(2) ok, of "retention_cutoff t (HistoryRetentionDays c)"] by auto
qed

section \<open>Properties of the start\<close>

lemma server_started:
  "newServerWithStore c s g build g0 t = (srv, h) \<Longrightarrow> h = buildMux c s g build g0 t \<and> srv_Addr srv = Addr c \<and>
     IdleTimeout srv = idleTimeout (Duration c)"
  by (auto simp: newServerWithStore_def)

lemma buildMux_simps [simp]:
  "cfg (buildMux c s g build g0 t) = c" "h_store (buildMux c s g build g0 t) = s"
  "h_geoip (buildMux c s g build g0 t) = SetGeoIP g g0" "tests (buildMux c s g build g0 t) = new_admission (MaxConcurrent c)"
  by (simp_all add: buildMux_def New_def)

text \<open>C26: the server starts with any configuration it could load, whatever the history file, the geoip file and
  the updater do: each of the three features is on exactly when it was configured and could be opened,
  and a licence key always gives a running updater.\<close>

theorem start_fail_open:
  assumes "LoadWithSources stat open_file parse args env = Inr (c, opts)" and "\<not> ShowVersion opts"
  shows "\<exists>srv (h :: ('db, 'b) handler) u.
    main_start (Inr (c, opts)) build e connect readable t = Serving srv h u \<and> cfg h = c \<and>
    (historyEnabled h \<longleftrightarrow> DBPath c \<noteq> [] \<and> Open e (connect (DBPath c)) \<noteq> None) \<and>
    (geoipEnabled (h_geoip h) \<longleftrightarrow> GeoIPDBPath c \<noteq> [] \<and> readable (GeoIPDBPath c)) \<and>
    (u \<noteq> None \<longleftrightarrow> GeoIPLicenseKey c \<noteq> []) \<and> int (sem_cap (tests h)) = MaxConcurrent c"
proof -
  have wf: "wf_config c" by (rule load_wf [OF assms(1)])
  obtain g g0 where g: "open_geoip readable c = (g, g0)" by (cases "open_geoip readable c")
  obtain srv and h :: "('db, 'b) handler"
    where s: "newServerWithStore c (open_history e connect t c) g build g0 t = (srv, h)"
    by (meson surj_pair)
  note h = server_started [OF s]
  have "historyEnabled h \<longleftrightarrow> DBPath c \<noteq> [] \<and> Open e (connect (DBPath c)) \<noteq> None"
    using h by (auto simp: historyEnabled_def open_history_def split: option.split)
  moreover have "geoipEnabled (h_geoip h) \<longleftrightarrow> GeoIPDBPath c \<noteq> [] \<and> readable (GeoIPDBPath c)"
    using h g by (auto simp: geoipEnabled_def open_geoip_def SetGeoIP_def geoip0_def split: if_splits)
  moreover have "start_updater c \<noteq> None \<longleftrightarrow> GeoIPLicenseKey c \<noteq> []"
    using NewUpdater_ok [OF wf] by (auto simp: start_updater_def)
  moreover have "int (sem_cap (tests h)) = MaxConcurrent c"
    using h wf by (simp add: new_admission_def wf_config_def)
  ultimately show ?thesis using assms(2) g s h by (simp add: main_start_def)
qed

theorem start_fail_open_witness:
  "\<exists>srv h u. main_start (Inr (demo_cfg, \<lparr>ShowVersion = False\<rparr>)) demo_build mem_engine
     (\<lambda>_. None) (\<lambda>_. False) 0 = Serving srv (h :: (table option, bucket) handler) u \<and> \<not> historyEnabled h \<and> u = None"
proof -
  have "Open mem_engine None = None" by (simp add: Open_def)
  moreover have "GeoIPLicenseKey demo_cfg = []" by (simp add: demo_cfg_def defaults_def)
  ultimately show ?thesis
    using start_fail_open [OF demo_load, of "demo_build" mem_engine "\<lambda>_. None" "\<lambda>_. False" 0]
    by auto
qed

text \<open>The process exits before serving only for these reasons: code 0 for a request for help or for the version,
  code 2 for any other error of the command line or the configuration file.\<close>

theorem main_exit_codes:
  "((\<exists>k. main_start loaded build e connect readable t = (Exit k :: ('db, 'b) started)) \<longleftrightarrow>
      (case loaded of Inl _ \<Rightarrow> True | Inr (_, opts) \<Rightarrow> ShowVersion opts)) \<and>
   (\<forall>k. main_start loaded build e connect readable t = (Exit k :: ('db, 'b) started) \<longrightarrow> k = 0 \<or> k = 2) \<and>
   (main_start loaded build e connect readable t = (Exit 2 :: ('db, 'b) started) \<longleftrightarrow> (\<exists>err. loaded = Inl err \<and> err \<noteq> CliErr ErrHelp))"
  by (auto simp: main_start_def isHelpErr_def split: sum.splits prod.splits)


theorem main_exit_codes_witness:
  "main_start (LoadWithSources (\<lambda>_. None) (\<lambda>_. None) (\<lambda>_. None) [''--nope''] (\<lambda>_. [])) demo_build
     mem_engine (\<lambda>_. None) (\<lambda>_. False) 0 = (Exit 2 :: (table option, bucket) started)"
proof -
  have "LoadWithSources (\<lambda>_. None) (\<lambda>_. None) (\<lambda>_. None) [''--nope''] (\<lambda>_. []) = Inl (CliErr ErrFlag)" by code_simp
  then show ?thesis
    using main_exit_codes [of "Inl (CliErr ErrFlag)" "demo_build" mem_engine "\<lambda>_. None" "\<lambda>_. False" 0]
    by auto
qed


section \<open>Properties of the shutdown and the server\<close>

text \<open>The shutdown is safe in every interleaving with requests and the updater: the store is closed only when
  no request is in flight any more (or the 30 seconds are over), and once the process has stopped no
  database stays open, even if the updater delivers another one afterwards.\<close>

theorem shutdown_safe:
  assumes "live_init s0" and "live_step\<^sup>*\<^sup>* s0 s"
  shows "(\<not> store_open s \<longrightarrow> in_flight s = 0 \<or> timed_out s) \<and> (phase s = Stopped \<longrightarrow> opened (live_geo s) = [])"
proof -
  have "live_inv s" by (rule live.reach_inv [OF assms])
  then show ?thesis by (auto simp: live_inv_def owns_def split: option.splits)
qed

definition demo_live :: live where
  "demo_live = \<lparr>phase = Up, in_flight = 0, timed_out = False, store_open = True, live_geo = geoip0\<rparr>"

theorem shutdown_safe_witness:
  "opened (SetGeoIP_swap 7 (CloseGeoIP geoip0\<lparr>opened := [7]\<rparr>)) = []"
proof -
  define s1 where "s1 = demo_live\<lparr>phase := Cancelled_updater\<rparr>"
  define s2 where "s2 = s1\<lparr>phase := Draining\<rparr>"
  define s3 where "s3 = s2\<lparr>phase := Drained\<rparr>"
  define s4 where "s4 = s3\<lparr>phase := Store_closed, store_open := False\<rparr>"
  define s5 where "s5 = s4\<lparr>phase := Stopped, live_geo := CloseGeoIP (live_geo s4)\<rparr>"
  define s6 where "s6 = s5\<lparr>live_geo := SetGeoIP_swap 7 ((live_geo s5)\<lparr>opened := 7 # opened (live_geo s5)\<rparr>)\<rparr>"
  note defs = s6_def s5_def s4_def s3_def s2_def s1_def demo_live_def
  have "live_step demo_live s1" unfolding s1_def by (rule live_step.signal) (simp add: demo_live_def)
  moreover have "live_step s1 s2" unfolding s2_def by (rule live_step.begin_drain) (simp add: defs)
  moreover have "live_step s2 s3" unfolding s3_def by (rule live_step.end_drain) (simp_all add: defs)
  moreover have "live_step s3 s4" unfolding s4_def by (rule live_step.close_store) (simp add: defs)
  moreover have "live_step s4 s5" unfolding s5_def by (rule live_step.close_geo) (simp add: defs)
  moreover have "live_step s5 s6"
    unfolding s6_def by (rule live_step.swap) (simp add: defs CloseGeoIP_def geoip0_def Let_def)
  ultimately have run: "live_step\<^sup>*\<^sup>* demo_live s6"
    by (meson rtranclp.rtrancl_refl rtranclp.rtrancl_into_rtrancl)
  have "live_init demo_live" by (simp add: live_init_def demo_live_def owns_def geoip0_def)
  from shutdown_safe [OF this run] show ?thesis
    by (simp add: defs CloseGeoIP_def geoip0_def Let_def)
qed

text \<open>The idle timeout of the server outlives the longest test, five minutes or the configured duration if
  that is longer, by a minute, unless the configured duration is within a minute of the largest value a
  \<open>time.Duration\<close> can hold.\<close>

theorem idleTimeout_outlives:
  assumes "d \<le> 2 ^ 63 - 1 - 60 * Second"
  shows "idleTimeout d = max (300 * Second) d + 60 * Second \<and> maxDurationSecs * Second + 60 * Second \<le> idleTimeout d"
proof -
  have "i64 (d' + 60 * Second) = d' + 60 * Second" if "300 * Second \<le> d'" and "d' \<le> 2 ^ 63 - 1 - 60 * Second" for d'
    using that by (intro i64_id) (simp add: in_i64_def Second_def)
  from this [of "max (300 * Second) d"] assms
  have "i64 (max (300 * Second) d + 60 * Second) = max (300 * Second) d + 60 * Second" by (simp add: Second_def)
  moreover have "idleTimeout d = i64 (max (300 * Second) d + 60 * Second)" by (simp only: idleTimeout_def max_def Let_def) auto
  ultimately have "idleTimeout d = max (300 * Second) d + 60 * Second" by simp
  then show ?thesis by (simp add: maxDurationSecs_def)
qed

theorem idleTimeout_outlives_witness: "idleTimeout (15 * Second) = 360 * Second"
  using idleTimeout_outlives [of "15 * Second"] by (simp add: Second_def max_def)

lemma last_colon_append: "CHR '':'' \<notin> set p \<Longrightarrow> last_colon (x @ CHR '':'' # p) = Some (length x)"
  by (simp add: last_colon_def) (subst takeWhile_append2; auto)

text \<open>\<open>Addr\<close> is what \<open>net.SplitHostPort\<close> takes apart again: for a host without brackets and a port without
  special characters, host and port come back, with an IPv6 host put into brackets on the way.\<close>

theorem Addr_splits:
  assumes "set (Host c) \<inter> {CHR ''['', CHR '']''} = {}" and "set (Port c) \<inter> {CHR '':'', CHR ''['', CHR '']''} = {}"
  shows "SplitHostPort (Addr c) = Some (Host c, Port c)"
proof (cases "CHR '':'' \<in> set (Host c)")
  case True
  have "hd (Host c) \<noteq> CHR ''[''" using assms(1) True by (cases "Host c") auto
  then have addr: "Addr c = (CHR ''['' # Host c @ [CHR '']'']) @ CHR '':'' # Port c"
    using True by (cases "Host c") (auto simp: Addr_def HasPrefix_def Let_def)
  have "takeWhile (\<lambda>x. x \<noteq> CHR '']'') (Host c @ CHR '']'' # CHR '':'' # Port c) = Host c"
    using assms(1) by (subst takeWhile_append2) auto
  moreover have "last_colon (Addr c) = Some (Suc (Suc (length (Host c))))"
    unfolding addr by (subst last_colon_append) (use assms(2) in auto)
  ultimately show ?thesis
    using assms unfolding SplitHostPort_def by (auto simp: addr Let_def)
next
  case False
  then have addr: "Addr c = Host c @ CHR '':'' # Port c" by (simp add: Addr_def Let_def)
  have "hd (Host c @ CHR '':'' # Port c) \<noteq> CHR ''[''" using assms(1) by (cases "Host c") auto
  moreover have "last_colon (Addr c) = Some (length (Host c))"
    unfolding addr by (subst last_colon_append) (use assms(2) in auto)
  ultimately show ?thesis
    using assms False unfolding SplitHostPort_def by (auto simp: addr Let_def)
qed

theorem Addr_splits_witness:
  "SplitHostPort (Addr defaults) = Some (''::'', ''8080'')"
  using Addr_splits [of defaults] by (simp add: defaults_def)

text \<open>The service worker is stamped with the version: in the \<open>sw.js\<close> that is served no placeholder is left, and
  when the source has one the name of the cache of this version is there, for versions without underscore.\<close>

theorem swjs_stamped:
  assumes "CHR ''_'' \<notin> set version"
  shows "\<exists>body. payload (swjsHandler (Some raw) version) = Text body \<and> \<not> sublist swjsCachePlaceholder body \<and>
    (sublist swjsCachePlaceholder raw \<longrightarrow> sublist (''speedtest-'' @ version) body)"
proof -
  let ?new = "''speedtest-'' @ version"
  have "\<not> sublist swjsCachePlaceholder (ReplaceAll swjsCachePlaceholder ?new raw)"
    by (rule ReplaceAll_none_left) (use assms in \<open>simp_all add: swjsCachePlaceholder_def\<close>)
  moreover have "swjsCachePlaceholder \<noteq> []" by (simp add: swjsCachePlaceholder_def)
  ultimately show ?thesis using ReplaceAll_inserts by (auto simp: swjsHandler_def)
qed

theorem swjs_stamped_witness:
  "\<not> sublist swjsCachePlaceholder (ReplaceAll swjsCachePlaceholder ''speedtest-1.2'' (''x = '' @ swjsCachePlaceholder))"
  using swjs_stamped [of "''1.2''" "''x = '' @ swjsCachePlaceholder"] by (simp add: swjsHandler_def)

text \<open>The usage text leaves out exactly the three geoip flags the parser knows.\<close>

theorem printUsage_flags:
  "set (map fst formal) - set printUsage = {''geoip-db'', ''geoip-license-key'', ''geoip-edition''} \<and>
   set printUsage \<subseteq> set (map fst formal)"
  by (simp add: formal_def printUsage_def) blast

end
