(* ===== verification/Goroutines.thy ===== *)
theory Goroutines
  imports Go_Prelude "HOL-Library.Multiset"
begin

text \<open>
  Goroutines that share a state. A goroutine is a tree of critical sections: each waits until its guard
  holds, changes the shared state, and goes on depending on the state it found; what a goroutine
  computes on its own is part of the step before. The scheduler picks any goroutine that can move. The
  locale \<open>goroutines\<close> is a rely-guarantee argument: each program is checked alone against an invariant
  of the shared state and of a ghost label per goroutine, and the conclusions hold for every interleaving.
\<close>

section \<open>Programs\<close>

datatype ('s, 'a) goroutine =
    Return 'a
  | Atomic "'s \<Rightarrow> bool" "'s \<Rightarrow> 's" "'s \<Rightarrow> ('s, 'a) goroutine"

text \<open>Reading the shared state, and changing it without a look at the result.\<close>

definition look :: "('s \<Rightarrow> ('s, 'a) goroutine) \<Rightarrow> ('s, 'a) goroutine" where
  "look k = Atomic (\<lambda>_. True) id k"

definition modify :: "('s \<Rightarrow> 's) \<Rightarrow> ('s, 'a) goroutine \<Rightarrow> ('s, 'a) goroutine" where
  "modify f p = Atomic (\<lambda>_. True) f (\<lambda>_. p)"

primrec and_then :: "('s, 'a) goroutine \<Rightarrow> ('a \<Rightarrow> ('s, 'b) goroutine) \<Rightarrow> ('s, 'b) goroutine" where
  "and_then (Return x) f = f x"
| "and_then (Atomic can upd cont) f = Atomic can upd (\<lambda>s. and_then (cont s) f)"

text \<open>A goroutine that runs alone; \<open>None\<close> when it blocks.\<close>

primrec alone :: "('s, 'a) goroutine \<Rightarrow> 's \<Rightarrow> ('s \<times> 'a) option" where
  "alone (Return x) s = Some (s, x)"
| "alone (Atomic can upd cont) s = (if can s then alone (cont s) (upd s) else None)"

lemma alone_look [simp]: "alone (look k) s = alone (k s) s"
  by (simp add: look_def)

lemma alone_modify [simp]: "alone (modify f p) s = alone p (f s)"
  by (simp add: modify_def)

lemma alone_and_then: "alone p s = Some (t, x) \<Longrightarrow> alone (and_then p f) s = alone (f x) t"
  by (induction p arbitrary: s) (auto split: if_splits)

fun returned :: "('s, 'a) goroutine \<Rightarrow> bool" where
  "returned (Return x) \<longleftrightarrow> True"
| "returned (Atomic can upd cont) \<longleftrightarrow> False"

section \<open>The scheduler\<close>

record ('s, 'a) process =
  shared :: 's
  gos :: "('s, 'a) goroutine list"

inductive sched :: "('s, 'a) process \<Rightarrow> ('s, 'a) process \<Rightarrow> bool" where
  moves: "i < length (gos s) \<Longrightarrow> gos s ! i = Atomic can upd cont \<Longrightarrow> can (shared s) \<Longrightarrow>
    sched s \<lparr>shared = upd (shared s), gos = (gos s)[i := cont (shared s)]\<rparr>"

text \<open>A process also starts goroutines, and the rest of the program changes the shared state.\<close>

inductive go_step ::
  "(('s, 'a) goroutine \<Rightarrow> bool) \<Rightarrow> ('s \<Rightarrow> 's \<Rightarrow> bool) \<Rightarrow> ('s, 'a) process \<Rightarrow> ('s, 'a) process \<Rightarrow> bool"
  for fresh_go others where
  scheduled: "sched s t \<Longrightarrow> go_step fresh_go others s t"
| spawn: "fresh_go p \<Longrightarrow> go_step fresh_go others s (s\<lparr>gos := gos s @ [p]\<rparr>)"
| outside: "others (shared s) h \<Longrightarrow> go_step fresh_go others s (s\<lparr>shared := h\<rparr>)"

inductive_cases schedE: "sched s t"

subsection \<open>No schedule goes on for ever\<close>

inductive_set later :: "(('s, 'a) goroutine \<times> ('s, 'a) goroutine) set" where
  "(cont s, Atomic can upd cont) \<in> later"

lemma wf_later: "wf (later :: (('s, 'a) goroutine \<times> ('s, 'a) goroutine) set)"
proof (rule wfUNIVI)
  fix P :: "('s, 'a) goroutine \<Rightarrow> bool" and p
  assume step: "\<forall>p. (\<forall>q. (q, p) \<in> later \<longrightarrow> P q) \<longrightarrow> P p"
  show "P p"
  proof (induction p)
    case (Return x)
    have "(q, Return x) \<notin> later" for q by (auto elim: later.cases)
    then show ?case using step by blast
  next
    case (Atomic can upd cont)
    have "P q" if "(q, Atomic can upd cont) \<in> later" for q
      using that by (cases rule: later.cases) (auto intro: Atomic)
    then show ?case using step by blast
  qed
qed

lemma sched_decreases: "sched s t \<Longrightarrow> (mset (gos t), mset (gos s)) \<in> mult later"
proof (induction rule: sched.induct)
  case (moves i s can upd cont)
  let ?q = "cont (shared s)"
  define M where "M = mset (gos s) - {#Atomic can upd cont#}"
  have in_M: "Atomic can upd cont \<in># mset (gos s)" using moves by (metis in_multiset_in_set nth_mem)
  have "mset (gos s) = add_mset (Atomic can upd cont) M" using in_M by (simp add: M_def)
  moreover have "mset ((gos s)[i := ?q]) = add_mset ?q M"
    using moves by (simp add: mset_update M_def)
  moreover have "(?q, Atomic can upd cont) \<in> later" by (rule later.intros)
  then have "(M + {#?q#}, M + {#Atomic can upd cont#}) \<in> mult later"
    by (intro one_step_implies_mult) auto
  ultimately show ?case by simp
qed

lemma sched_wf: "wf {(t, s). sched s t}"
proof (rule wf_subset [OF wf_inv_image [OF wf_mult [OF wf_later]]])
  show "{(t, s). sched s t} \<subseteq> inv_image (mult later) (\<lambda>s. mset (gos s))"
    using sched_decreases by (auto simp: inv_image_def)
qed

lemma no_endless_schedule: "\<not> (\<exists>f. \<forall>n. sched (f n) (f (Suc n)))"
  using sched_wf unfolding wf_iff_no_infinite_down_chain by auto

lemma sched_normalises: "\<exists>t. sched\<^sup>*\<^sup>* s t \<and> (\<forall>u. \<not> sched t u)"
proof (induction s rule: wf_induct_rule [OF sched_wf])
  case (1 s)
  show ?case
  proof (cases "\<exists>u. sched s u")
    case True
    then obtain u where u: "sched s u" by blast
    with 1 [of u] obtain t where "sched\<^sup>*\<^sup>* u t" and "\<forall>v. \<not> sched t v" by blast
    with u show ?thesis by (meson converse_rtranclp_into_rtranclp)
  qed auto
qed

section \<open>What a goroutine guarantees\<close>

text \<open>
  \<open>behaves Inv Guar post p g\<close>: in any state that satisfies the invariant and in which this goroutine has the
  label \<open>g\<close>, the next critical section of \<open>p\<close> is not blocked, changes the state as \<open>Guar\<close> allows, and restores
  the invariant with a new label, with which the rest behaves; a result satisfies \<open>post\<close>. The invariant, over
  the labels of all goroutines, is what each of them relies on.
\<close>

primrec behaves ::
  "('s \<Rightarrow> 'g list \<Rightarrow> bool) \<Rightarrow> ('s \<Rightarrow> 's \<Rightarrow> bool) \<Rightarrow> ('g \<Rightarrow> 'a \<Rightarrow> bool) \<Rightarrow> ('s, 'a) goroutine \<Rightarrow> 'g \<Rightarrow> bool" where
  "behaves Inv Guar post (Return x) g \<longleftrightarrow> post g x"
| "behaves Inv Guar post (Atomic can upd cont) g \<longleftrightarrow>
     (\<forall>s gs i. i < length gs \<longrightarrow> gs ! i = g \<longrightarrow> Inv s gs \<longrightarrow>
        can s \<and> Guar s (upd s) \<and> (\<exists>g'. Inv (upd s) (gs[i := g']) \<and> behaves Inv Guar post (cont s) g'))"

lemma behaves_and_then:
  "behaves Inv Guar post p g \<Longrightarrow> (\<And>g x. post g x \<Longrightarrow> behaves Inv Guar post' (f x) g) \<Longrightarrow>
     behaves Inv Guar post' (and_then p f) g"
proof (induction p arbitrary: g)
  case (Atomic can upd cont)
  have IH: "behaves Inv Guar post (cont s) g' \<Longrightarrow> behaves Inv Guar post' (and_then (cont s) f) g'" for s g'
    by (rule Atomic.IH [OF rangeI]) (use Atomic.prems(2) in blast)+
  show ?case
    unfolding and_then.simps behaves.simps
  proof (intro allI impI)
    fix s gs i
    assume "i < length gs" and "gs ! i = g" and "Inv s gs"
    from Atomic.prems(1) [unfolded behaves.simps, rule_format, OF this] IH
    show "can s \<and> Guar s (upd s) \<and> (\<exists>g'. Inv (upd s) (gs[i := g']) \<and> behaves Inv Guar post' (and_then (cont s) f) g')"
      by blast
  qed
qed simp

lemma and_then_Return [simp]: "and_then p Return = p"
  by (induction p) auto

lemma behaves_weaken:
  "behaves Inv Guar post p g \<Longrightarrow> (\<And>g x. post g x \<Longrightarrow> post' g x) \<Longrightarrow> behaves Inv Guar post' p g"
  using behaves_and_then [of Inv Guar post p g post' Return] by simp

text \<open>A step that is never blocked; one that leaves the label as it is; reading; changing.\<close>

lemma behaves_atomic:
  assumes "\<And>s gs i. i < length gs \<Longrightarrow> gs ! i = g \<Longrightarrow> Inv s gs \<Longrightarrow>
      Guar s (upd s) \<and> Inv (upd s) (gs[i := next_label s]) \<and> behaves Inv Guar post (cont s) (next_label s)"
  shows "behaves Inv Guar post (Atomic (\<lambda>_. True) upd cont) g"
  using assms by (simp only: behaves.simps) blast

lemma behaves_same:
  assumes "\<And>s gs. g \<in> set gs \<Longrightarrow> Inv s gs \<Longrightarrow> Guar s (upd s) \<and> Inv (upd s) gs \<and> behaves Inv Guar post (cont s) g"
  shows "behaves Inv Guar post (Atomic (\<lambda>_. True) upd cont) g"
proof (rule behaves_atomic)
  fix s gs i
  assume i: "i < length gs" "gs ! i = g" and inv: "Inv s gs"
  then have "gs[i := g] = gs" by (metis list_update_id)
  with assms [of gs s] i inv
  show "Guar s (upd s) \<and> Inv (upd s) (gs[i := g]) \<and> behaves Inv Guar post (cont s) g" by (metis nth_mem)
qed

lemma behaves_look:
  "(\<And>s. Guar s s) \<Longrightarrow> (\<And>s gs. g \<in> set gs \<Longrightarrow> Inv s gs \<Longrightarrow> behaves Inv Guar post (k s) g) \<Longrightarrow>
     behaves Inv Guar post (look k) g"
  unfolding look_def by (rule behaves_same) simp

lemma behaves_modify:
  "(\<And>s gs. Inv s gs \<Longrightarrow> Guar s (f s) \<and> Inv (f s) gs) \<Longrightarrow> behaves Inv Guar post p g \<Longrightarrow>
     behaves Inv Guar post (modify f p) g"
  unfolding modify_def by (rule behaves_same) simp

section \<open>All goroutines of a process\<close>

definition proc_inv ::
  "('s \<Rightarrow> 'g list \<Rightarrow> bool) \<Rightarrow> ('s \<Rightarrow> 's \<Rightarrow> bool) \<Rightarrow> ('g \<Rightarrow> 'a \<Rightarrow> bool) \<Rightarrow> ('s, 'a) process \<Rightarrow> bool" where
  "proc_inv Inv Guar post s \<longleftrightarrow>
     (\<exists>gs. Inv (shared s) gs \<and> list_all2 (behaves Inv Guar post) (gos s) gs)"

lemma proc_invE:
  assumes "proc_inv Inv Guar post s"
  obtains gs where "Inv (shared s) gs" "list_all2 (behaves Inv Guar post) (gos s) gs"
  using assms by (auto simp: proc_inv_def)

lemma idle_inv: "Inv h [] \<Longrightarrow> proc_inv Inv Guar post \<lparr>shared = h, gos = []\<rparr>"
  by (auto simp: proc_inv_def)

text \<open>A change of the shared state, and a goroutine more.\<close>

lemma proc_inv_shared:
  "proc_inv Inv Guar post s \<Longrightarrow> (\<And>gs. Inv (shared s) gs \<Longrightarrow> Inv h gs) \<Longrightarrow> proc_inv Inv Guar post (s\<lparr>shared := h\<rparr>)"
  by (auto simp: proc_inv_def)

lemma proc_inv_spawn:
  assumes "proc_inv Inv Guar post s" and "\<And>gs. Inv (shared s) gs \<Longrightarrow> Inv (shared s) (gs @ [g])"
    and "behaves Inv Guar post p g"
  shows "proc_inv Inv Guar post (s\<lparr>gos := gos s @ [p]\<rparr>)"
  using assms(1)
proof (rule proc_invE)
  fix gs
  assume "Inv (shared s) gs" and "list_all2 (behaves Inv Guar post) (gos s) gs"
  with assms(2,3) show ?thesis
    by (auto simp: proc_inv_def intro!: exI [of _ "gs @ [g]"] list_all2_appendI)
qed

text \<open>The step of one goroutine, in a state where the invariant holds.\<close>

lemma behaves_step:
  assumes "Inv (shared s) gs" and "list_all2 (behaves Inv Guar post) (gos s) gs"
    and "i < length (gos s)" and "gos s ! i = Atomic can upd cont"
  shows "can (shared s) \<and> Guar (shared s) (upd (shared s)) \<and>
    (\<exists>g'. Inv (upd (shared s)) (gs[i := g']) \<and> behaves Inv Guar post (cont (shared s)) g')"
proof -
  have i: "i < length gs" using assms(2,3) by (simp add: list_all2_lengthD)
  have "behaves Inv Guar post (Atomic can upd cont) (gs ! i)"
    using list_all2_nthD [OF assms(2,3)] assms(4) by simp
  from this [unfolded behaves.simps, rule_format, OF i refl assms(1)] show ?thesis .
qed

lemma sched_inv:
  assumes "sched s t" and "proc_inv Inv Guar post s"
  shows "proc_inv Inv Guar post t \<and> Guar (shared s) (shared t)"
  using assms(1)
proof (cases rule: sched.cases)
  case (moves i can upd cont)
  from assms(2) obtain gs where gs: "Inv (shared s) gs" "list_all2 (behaves Inv Guar post) (gos s) gs"
    by (rule proc_invE)
  with behaves_step [OF gs moves(2,3)] obtain g' where guar: "Guar (shared s) (upd (shared s))" and
    g': "Inv (upd (shared s)) (gs[i := g'])" "behaves Inv Guar post (cont (shared s)) g'" by blast
  have "list_all2 (behaves Inv Guar post) (gos t) (gs[i := g'])"
    unfolding moves(1) using gs(2) g'(2) by (simp add: list_all2_update_cong)
  with g'(1) guar show ?thesis unfolding proc_inv_def moves(1) by auto
qed

lemma sched_reach_inv: "sched\<^sup>*\<^sup>* s t \<Longrightarrow> proc_inv Inv Guar post s \<Longrightarrow> proc_inv Inv Guar post t"
  by (induction rule: rtranclp_induct) (auto dest: sched_inv)

text \<open>No goroutine that has not returned is ever blocked.\<close>

lemma can_move:
  assumes "proc_inv Inv Guar post s" and "i < length (gos s)" and "\<not> returned (gos s ! i)"
  shows "\<exists>t. sched s t \<and> gos t ! i \<noteq> gos s ! i"
proof -
  from assms(3) obtain can upd k where p: "gos s ! i = Atomic can upd k" by (cases "gos s ! i") auto
  from assms(1) obtain gs where gs: "Inv (shared s) gs" "list_all2 (behaves Inv Guar post) (gos s) gs"
    by (rule proc_invE)
  with behaves_step [OF gs assms(2) p] have "can (shared s)" by blast
  from sched.moves [of i s can upd k, OF assms(2) p this]
  have "sched s \<lparr>shared = upd (shared s), gos = (gos s)[i := k (shared s)]\<rparr>" .
  moreover have "k (shared s) \<noteq> Atomic can upd k"
  proof
    assume "k (shared s) = Atomic can upd k"
    then have "(Atomic can upd k, Atomic can upd k) \<in> later" using later.intros [of k "shared s" can upd] by simp
    with wf_later show False by (meson wf_not_refl)
  qed
  ultimately show ?thesis using assms(2) p by (intro exI conjI) auto
qed

text \<open>Left alone, all goroutines return.\<close>

lemma all_return:
  assumes "proc_inv Inv Guar post s" and "\<forall>u. \<not> sched s u"
  shows "list_all returned (gos s)"
  using can_move [OF assms(1)] assms(2) by (auto simp: list_all_length)

lemma results:
  assumes "proc_inv Inv Guar post s" and "list_all returned (gos s)"
  shows "\<exists>gs xs. Inv (shared s) gs \<and> gos s = map Return xs \<and> list_all2 post gs xs"
proof -
  from assms(1) obtain gs where gs: "Inv (shared s) gs" "list_all2 (behaves Inv Guar post) (gos s) gs"
    by (rule proc_invE)
  have "\<forall>p \<in> set (gos s). \<exists>x. p = Return x"
    using assms(2) by (metis list.pred_set returned.elims(2))
  then obtain xs where xs: "gos s = map Return xs"
    by (metis (no_types, lifting) ex_map_conv)
  with gs(2) have "list_all2 post gs xs" by (auto simp: list_all2_conv_all_nth)
  with gs(1) xs show ?thesis by blast
qed

section \<open>What every step does\<close>

primrec each_step :: "('s \<Rightarrow> 's \<Rightarrow> bool) \<Rightarrow> ('s, 'a) goroutine \<Rightarrow> bool" where
  "each_step R (Return x) \<longleftrightarrow> True"
| "each_step R (Atomic can upd cont) \<longleftrightarrow> (\<forall>s. R s (upd s) \<and> each_step R (cont s))"

lemma each_step_mono: "each_step R p \<Longrightarrow> (\<And>s t. R s t \<Longrightarrow> R' s t) \<Longrightarrow> each_step R' p"
  by (induction p) (auto intro: rangeI)

lemma each_step_and_then: "each_step R p \<Longrightarrow> (\<And>x. each_step R (f x)) \<Longrightarrow> each_step R (and_then p f)"
  by (induction p) (auto intro: rangeI)

lemma each_step_look: "(\<And>s. R s s) \<Longrightarrow> (\<And>s. each_step R (k s)) \<Longrightarrow> each_step R (look k)"
  by (simp add: look_def)

lemma each_step_modify: "(\<And>s. R s (f s)) \<Longrightarrow> each_step R p \<Longrightarrow> each_step R (modify f p)"
  by (simp add: modify_def)

text \<open>What the steps of all goroutines and of the rest of the program do, they do over a whole run.\<close>

lemma each_step_run:
  assumes "(go_step fresh_go others)\<^sup>*\<^sup>* s t" and "list_all (each_step R) (gos s)"
    and "\<And>s. R s s" and "\<And>s t u. R s t \<Longrightarrow> R t u \<Longrightarrow> R s u"
    and "\<And>p. fresh_go p \<Longrightarrow> each_step R p" and "\<And>h h'. others h h' \<Longrightarrow> R h h'"
  shows "R (shared s) (shared t) \<and> list_all (each_step R) (gos t)"
  using assms(1)
proof (induction rule: rtranclp_induct)
  case base
  with assms(2,3) show ?case by blast
next
  case (step t u)
  from step.hyps(2) have "R (shared t) (shared u) \<and> list_all (each_step R) (gos u)"
  proof cases
    case scheduled
    then show ?thesis
    proof (cases rule: sched.cases)
      case (moves i can upd cont)
      with step.IH have "each_step R (Atomic can upd cont)" by (metis list_all_length)
      with moves step.IH show ?thesis
        by (auto simp: list_all_iff dest: set_update_subset_insert [THEN subsetD])
    qed
  next
    case (spawn p)
    with step.IH assms(3,5) show ?thesis by simp
  next
    case (outside h)
    with step.IH assms(6) show ?thesis by simp
  qed
  with step.IH assms(4) show ?case by blast
qed

section \<open>What a goroutine reports\<close>

text \<open>
  \<open>reports ok events due p\<close>: in states that satisfy \<open>ok\<close>, the record \<open>events\<close> of the shared state is
  only written by the step with which \<open>p\<close> returns, and that step appends what is due for its result.
\<close>

primrec due_of :: "('a \<Rightarrow> 'e list) \<Rightarrow> ('s, 'a) goroutine \<Rightarrow> 'e list" where
  "due_of due (Return x) = due x"
| "due_of due (Atomic can upd cont) = []"

primrec reports :: "('s \<Rightarrow> bool) \<Rightarrow> ('s \<Rightarrow> 'e list) \<Rightarrow> ('a \<Rightarrow> 'e list) \<Rightarrow> ('s, 'a) goroutine \<Rightarrow> bool" where
  "reports ok events due (Return x) \<longleftrightarrow> True"
| "reports ok events due (Atomic can upd cont) \<longleftrightarrow>
     (\<forall>s. ok s \<longrightarrow> ok (upd s) \<and> events (upd s) = events s @ due_of due (cont s) \<and> reports ok events due (cont s))"

text \<open>A part of a goroutine that reports nothing, with what follows.\<close>

abbreviation silent :: "('s \<Rightarrow> bool) \<Rightarrow> ('s \<Rightarrow> 'e list) \<Rightarrow> ('s, 'a) goroutine \<Rightarrow> bool" where
  "silent ok events \<equiv> reports ok events (\<lambda>_. [])"

lemma due_of_none [simp]: "due_of (\<lambda>_. []) p = []"
  by (cases p) simp_all

lemma reports_and_then:
  assumes "silent ok events p" and "\<And>x. reports ok events due (f x) \<and> due_of due (f x) = []"
  shows "reports ok events due (and_then p f) \<and> due_of due (and_then p f) = []"
  using assms(1) by (induction p) (auto simp: assms(2) intro: rangeI)

lemma silent_each_step:
  "each_step R p \<Longrightarrow> (\<And>s t. R s t \<Longrightarrow> ok s \<Longrightarrow> ok t \<and> events t = events s) \<Longrightarrow> silent ok events p"
  by (induction p) (auto intro: rangeI)

text \<open>In a process the record is what it was at the start and what is due for the goroutines that have returned.\<close>

definition reported :: "('a \<Rightarrow> 'e list) \<Rightarrow> ('s, 'a) goroutine list \<Rightarrow> 'e multiset" where
  "reported due ps = (\<Sum>p \<leftarrow> ps. mset (due_of due p))"

definition records ::
  "('s \<Rightarrow> bool) \<Rightarrow> ('s \<Rightarrow> 'e list) \<Rightarrow> ('a \<Rightarrow> 'e list) \<Rightarrow> 'e multiset \<Rightarrow> ('s, 'a) process \<Rightarrow> bool" where
  "records ok events due before s \<longleftrightarrow>
     ok (shared s) \<and> list_all (reports ok events due) (gos s) \<and> mset (events (shared s)) = before + reported due (gos s)"

lemma reported_update:
  "i < length ps \<Longrightarrow> due_of due (ps ! i) = [] \<Longrightarrow> reported due (ps[i := q]) = reported due ps + mset (due_of due q)"
  by (induction ps arbitrary: i) (auto simp: reported_def nth_Cons' split: nat.split if_splits)

lemma records_sched:
  assumes "sched s t" and "records ok events due before s"
  shows "records ok events due before t"
  using assms(1)
proof (cases rule: sched.cases)
  case (moves i can upd cont)
  from assms(2) have ok: "ok (shared s)" and all: "list_all (reports ok events due) (gos s)"
    and sum: "mset (events (shared s)) = before + reported due (gos s)" by (simp_all add: records_def)
  from all moves(2,3) have "reports ok events due (Atomic can upd cont)" by (metis list_all_length)
  with ok have step: "ok (upd (shared s))" "events (upd (shared s)) = events (shared s) @ due_of due (cont (shared s))"
    "reports ok events due (cont (shared s))" by simp_all
  from all step(3) have "list_all (reports ok events due) ((gos s)[i := cont (shared s)])"
    by (auto simp: list_all_iff dest: set_update_subset_insert [THEN subsetD])
  with step sum moves(2,3) show ?thesis by (simp add: moves(1) records_def reported_update)
qed

lemma records_run:
  assumes "(go_step fresh_go others)\<^sup>*\<^sup>* s t" and "records ok events due before s"
    and "\<And>p. fresh_go p \<Longrightarrow> reports ok events due p \<and> due_of due p = []"
    and "\<And>h h'. others h h' \<Longrightarrow> ok h \<Longrightarrow> ok h' \<and> events h' = events h"
  shows "records ok events due before t"
  using assms(1)
proof (induction rule: rtranclp_induct)
  case (step t u)
  from step.hyps(2) show ?case
  proof cases
    case scheduled
    with step.IH show ?thesis by (blast intro: records_sched)
  next
    case (spawn p)
    with step.IH assms(3) [of p] show ?thesis by (simp add: records_def reported_def)
  next
    case (outside h)
    with step.IH assms(4) [of "shared t" h] show ?thesis by (simp add: records_def)
  qed
qed (rule assms(2))

section \<open>A process that lives\<close>

locale goroutines =
  fixes Inv :: "'s \<Rightarrow> 'g list \<Rightarrow> bool" and Guar :: "'s \<Rightarrow> 's \<Rightarrow> bool" and start :: 'g
    and post :: "'g \<Rightarrow> 'a \<Rightarrow> bool" and fresh_go :: "('s, 'a) goroutine \<Rightarrow> bool" and others :: "'s \<Rightarrow> 's \<Rightarrow> bool"
  assumes spawn_inv: "Inv s gs \<Longrightarrow> Inv s (gs @ [start])"
    and others_inv: "others s t \<Longrightarrow> Inv s gs \<Longrightarrow> Inv t gs"
    and fresh_behaves: "fresh_go p \<Longrightarrow> behaves Inv Guar post p start"
begin

lemma go_inv: "go_step fresh_go others s t \<Longrightarrow> proc_inv Inv Guar post s \<Longrightarrow> proc_inv Inv Guar post t"
proof (induction rule: go_step.induct)
  case (scheduled s t)
  then show ?case using sched_inv by blast
next
  case (spawn p s)
  then show ?case by (intro proc_inv_spawn [where g = start]) (auto intro: spawn_inv fresh_behaves)
next
  case (outside s h)
  then show ?case by (blast intro: proc_inv_shared others_inv)
qed

lemma reach_inv: "(go_step fresh_go others)\<^sup>*\<^sup>* s t \<Longrightarrow> proc_inv Inv Guar post s \<Longrightarrow> proc_inv Inv Guar post t"
  by (induction rule: rtranclp_induct) (auto intro: go_inv)

text \<open>What all goroutines guarantee and the rest of the program respects holds over a whole run.\<close>

lemma reach_guar:
  assumes "(go_step fresh_go others)\<^sup>*\<^sup>* s t" and "proc_inv Inv Guar post s"
    and "\<And>s. R s s" and "\<And>s t u. R s t \<Longrightarrow> R t u \<Longrightarrow> R s u"
    and "\<And>s t. Guar s t \<Longrightarrow> R s t" and "\<And>s t. others s t \<Longrightarrow> R s t"
  shows "R (shared s) (shared t)"
  using assms(1)
proof (induction rule: rtranclp_induct)
  case base
  show ?case by (rule assms(3))
next
  case (step t u)
  have inv: "proc_inv Inv Guar post t" using step.hyps(1) assms(2) by (rule reach_inv)
  from step.hyps(2) have "R (shared t) (shared u)"
  proof cases
    case scheduled
    with sched_inv [OF _ inv] assms(5) show ?thesis by blast
  qed (use assms(3,6) in auto)
  with step.IH show ?case by (rule assms(4))
qed

end

end
