(* ===== verification/Concurrent.thy ===== *)
theory Concurrent
  imports Requests Goroutines
begin

text \<open>
  The server as Go runs it: one goroutine per request, all on the same \<open>Handler\<close>. The handlers are the
  ones of \<open>Server\<close>, cut at every access to the shared state: the operations on the semaphore channel, the
  atomic counters, the calls on the metrics registry, the critical section of the rate limiter, the
  bucket behind its pointer, the lookups under the read lock of the geo database, and the statements on
  the single database connection. \<open>server_alone\<close> shows that a request that runs alone does what the
  sequential definitions say.
\<close>

type_synonym ('db, 'b, 'a) srv_go = "(('db, 'b) handler, 'a) goroutine"

text \<open>The outcome of a handler: the writer and the bytes read from the body; \<open>None\<close> for a handler that
  panics or never returns.\<close>

type_synonym ('db, 'b) handler_go = "('db, 'b, (statusWriter \<times> int) option) srv_go"

definition go_reply :: "('db, 'b, 'r) libs \<Rightarrow> reply \<Rightarrow> statusWriter \<Rightarrow> ('db, 'b) handler_go" where
  "go_reply l rep sw = Return (Some (send (json_text l) rep sw, 0))"

section \<open>The speed tests\<close>

definition on_tests :: "(admission \<Rightarrow> admission) \<Rightarrow> ('db, 'b) handler \<Rightarrow> ('db, 'b) handler" where
  "on_tests f h = h\<lparr>tests := f (tests h)\<rparr>"

definition go_acquire :: "('db, 'b, bool) srv_go" where
  "go_acquire = Atomic (\<lambda>_. True)
     (\<lambda>h. if sem_len (tests h) < sem_cap (tests h) then on_tests reserve h else h)
     (\<lambda>h. if sem_len (tests h) < sem_cap (tests h)
          then modify (on_tests count_accepted) (modify (on_tests (with_metrics (recordAdmission True))) (Return True))
          else modify (on_tests count_rejected) (modify (on_tests (with_metrics (recordAdmission False))) (Return False)))"

text \<open>The deferred calls; receiving from the semaphore blocks while it is empty.\<close>

definition go_finish :: "string \<Rightarrow> int \<Rightarrow> int \<Rightarrow> ('db, 'b, 'a) srv_go \<Rightarrow> ('db, 'b, 'a) srv_go" where
  "go_finish direction bytes elapsed p =
     modify (on_tests (ObserveTest direction bytes elapsed))
       (Atomic (\<lambda>h. 0 < sem_len (tests h)) (on_tests release) (\<lambda>_. p))"

definition go_download :: "('db, 'b, 'r) libs \<Rightarrow> request \<Rightarrow> statusWriter \<Rightarrow> ('db, 'b) handler_go" where
  "go_download l r sw =
     (if Method r \<noteq> MethodGet then go_reply l method_not_allowed sw
      else and_then go_acquire (\<lambda>got.
        if \<not> got then go_reply l server_busy sw
        else look (\<lambda>h.
          let started = sw_now sw; sw = set_headers download_headers sw in
          case download_stream (cfg h) r sw of
            None \<Rightarrow> Return None
          | Some (n, sw) \<Rightarrow> go_finish ''down'' n (sw_now sw - started) (Return (Some (sw, 0))))))"

definition go_upload :: "('db, 'b, 'r) libs \<Rightarrow> request \<Rightarrow> statusWriter \<Rightarrow> ('db, 'b) handler_go" where
  "go_upload l r sw =
     (let elapsed = int (copy_time l r); ms = elapsed div 1000000 in
      if Method r \<noteq> MethodPost then go_reply l method_not_allowed sw
      else and_then go_acquire (\<lambda>got.
        if \<not> got then go_reply l server_busy sw
        else
          (let sw = pass_time (copy_time l r) sw in
           case Copy_discard limited_Read 0 (limited_reader maxUploadBytes r) of
             None \<Rightarrow> Return None
           | Some (n, err, rd) \<Rightarrow>
               go_finish ''up'' n elapsed (Return (Some (send (json_text l)
                 (case err of
                    None \<Rightarrow> uploaded n ms False
                  | Some MaxBytesError \<Rightarrow> uploaded n ms True
                  | Some _ \<Rightarrow> http_Error identity_header ''upload failed'' StatusBadRequest) sw, bytesRecv (mb_r rd)))))))"

section \<open>The other handlers\<close>

text \<open>One statement on the database; without a database \<open>missing\<close> goes on.\<close>

definition db_call ::
  "('db \<Rightarrow> 'x \<times> 'db) \<Rightarrow> ('db, 'b, 'a) srv_go \<Rightarrow> ('x \<Rightarrow> ('db, 'b, 'a) srv_go) \<Rightarrow> ('db, 'b, 'a) srv_go" where
  "db_call f missing k = Atomic (\<lambda>_. True) (\<lambda>h. h\<lparr>h_store := map_option (\<lambda>db. snd (f db)) (h_store h)\<rparr>)
     (\<lambda>h. case h_store h of None \<Rightarrow> missing | Some db \<Rightarrow> k (fst (f db)))"

definition go_list :: "('db, 'b, 'r) libs \<Rightarrow> request \<Rightarrow> statusWriter \<Rightarrow> ('db, 'b) handler_go" where
  "go_list l r sw =
     (let disabled = go_reply l writeHistoryDisabled sw;
          limit = clampInt (parseQueryInt r ''limit'' 20) 1 maxListLimit;
          offset = clampInt (parseQueryInt r ''offset'' 0) 0 maxListOffset
      in db_call (List (store_lib l) limit offset) disabled (\<lambda>res.
           case res of
             None \<Rightarrow> go_reply l internalErr sw
           | Some results \<Rightarrow>
               db_call (Count (store_lib l)) disabled (\<lambda>res.
                 case res of
                   None \<Rightarrow> go_reply l internalErr sw
                 | Some all_results \<Rightarrow>
                     go_reply l (encode_results Map.empty results
                       (JObj [(''limit'', jint limit), (''offset'', jint offset),
                          (''results'', JArr (map (json_result (float_json l)) results)), (''total'', jint all_results)])) sw)))"

definition go_create :: "('db, 'b, 'r) libs \<Rightarrow> request \<Rightarrow> statusWriter \<Rightarrow> ('db, 'b) handler_go" where
  "go_create l r sw =
     (let t = wall_ms l (sw_now sw); recv = int (json_used l (limited_body maxResultBody r));
          reply = (\<lambda>rep. Return (Some (send (json_text l) rep sw, recv)))
      in look (\<lambda>h.
           if h_store h = None then go_reply l writeHistoryDisabled sw
           else
             (case decodeResult (json_value l) (parse_float l) r of
                None \<Rightarrow> reply (writeErr StatusBadRequest ''invalid request body'')
              | Some x \<Rightarrow> look (\<lambda>h.
                  case server_result (locate_in l) (h_geoip h) t r x of
                    None \<Rightarrow> Return None
                  | Some x \<Rightarrow>
                      db_call (Save (store_lib l) t x) (go_reply l writeHistoryDisabled sw) (\<lambda>res.
                        case res of None \<Rightarrow> reply internalErr | Some saved \<Rightarrow> reply (created saved))))))"

definition go_export :: "('db, 'b, 'r) libs \<Rightarrow> request \<Rightarrow> statusWriter \<Rightarrow> ('db, 'b) handler_go" where
  "go_export l r sw =
     (let run = (\<lambda>s. ResultsExport (float_json l) (float_csv l) (store_lib l) (export_stamp l (sw_now sw)) s r)
      in Atomic (\<lambda>_. True) (\<lambda>h. h\<lparr>h_store := snd (run (h_store h))\<rparr>)
           (\<lambda>h. go_reply l (fst (run (h_store h))) sw))"

text \<open>The two totals and the number of tests are read one after the other, as the registry and the gauge
  are when the metrics are collected.\<close>

definition go_health :: "('db, 'b, 'r) libs \<Rightarrow> request \<Rightarrow> statusWriter \<Rightarrow> ('db, 'b) handler_go" where
  "go_health l r sw = look (\<lambda>h. look (\<lambda>h2. look (\<lambda>h3.
     go_reply l (HealthHandler (sw_now sw)
       (on_tests (\<lambda>a. a\<lparr>acceptedTotal := acceptedTotal (tests h2), rejectedTotal := rejectedTotal (tests h3)\<rparr>) h) r) sw)))"

definition go_metrics :: "('db, 'b, 'r) libs \<Rightarrow> request \<Rightarrow> statusWriter \<Rightarrow> ('db, 'b) handler_go" where
  "go_metrics l r sw = look (\<lambda>h. look (\<lambda>h2.
     go_reply l (MetricsHandler (exposition l) (on_tests (\<lambda>a. a\<lparr>sem_len := sem_len (tests h2)\<rparr>) h) r) sw))"

fun go_serve :: "('db, 'b, 'r) libs \<Rightarrow> route \<Rightarrow> request \<Rightarrow> statusWriter \<Rightarrow> ('db, 'b) handler_go" where
  "go_serve l Static r sw = go_reply l (file_server l r) sw"
| "go_serve l Favicon r sw = go_reply l (faviconHandler (disk_icon l) (embedded_icon l) r) sw"
| "go_serve l SwJs r sw = look (\<lambda>h. go_reply l (swjsHandler (embedded_sw l) (Version (Build h))) sw)"
| "go_serve l ConfigRoute r sw = look (\<lambda>h. go_reply l (ConfigHandler h r) sw)"
| "go_serve l IPRoute r sw = go_reply l (IPHandler r) sw"
| "go_serve l PingRoute r sw = go_reply l (PingHandler r) sw"
| "go_serve l DownloadRoute r sw = go_download l r sw"
| "go_serve l UploadRoute r sw = go_upload l r sw"
| "go_serve l HealthRoute r sw = go_health l r sw"
| "go_serve l MetricsRoute r sw = go_metrics l r sw"
| "go_serve l ExportRoute r sw = go_export l r sw"
| "go_serve l ResultsRoute r sw =
     (if Method r = MethodGet then go_list l r sw
      else if Method r = MethodPost then go_create l r sw
      else go_reply l method_not_allowed sw)"
| "go_serve l (RedirectTo p) r sw = go_reply l (redirect_to l p r) sw"
| "go_serve l NotFound r sw = go_reply l (http_Error Map.empty ''404 page not found'' 404) sw"

section \<open>The middleware\<close>

definition on_limiter ::
  "('b rateLimiter \<Rightarrow> 'x \<times> 'b rateLimiter) \<Rightarrow> ('db, 'b, 'a) srv_go \<Rightarrow> ('x \<Rightarrow> ('db, 'b, 'a) srv_go) \<Rightarrow> ('db, 'b, 'a) srv_go" where
  "on_limiter f missing k = Atomic (\<lambda>_. True) (\<lambda>h. h\<lparr>limiter := map_option (\<lambda>rl. snd (f rl)) (limiter h)\<rparr>)
     (\<lambda>h. case limiter h of None \<Rightarrow> missing | Some rl \<Rightarrow> k (fst (f rl)))"

definition reserve_token :: "('b, 'r) rate_lib \<Rightarrow> nat \<Rightarrow> int \<Rightarrow> 'b rateLimiter \<Rightarrow> 'r option \<times> 'b rateLimiter" where
  "reserve_token lib a t rl =
     (case buckets rl a of
        None \<Rightarrow> (None, rl)
      | Some b \<Rightarrow> (case ReserveN lib b t 1 of (res, b') \<Rightarrow> (Some res, set_bucket a b' rl)))"

definition cancel_token :: "('b, 'r) rate_lib \<Rightarrow> 'r \<Rightarrow> nat \<Rightarrow> int \<Rightarrow> 'b rateLimiter \<Rightarrow> unit \<times> 'b rateLimiter" where
  "cancel_token lib res a t rl =
     ((), case buckets rl a of None \<Rightarrow> rl | Some b \<Rightarrow> set_bucket a (CancelAt lib res t b) rl)"

definition go_RateLimit ::
  "('db, 'b, 'r) libs \<Rightarrow> int \<Rightarrow> ('db, 'b) handler_go \<Rightarrow> request \<Rightarrow> statusWriter \<Rightarrow> ('db, 'b) handler_go" where
  "go_RateLimit l t served r sw =
     (let refuse = (\<lambda>d. go_reply l (too_many d) sw) in
      look (\<lambda>h.
        if limiter h = None \<or> Path r \<notin> set rateLimitedPaths then served
        else on_limiter (limiterFor (rate l) (ClientIP r) t) served (\<lambda>a.
          on_limiter (reserve_token (rate l) a t) served (\<lambda>taken.
            case taken of
              None \<Rightarrow> refuse Second
            | Some res \<Rightarrow>
                if \<not> OK (rate l) res then refuse Second
                else
                  (let delay = DelayFrom (rate l) res t in
                   if 0 < delay then on_limiter (cancel_token (rate l) res a t) served (\<lambda>_. refuse delay)
                   else served)))))"

definition log_entry :: "string \<Rightarrow> int \<Rightarrow> request \<Rightarrow> statusWriter \<Rightarrow> int \<Rightarrow> access_log" where
  "log_entry reqID start r sw recv =
     \<lparr>l_method = Method r, l_path = Path r, l_remote_addr = RemoteAddr r, l_status = sw_status sw,
      l_duration_ms = (sw_now sw - start) div 1000000, l_bytes_sent = bytesSent sw, l_bytes_recv = recv,
      l_request_id = reqID, l_user_agent = header_Get r ''User-Agent''\<rparr>"

text \<open>The request is counted in one step, or the call panics and nothing changes.\<close>

definition go_observe ::
  "('db, 'b, 'r) libs \<Rightarrow> request \<Rightarrow> int \<Rightarrow> (bool \<Rightarrow> ('db, 'b, 'a) srv_go) \<Rightarrow> ('db, 'b, 'a) srv_go" where
  "go_observe l r code k =
     (let observe = (\<lambda>h. ObserveRequest (label_ok l) (Method r) (Path r) (Itoa code) (tests h)) in
      Atomic (\<lambda>_. True) (\<lambda>h. case observe h of None \<Rightarrow> h | Some a \<Rightarrow> h\<lparr>tests := a\<rparr>) (\<lambda>h. k (observe h \<noteq> None)))"

text \<open>The goroutine of a request.\<close>

definition go_ServeHTTP ::
  "('db, 'b, 'r) libs \<Rightarrow> string \<Rightarrow> string \<Rightarrow> request \<Rightarrow> conn \<Rightarrow> ('db, 'b, (conn \<times> access_log) option) srv_go" where
  "go_ServeHTTP l reqID escaped r c =
     (let sw = new_statusWriter (Header_Set ''X-Request-Id'' reqID c) in
      and_then (go_RateLimit l (now c) (go_serve l (findHandler (Method r) escaped) r sw) r sw) (\<lambda>served.
        case served of
          None \<Rightarrow> Return None
        | Some (sw, recv) \<Rightarrow>
            go_observe l r (sw_status sw) (\<lambda>counted.
              Return (Some (if counted then conn_finish (inner sw) else conn_drop (inner sw),
                log_entry reqID (now c) r sw recv)))))"

section \<open>A request alone\<close>

lemma alone_reply [simp]: "alone (go_reply l rep sw) h = Some (h, Some (send (json_text l) rep sw, 0))"
  by (simp add: go_reply_def)

lemma alone_acquire [simp]: "alone (and_then go_acquire f) h =
  alone (f (fst (acquire (tests h)))) (h\<lparr>tests := snd (acquire (tests h))\<rparr>)"
  by (simp add: go_acquire_def acquire_def on_tests_def modify_def)

lemma alone_finish: "0 < sem_len (tests h) \<Longrightarrow> alone (go_finish d n t p) h = alone p (finish_test d n t h)"
  by (simp add: go_finish_def on_tests_def finish_test_def ObserveTest_def with_metrics_def)

lemma acquired_slot: "acquire a = (True, a') \<Longrightarrow> 0 < sem_len a'"
  by (auto simp: acquire_def admission_ops split: if_splits)

lemma download_alone:
  assumes "DownloadHandler (json_text l) h r sw = Some (h', sw')"
  shows "alone (go_download l r sw) h = Some (h', Some (sw', 0))"
proof -
  obtain got a where a: "acquire (tests h) = (got, a)" by (cases "acquire (tests h)")
  with assms acquired_slot [of "tests h" a] show ?thesis
    by (auto simp: go_download_def DownloadHandler_def Let_def alone_finish split: if_splits option.splits)
qed

lemma upload_alone:
  assumes "serve_upload l h r sw = Some (h', sw', n)"
  shows "alone (go_upload l r sw) h = Some (h', Some (sw', n))"
proof -
  obtain got a where a: "acquire (tests h) = (got, a)" by (cases "acquire (tests h)")
  moreover have "got \<longleftrightarrow> sem_len (tests h) < sem_cap (tests h)" using fst_acquire [of "tests h"] a by simp
  ultimately show ?thesis
    using assms acquired_slot [of "tests h" a]
    by (auto simp: go_upload_def serve_upload_def UploadHandler_def Let_def alone_finish
        split: if_splits option.splits read_end.splits)
qed

lemma alone_db_call [simp]: "alone (db_call f missing k) h =
  (case h_store h of None \<Rightarrow> alone missing h | Some db \<Rightarrow> alone (k (fst (f db))) (h\<lparr>h_store := Some (snd (f db))\<rparr>))"
  by (simp add: db_call_def split: option.split) (metis handler.surjective handler.update_convs(3))

lemma alone_on_limiter [simp]: "alone (on_limiter f missing k) h =
  (case limiter h of None \<Rightarrow> alone missing h | Some rl \<Rightarrow> alone (k (fst (f rl))) (h\<lparr>limiter := Some (snd (f rl))\<rparr>))"
  by (simp add: on_limiter_def split: option.split) (metis handler.surjective handler.update_convs(7))

lemma list_alone:
  "alone (go_list l r sw) h = (case listResults (float_json l) (store_lib l) (h_store h) r of
     (rep, s) \<Rightarrow> Some (h\<lparr>h_store := s\<rparr>, Some (send (json_text l) rep sw, 0)))"
proof -
  have same: "h = h\<lparr>h_store := h_store h\<rparr>" by simp
  show ?thesis
    by (subst same) (auto simp: go_list_def listResults_def Let_def split: option.split prod.split)
qed

lemma create_alone:
  assumes "createResult (json_value l) (parse_float l) (locate_in l) (store_lib l) (h_geoip h) (wall_ms l (sw_now sw))
    (h_store h) r = Some (rep, s)"
  shows "alone (go_create l r sw) h = Some (h\<lparr>h_store := s\<rparr>, Some (send (json_text l) rep sw,
    if h_store h \<noteq> None then int (json_used l (limited_body maxResultBody r)) else 0))"
  using assms by (auto simp: go_create_def createResult_def Let_def split: option.splits prod.splits)

lemma serve_alone:
  assumes "serve l rt h r sw = Some (h', sw', n)"
  shows "alone (go_serve l rt r sw) h = Some (h', Some (sw', n))"
proof (cases rt)
  case DownloadRoute
  with assms show ?thesis by (auto intro: download_alone)
next
  case UploadRoute
  with assms show ?thesis by (auto intro: upload_alone)
next
  case ExportRoute
  with assms show ?thesis by (auto simp: serve_export_def go_export_def Let_def split: prod.splits)
next
  case ResultsRoute
  have "MethodGet \<noteq> MethodPost" by (simp add: MethodGet_def MethodPost_def)
  with ResultsRoute assms show ?thesis
    by (auto simp: serve_results_def ResultsListOrCreate_def list_alone create_alone
        split: option.splits prod.splits if_splits)
next
  case HealthRoute
  with assms show ?thesis by (auto simp: answer_def go_health_def on_tests_def)
next
  case MetricsRoute
  with assms show ?thesis by (auto simp: answer_def go_metrics_def on_tests_def)
qed (use assms in \<open>auto simp: answer_def\<close>)

lemma limit_alone:
  assumes "RateLimit (rate l) (json_text l) t (mux_ServeHTTP l escaped) (\<lambda>(h, sw). Some (h, sw, 0)) h r sw = Some (h', sw', n)"
  shows "alone (go_RateLimit l t (go_serve l (findHandler (Method r) escaped) r sw) r sw) h = Some (h', Some (sw', n))"
proof (cases "limiter h")
  case None
  with assms show ?thesis by (auto simp: go_RateLimit_def RateLimit_def mux_ServeHTTP_def intro: serve_alone)
next
  case (Some rl)
  obtain a rl' where a: "limiterFor (rate l) (ClientIP r) t rl = (a, rl')" by fastforce
  note served = serve_alone [where rt = "findHandler (Method r) escaped" and l = l and r = r and sw = sw]
  show ?thesis
    using assms Some a
    by (auto simp: go_RateLimit_def RateLimit_def mux_ServeHTTP_def allow_def take_token_def reserve_token_def
        cancel_token_def set_bucket_def Let_def intro!: served split: option.splits if_splits prod.splits)
qed

text \<open>C11: the concurrent server refines the sequential one: the goroutine of a request that nothing interferes
  with is never blocked and gives exactly the state, the connection and the log entry of
  \<open>server_ServeHTTP\<close>.\<close>

theorem server_alone:
  assumes "server_ServeHTTP l i escaped h r c = Some (h', c', entry)"
  shows "alone (go_ServeHTTP l i escaped r c) h = Some (h', Some (c', entry))"
proof -
  from assms obtain h1 sw recv where run: "RateLimit (rate l) (json_text l) (now c) (mux_ServeHTTP l escaped)
       (\<lambda>(h, sw). Some (h, sw, 0)) h r (new_statusWriter (Header_Set ''X-Request-Id'' i c)) = Some (h1, sw, recv)"
    and "case ObserveRequest (label_ok l) (Method r) (Path r) (Itoa (sw_status sw)) (tests h1) of
           None \<Rightarrow> h' = h1 \<and> c' = conn_drop (inner sw)
         | Some a \<Rightarrow> h' = h1\<lparr>tests := a\<rparr> \<and> c' = conn_finish (inner sw)"
    and "entry = log_entry i (now c) r sw recv"
    by (auto simp: server_ServeHTTP_def loggingMiddleware_def log_entry_def Let_def split: option.splits)
  then show ?thesis
    unfolding go_ServeHTTP_def Let_def
    by (subst alone_and_then [OF limit_alone [OF run]]) (auto simp: go_observe_def split: option.splits)
qed

theorem server_alone_witness:
  "\<exists>h' c' entry. alone (go_ServeHTTP demo_libs ''id'' ''/api/results'' demo_post demo_conn) (demo_server defaults) =
     Some (h', Some (c', entry))"
proof -
  obtain h' c' entry where
    "server_ServeHTTP demo_libs ''id'' ''/api/results'' (demo_server defaults) demo_post demo_conn = Some (h', c', entry)"
    using srv_inv_init [OF demo_init] server_answer [of "demo_server defaults" demo_libs "''id''" "''/api/results''" demo_post demo_conn]
    by (auto simp: srv_inv_def)
  from server_alone [OF this] show ?thesis by blast
qed

end
