(* ===== verification/Concurrent_Safe.thy ===== *)
theory Concurrent_Safe
  imports Concurrent
begin

text \<open>
  The concurrent server is safe under every schedule: each goroutine of \<open>Concurrent\<close> is checked against
  the invariant of the shared state and of the semaphore protocol of \<open>Admission\<close>, where it is a thread;
  the locale \<open>goroutines\<close> does the rest.
\<close>

section \<open>The invariant\<close>

definition shared_ok ::
  "('db \<Rightarrow> result list) \<Rightarrow> ('db \<Rightarrow> bool) \<Rightarrow> ('db, 'b, 'r) libs \<Rightarrow> ('db, 'b) handler \<Rightarrow> bool" where
  "shared_ok contents ok l h \<longleftrightarrow>
     result_store (store_lib l) contents ok \<and>
     wf_config (cfg h) \<and> Duration (cfg h) \<le> 2 ^ 46 \<and> geo_consistent (h_geoip h) \<and>
     (\<forall>db. h_store h = Some db \<longrightarrow> ok db \<and> list_all result_bounds (contents db))"

text \<open>The label of a request: where it is in the protocol of the tests, and the id of the result it was told
  is saved. Each such id is in the history, and no two requests have the same.\<close>

type_synonym label = "pc \<times> int option"

definition acks_ok :: "('db \<Rightarrow> result list) \<Rightarrow> 'db option \<Rightarrow> int option list \<Rightarrow> bool" where
  "acks_ok contents s as \<longleftrightarrow>
     (\<forall>n. Some n \<in> set as \<longrightarrow> (\<exists>db. s = Some db \<and> n \<in> ID ` set (contents db))) \<and>
     (\<forall>n i j. i < length as \<longrightarrow> j < length as \<longrightarrow> as ! i = Some n \<longrightarrow> as ! j = Some n \<longrightarrow> i = j)"

definition server_inv ::
  "('db \<Rightarrow> result list) \<Rightarrow> ('db \<Rightarrow> bool) \<Rightarrow> ('db, 'b, 'r) libs \<Rightarrow> ('db, 'b) handler \<Rightarrow> label list \<Rightarrow> bool" where
  "server_inv contents ok l h gs \<longleftrightarrow>
     shared_ok contents ok l h \<and> sem_inv \<lparr>adm = tests h, threads = map fst gs\<rparr> \<and>
     acks_ok contents (h_store h) (map snd gs)"

text \<open>What every step of a request guarantees: the history only grows, and what belongs to the rest of the
  program is left alone.\<close>

definition history_grows :: "('db \<Rightarrow> result list) \<Rightarrow> 'db option \<Rightarrow> 'db option \<Rightarrow> bool" where
  "history_grows contents = rel_option (\<lambda>db db'. prefix (contents db) (contents db'))"

definition request_guar :: "('db \<Rightarrow> result list) \<Rightarrow> ('db, 'b) handler \<Rightarrow> ('db, 'b) handler \<Rightarrow> bool" where
  "request_guar contents h h' \<longleftrightarrow>
     cfg h' = cfg h \<and> Build h' = Build h \<and> h_geoip h' = h_geoip h \<and> history_grows contents (h_store h) (h_store h')"

abbreviation safe ::
  "('db \<Rightarrow> result list) \<Rightarrow> ('db \<Rightarrow> bool) \<Rightarrow> ('db, 'b, 'r) libs \<Rightarrow> (label \<Rightarrow> 'a \<Rightarrow> bool) \<Rightarrow> ('db, 'b, 'a) srv_go \<Rightarrow> label \<Rightarrow> bool" where
  "safe contents ok l \<equiv> behaves (server_inv contents ok l) (request_guar contents)"

lemma history_grows_refl [simp]: "history_grows contents s s"
  by (simp add: history_grows_def option.rel_refl)

lemma history_grows_trans: "history_grows contents s t \<Longrightarrow> history_grows contents t u \<Longrightarrow> history_grows contents s u"
  by (cases s; cases t; cases u) (auto simp: history_grows_def)

lemma history_grows_simps [simp]:
  "history_grows contents None s \<longleftrightarrow> s = None"
  "history_grows contents (Some db) (Some db') \<longleftrightarrow> prefix (contents db) (contents db')"
  by (cases s) (auto simp: history_grows_def)

lemma request_guar_refl [simp]: "request_guar contents h h"
  by (simp add: request_guar_def)

lemma acks_ok_grows: "acks_ok contents s as \<Longrightarrow> history_grows contents s s' \<Longrightarrow> acks_ok contents s' as"
  by (cases s; cases s') (auto simp: acks_ok_def history_grows_def, metis (no_types, lifting) image_mono in_mono set_mono_prefix)

lemma acks_ok_spawn: "acks_ok contents s as \<Longrightarrow> acks_ok contents s (as @ [None])"
  by (auto simp: acks_ok_def nth_append)

lemma acks_ok_save:
  assumes "acks_ok contents (Some db) as" and "\<forall>x \<in> set (contents db). ID x < n"
    and "contents db' = contents db @ [z]" and "ID z = n"
  shows "acks_ok contents (Some db') (as[i := Some n])"
proof -
  have new: "as ! j \<noteq> Some n" if "j < length as" for j
    using assms(1,2) nth_mem [OF that] by (fastforce simp: acks_ok_def)
  have "m \<in> ID ` set (contents db')" if "Some m \<in> set (as[i := Some n])" for m
    using that assms set_update_subset_insert [of as i "Some n"] by (fastforce simp: acks_ok_def)
  moreover have "j = k"
    if "j < length as" "k < length as" "as[i := Some n] ! j = Some m" "as[i := Some n] ! k = Some m" for m j k
  proof (cases "j = i \<or> k = i")
    case True
    with that new show ?thesis by (auto simp: nth_list_update split: if_splits)
  next
    case False
    with that assms(1) show ?thesis unfolding acks_ok_def by (simp add: nth_list_update)
  qed
  ultimately show ?thesis unfolding acks_ok_def by (metis length_list_update)
qed

text \<open>A request that is not in a test; and what is recorded about it.\<close>

definition idle :: "pc \<Rightarrow> bool" where
  "idle p \<longleftrightarrow> p \<in> {Arrived, Served, Rejected}"

text \<open>The libraries that answer requests do not say that they created something.\<close>

definition lib_statuses :: "('db, 'b, 'r) libs \<Rightarrow> bool" where
  "lib_statuses l \<longleftrightarrow>
     (\<forall>r p reg n. StatusCreated \<notin> {status (file_server l r), status (embedded_icon l r),
        status (redirect_to l p r), status (exposition l reg n)})"

definition handled_ok :: "('db, 'b, 'r) libs \<Rightarrow> string \<Rightarrow> label \<Rightarrow> (statusWriter \<times> int) option \<Rightarrow> bool" where
  "handled_ok l i g x \<longleftrightarrow> idle (fst g) \<and> (\<exists>sw n. x = Some (sw, n) \<and> (lib_replies l \<longrightarrow> logged i 0 sw) \<and>
     (lib_statuses l \<longrightarrow> sw_status sw = StatusCreated \<longrightarrow> snd g \<noteq> None))"

text \<open>An answered request got what its log entry says; the connection is dropped only when the request has a
  label that the metrics do not accept.\<close>

definition answered :: "('db, 'b, 'r) libs \<Rightarrow> (conn \<times> access_log) option \<Rightarrow> bool" where
  "answered l x \<longleftrightarrow> (\<exists>c entry. x = Some (c, entry) \<and>
     (lib_replies l \<longrightarrow> out c = l_bytes_sent entry \<and>
        (if dropped c then \<not> countable l entry else client_status c = Some (l_status entry))))"

lemma idle_simps [simp]: "idle Arrived" "idle Served" "idle Rejected"
  by (simp_all add: idle_def)

lemma idle_not_holds: "idle p \<Longrightarrow> \<not> holds p"
  by (auto simp: idle_def pc_classes)

lemma server_inv_shared: "server_inv contents ok l h gs \<Longrightarrow> shared_ok contents ok l h"
  by (simp add: server_inv_def)

lemma shared_ok_tests [simp]: "shared_ok contents ok l (h\<lparr>tests := a\<rparr>) = shared_ok contents ok l h"
  by (simp add: shared_ok_def)

lemma request_guar_simps [simp]:
  "request_guar contents h (on_tests f h)" "request_guar contents h (h\<lparr>limiter := rl\<rparr>)"
  "request_guar contents h (h\<lparr>h_store := s\<rparr>) \<longleftrightarrow> history_grows contents (h_store h) s"
  by (simp_all add: request_guar_def on_tests_def)

lemma server_inv_limiter [simp]: "server_inv contents ok l (h\<lparr>limiter := rl\<rparr>) gs = server_inv contents ok l h gs"
  by (simp add: server_inv_def shared_ok_def)

lemma server_inv_observe:
  "server_inv contents ok l h gs \<Longrightarrow> ObserveRequest acc m p s (tests h) = Some a \<Longrightarrow> server_inv contents ok l (h\<lparr>tests := a\<rparr>) gs"
  by (auto simp: server_inv_def sem_inv_def reg_inv_def observeRequest_def dest!: ObserveRequest_Some split: option.splits)

text \<open>A step on the database that keeps the store in order.\<close>

lemma server_inv_store:
  assumes "server_inv contents ok l h gs" and "history_grows contents (h_store h) s"
    and "\<And>db. s = Some db \<Longrightarrow> ok db \<and> list_all result_bounds (contents db)"
  shows "server_inv contents ok l (h\<lparr>h_store := s\<rparr>) gs"
  using assms by (auto simp: server_inv_def shared_ok_def intro: acks_ok_grows)

text \<open>A step of the protocol of the tests.\<close>

lemma server_inv_sem:
  assumes "server_inv contents ok l h gs" and "gs ! i = (p, a)"
    and "sem_inv \<lparr>adm = tests h, threads = map fst gs\<rparr> \<Longrightarrow> sem_inv \<lparr>adm = f (tests h), threads = (map fst gs)[i := p']\<rparr>"
  shows "server_inv contents ok l (on_tests f h) (gs[i := (p', a)])"
proof -
  have "map snd (gs[i := (p', a)]) = map snd gs"
    using assms(2) by (cases "i < length gs") (simp_all add: map_update list_update_same_conv list_update_beyond)
  with assms show ?thesis by (simp add: server_inv_def on_tests_def map_update)
qed

section \<open>The writer and the replies\<close>

definition writer_ok :: "('db, 'b, 'r) libs \<Rightarrow> string \<Rightarrow> statusWriter \<Rightarrow> bool" where
  "writer_ok l i sw \<longleftrightarrow> (lib_replies l \<longrightarrow> logged i 0 sw) \<and> sw_status sw \<noteq> StatusCreated"

definition reply_ok :: "('db, 'b, 'r) libs \<Rightarrow> reply \<Rightarrow> bool" where
  "reply_ok l rep \<longleftrightarrow> (lib_replies l \<longrightarrow> final_reply rep) \<and> (lib_statuses l \<longrightarrow> status rep \<noteq> StatusCreated)"

lemma sw_status_simps [simp]:
  "sw_status (set_headers hs sw) = sw_status sw" "sw_status (pass_time d sw) = sw_status sw"
  "sw_status (sw_Header_Set k v sw) = sw_status sw" "sw_status (sw_SetWriteDeadline t sw) = sw_status sw"
  "sw_status (sw_Flush sw) = sw_status sw" "sw_status (new_statusWriter c) = StatusOK"
  by (simp_all add: set_headers_def pass_time_def sw_Header_Set_def sw_SetWriteDeadline_def sw_Flush_def
      new_statusWriter_def)

lemma sw_status_Write: "sw_Write n sw = (m, e, sw') \<Longrightarrow> sw_status sw' = sw_status sw"
  by (auto simp: sw_Write_def Let_def split: prod.splits if_splits)

lemma sw_status_send: "sw_status (send enc rep sw) \<in> {sw_status sw, status rep}"
proof -
  define sw1 where "sw1 = (if status rep = StatusOK then set_headers (headers rep) sw
      else sw_WriteHeader (status rep) (set_headers (headers rep) sw))"
  obtain m e sw2 where w: "sw_Write (payload_size enc (payload rep)) sw1 = (m, e, sw2)" by (metis prod_cases3)
  then have "send enc rep sw = sw2" by (simp add: send_def Let_def sw1_def)
  moreover have "sw_status sw1 \<in> {sw_status sw, status rep}"
    by (simp add: sw1_def sw_WriteHeader_def Let_def)
  ultimately show ?thesis using sw_status_Write [OF w] by simp
qed

lemma sw_status_download:
  assumes "download_stream c r sw = Some (n, sw')"
  shows "sw_status sw' = sw_status sw"
proof -
  let ?P = "\<lambda>s. sw_status s = sw_status sw"
  have "?P sw'" if "downloadBySize want sw = Some (n, sw')" for want
    using size_loop_keeps [where P = ?P, OF _ that [unfolded downloadBySize_def]] sw_status_Write by fastforce
  moreover have "?P sw'" if "downloadByTime d sw = Some (n, sw')" for d
    using time_loop_keeps [where P = ?P, OF _ that [unfolded downloadByTime_def Let_def]] sw_status_Write by fastforce
  ultimately show ?thesis using assms by (auto simp: download_stream_def split: if_splits)
qed

lemma status_not_created [simp]:
  "status method_not_allowed \<noteq> StatusCreated" "status server_busy \<noteq> StatusCreated"
  "status internalErr \<noteq> StatusCreated" "status writeHistoryDisabled \<noteq> StatusCreated"
  "status (too_many d) \<noteq> StatusCreated" "status (ConfigHandler h r) \<noteq> StatusCreated"
  "status (IPHandler r) \<noteq> StatusCreated" "status (PingHandler r) \<noteq> StatusCreated"
  "status (HealthHandler t h r) \<noteq> StatusCreated" "status (uploaded n ms tr) \<noteq> StatusCreated"
  "status (swjsHandler raw v) \<noteq> StatusCreated" "status (encode_results hs rs js) \<noteq> StatusCreated"
  "status (fst (ResultsExport fj fc st ts s r)) \<noteq> StatusCreated"
  by (auto simp: method_not_allowed_def server_busy_def internalErr_def writeHistoryDisabled_def too_many_def
      ConfigHandler_def IPHandler_def PingHandler_def HealthHandler_def uploaded_def swjsHandler_def encode_results_def
      ResultsExport_def writeErr_def writeJSON_def http_Error_def Let_def status_codes split: option.split prod.split)

lemma reply_ok_simps [simp]:
  "reply_ok l method_not_allowed" "reply_ok l server_busy" "reply_ok l internalErr" "reply_ok l writeHistoryDisabled"
  "reply_ok l (too_many d)" "reply_ok l (ConfigHandler h r)" "reply_ok l (IPHandler r)" "reply_ok l (PingHandler r)"
  "reply_ok l (HealthHandler t h r)" "reply_ok l (uploaded n ms tr)" "reply_ok l (swjsHandler raw v)"
  "reply_ok l (encode_results Map.empty rs js)" "reply_ok l (fst (ResultsExport fj fc st ts s r))"
  by (simp_all add: reply_ok_def final_encode_results final_export)

lemma reply_ok_codes:
  "reply_ok l (writeErr StatusBadRequest m)" "reply_ok l (http_Error Map.empty m 404)"
  "reply_ok l (http_Error identity_header m StatusBadRequest)"
  by (simp_all add: reply_ok_def writeErr_def http_Error_def final_reply_def json_header_def identity_header_def
      id_header_def status_codes informational_def)

lemma reply_ok_libs:
  "reply_ok l (file_server l r)" "reply_ok l (redirect_to l p r)"
  "reply_ok l (faviconHandler (disk_icon l) (embedded_icon l) r)" "reply_ok l (MetricsHandler (exposition l) h r)"
proof -
  show "reply_ok l (faviconHandler (disk_icon l) (embedded_icon l) r)"
    by (auto simp: reply_ok_def lib_replies_def lib_statuses_def final_favicon)
       (auto simp: faviconHandler_def status_codes split: option.splits)
  show "reply_ok l (MetricsHandler (exposition l) h r)"
    by (auto simp: reply_ok_def lib_replies_def lib_statuses_def final_metrics)
       (auto simp: MetricsHandler_def method_not_allowed_def http_Error_def status_codes split: option.splits if_splits)
qed (auto simp: reply_ok_def lib_replies_def lib_statuses_def, metis+)

lemma handled_send:
  "writer_ok l i sw \<Longrightarrow> reply_ok l rep \<Longrightarrow> idle (fst g) \<Longrightarrow> handled_ok l i g (Some (send enc rep sw, n))"
  using sw_status_send [of enc rep sw] by (auto simp: writer_ok_def reply_ok_def handled_ok_def intro: logged_send)

lemma behaves_reply:
  "idle (fst g) \<Longrightarrow> writer_ok l i sw \<Longrightarrow> reply_ok l rep \<Longrightarrow> safe contents ok l (handled_ok l i) (go_reply l rep sw) g"
  by (simp add: go_reply_def handled_send)

section \<open>The test handlers\<close>

lemma behaves_sem:
  assumes "\<And>h ps i. i < length ps \<Longrightarrow> ps ! i = p \<Longrightarrow> sem_inv \<lparr>adm = tests h, threads = ps\<rparr> \<Longrightarrow>
      can h \<and> sem_step \<lparr>adm = tests h, threads = ps\<rparr> \<lparr>adm = f (tests h), threads = ps[i := p']\<rparr>"
    and "safe contents ok l post q (p', a)"
  shows "safe contents ok l post (Atomic can (on_tests f) (\<lambda>_. q)) (p, a)"
  unfolding behaves.simps
proof (intro allI impI)
  fix h and gs :: "label list" and i
  assume i: "i < length gs" "gs ! i = (p, a)" and inv: "server_inv contents ok l h gs"
  then have s: "sem_inv \<lparr>adm = tests h, threads = map fst gs\<rparr>" by (simp add: server_inv_def)
  from assms(1) [OF _ _ s] i have "can h" and "sem_inv \<lparr>adm = f (tests h), threads = (map fst gs)[i := p']\<rparr>"
    using sem_inv_step [OF _ s] by fastforce+
  with server_inv_sem [OF inv i(2)] assms(2)
  show "can h \<and> request_guar contents h (on_tests f h) \<and> (\<exists>g'. server_inv contents ok l (on_tests f h) (gs[i := g']) \<and>
      safe contents ok l post q g')"
    by (intro conjI exI [of _ "(p', a)"]) simp_all
qed

lemma behaves_modify_sem:
  assumes "\<And>s i. i < length (threads s) \<Longrightarrow> threads s ! i = p \<Longrightarrow> sem_step s \<lparr>adm = f (adm s), threads = (threads s)[i := p']\<rparr>"
    and "safe contents ok l post q (p', a)"
  shows "safe contents ok l post (modify (on_tests f) q) (p, a)"
proof -
  have "sem_step \<lparr>adm = tests h, threads = ps\<rparr> \<lparr>adm = f (tests h), threads = ps[i := p']\<rparr>"
    if "i < length ps" "ps ! i = p" for h :: "('a, 'b) handler" and ps i
    using assms(1) [of i "\<lparr>adm = tests h, threads = ps\<rparr>"] that by simp
  then show ?thesis unfolding modify_def by (intro behaves_sem [OF _ assms(2)]) simp
qed

lemma behaves_acquire:
  "safe contents ok l (\<lambda>g got. g = (if got then Testing else Rejected, a)) go_acquire (Arrived, a)"
proof -
  let ?B = "safe contents ok l (\<lambda>g got. g = (if got then Testing else Rejected, a))"
  have accepted: "?B (modify (on_tests count_accepted)
      (modify (on_tests (with_metrics (recordAdmission True))) (Return True))) (Reserved, a)"
    by (intro behaves_modify_sem [OF sem_step.accepted] behaves_modify_sem [OF sem_step.record_accepted]) simp_all
  have refused: "?B (modify (on_tests count_rejected)
      (modify (on_tests (with_metrics (recordAdmission False))) (Return False))) (Refused, a)"
    by (intro behaves_modify_sem [OF sem_step.rejected] behaves_modify_sem [OF sem_step.record_rejected]) simp_all
  show ?thesis
    unfolding go_acquire_def
  proof (rule behaves_atomic [where next_label = "\<lambda>h. (if sem_len (tests h) < sem_cap (tests h) then Reserved else Refused, a)"])
    fix h and gs :: "label list" and i
    assume i: "i < length gs" "gs ! i = (Arrived, a)" and inv: "server_inv contents ok l h gs"
    let ?free = "sem_len (tests h) < sem_cap (tests h)"
    let ?p = "if ?free then Reserved else Refused"
    have "sem_inv \<lparr>adm = (if ?free then reserve else id) (tests h), threads = (map fst gs)[i := ?p]\<rparr>"
      if s: "sem_inv \<lparr>adm = tests h, threads = map fst gs\<rparr>"
      using sem_inv_step [OF sem_step.send s] sem_inv_step [OF sem_step.full s] i by simp
    from server_inv_sem [of contents ok l h gs i Arrived a "if ?free then reserve else id" ?p, OF inv i(2) this]
    have "server_inv contents ok l (if ?free then on_tests reserve h else h) (gs[i := (?p, a)])"
      by (auto simp: on_tests_def)
    with accepted refused show "request_guar contents h (if ?free then on_tests reserve h else h) \<and>
        server_inv contents ok l (if ?free then on_tests reserve h else h) (gs[i := (?p, a)]) \<and>
        ?B (if ?free then modify (on_tests count_accepted) (modify (on_tests (with_metrics (recordAdmission True))) (Return True))
            else modify (on_tests count_rejected) (modify (on_tests (with_metrics (recordAdmission False))) (Return False))) (?p, a)"
      by auto
  qed
qed

lemma behaves_finish:
  assumes "safe contents ok l post q (Served, a)"
  shows "safe contents ok l post (go_finish d n t q) (Testing, a)"
  unfolding go_finish_def
proof (rule behaves_modify_sem [OF sem_step.observe])
  show "safe contents ok l post (Atomic (\<lambda>h. 0 < sem_len (tests h)) (on_tests release) (\<lambda>_. q)) (Observed, a)"
  proof (rule behaves_sem [OF _ assms])
    fix h :: "('a, 'b) handler" and ps i
    assume i: "i < length ps" "ps ! i = Observed" and s: "sem_inv \<lparr>adm = tests h, threads = ps\<rparr>"
    then have "0 < sem_len (tests h)" using release_never_blocks [OF s] by simp
    with i show "0 < sem_len (tests h) \<and> sem_step \<lparr>adm = tests h, threads = ps\<rparr> \<lparr>adm = release (tests h), threads = ps[i := Served]\<rparr>"
      using sem_step.receive [of i "\<lparr>adm = tests h, threads = ps\<rparr>"] by simp
  qed
qed

text \<open>What the body of a test handler has to establish, refused or running.\<close>

lemma behaves_test:
  assumes "safe contents ok l post (f False) (Rejected, a)" and "safe contents ok l post (f True) (Testing, a)"
  shows "safe contents ok l post (and_then go_acquire f) (Arrived, a)"
  by (rule behaves_and_then [OF behaves_acquire]) (use assms in \<open>auto split: if_splits\<close>)

lemma behaves_download:
  assumes "writer_ok l i sw"
  shows "safe contents ok l (handled_ok l i) (go_download l r sw) (Arrived, a)"
proof (cases "Method r = MethodGet")
  case True
  let ?B = "safe contents ok l (handled_ok l i)"
  let ?sw = "set_headers download_headers sw"
  have hdr: "lib_replies l \<Longrightarrow> logged i 0 ?sw"
    using assms by (intro logged_set_headers) (simp_all add: download_headers_def id_header_def writer_ok_def)
  have "?B (case download_stream (cfg h) r ?sw of None \<Rightarrow> Return None
      | Some (n, sw') \<Rightarrow> go_finish ''down'' n (sw_now sw' - sw_now sw) (Return (Some (sw', 0)))) (Testing, a)"
    if "server_inv contents ok l h gs" for h gs
  proof -
    have "wf_config (cfg h)" and "Duration (cfg h) \<le> 2 ^ 46"
      using server_inv_shared [OF that] by (simp_all add: shared_ok_def)
    from download_stream_effect [OF this(1) download_duration_bound [OF this(2)]]
    obtain n sw' where run: "download_stream (cfg h) r ?sw = Some (n, sw')" by blast
    with logged_download_stream [OF run hdr] sw_status_download [OF run] assms show ?thesis
      by (auto simp: handled_ok_def writer_ok_def intro!: behaves_finish)
  qed
  with True show ?thesis
    unfolding go_download_def
    by (auto intro!: behaves_test behaves_look behaves_reply simp: assms Let_def)
next
  case False
  then show ?thesis unfolding go_download_def by (auto intro!: behaves_reply simp: assms)
qed

lemma behaves_upload:
  assumes "writer_ok l i sw"
  shows "safe contents ok l (handled_ok l i) (go_upload l r sw) (Arrived, a)"
proof -
  let ?sw = "pass_time (copy_time l r) sw"
  have sw: "writer_ok l i ?sw" using assms logged_pass_time by (simp add: writer_ok_def)
  have "max_ok (counting_ok (\<lambda>_. True)) (limited_reader maxUploadBytes r)"
    by (simp add: max_ok_def counting_ok_def limited_reader_def body_reader_def)
  from limited.Copy_total [OF this, of 0] obtain n err rd where
    run: "Copy_discard limited_Read 0 (limited_reader maxUploadBytes r) = Some (n, err, rd)"
    by (auto simp: limited_Read_def)
  have "reply_ok l (case err of None \<Rightarrow> uploaded n ms False | Some MaxBytesError \<Rightarrow> uploaded n ms True
      | Some _ \<Rightarrow> http_Error identity_header ''upload failed'' StatusBadRequest)" for ms
    by (simp add: reply_ok_codes split: option.split read_end.split)
  then have "handled_ok l i (Served, a) (Some (send (json_text l) (case err of None \<Rightarrow> uploaded n ms False
      | Some MaxBytesError \<Rightarrow> uploaded n ms True
      | Some _ \<Rightarrow> http_Error identity_header ''upload failed'' StatusBadRequest) ?sw, m))" for ms m
    by (intro handled_send sw) simp_all
  then show ?thesis
    unfolding go_upload_def Let_def
    by (auto intro!: behaves_test behaves_reply behaves_finish simp: assms run)
qed

section \<open>The other handlers\<close>

text \<open>A statement that reads.\<close>

lemma behaves_db_call:
  assumes "\<And>db. result_store (store_lib l) contents ok \<Longrightarrow> ok db \<Longrightarrow>
      (ok (snd (f db)) \<and> contents (snd (f db)) = contents db) \<and> safe contents ok l post (k (fst (f db))) g"
    and "safe contents ok l post missing g"
  shows "safe contents ok l post (db_call f missing k) g"
  unfolding db_call_def
proof (rule behaves_same)
  fix h gs
  assume inv: "server_inv contents ok l h gs"
  note shared = server_inv_shared [OF inv]
  have "history_grows contents (h_store h) (map_option (\<lambda>db. snd (f db)) (h_store h)) \<and>
      (\<forall>db. map_option (\<lambda>db. snd (f db)) (h_store h) = Some db \<longrightarrow> ok db \<and> list_all result_bounds (contents db))"
    using shared assms(1) by (cases "h_store h") (auto simp: shared_ok_def)
  note step = this
  note kept = server_inv_store [OF inv conjunct1 [OF step]]
  have "safe contents ok l post (case h_store h of None \<Rightarrow> missing | Some db \<Rightarrow> k (fst (f db))) g"
    using shared assms by (cases "h_store h") (auto simp: shared_ok_def)
  with kept step
  show "request_guar contents h (h\<lparr>h_store := map_option (\<lambda>db. snd (f db)) (h_store h)\<rparr>) \<and>
      server_inv contents ok l (h\<lparr>h_store := map_option (\<lambda>db. snd (f db)) (h_store h)\<rparr>) gs \<and>
      safe contents ok l post (case h_store h of None \<Rightarrow> missing | Some db \<Rightarrow> k (fst (f db))) g"
    by auto
qed

text \<open>The statement that saves: from here on the request owns the new row.\<close>

lemma behaves_save:
  assumes "result_bounds y" and "safe contents ok l post missing (p, None)"
    and "safe contents ok l post (k None) (p, None)" and "\<And>z. safe contents ok l post (k (Some z)) (p, Some (ID z))"
  shows "safe contents ok l post (db_call (Save (store_lib l) t y) missing k) (p, None)"
  unfolding db_call_def
proof (rule behaves_atomic [where next_label = "\<lambda>h. (p, case h_store h of None \<Rightarrow> None
      | Some db \<Rightarrow> map_option ID (fst (Save (store_lib l) t y db)))"])
  fix h and gs :: "label list" and i
  assume i: "i < length gs" "gs ! i = (p, None)" and inv: "server_inv contents ok l h gs"
  let ?save = "Save (store_lib l) t y"
  let ?h = "h\<lparr>h_store := map_option (\<lambda>db. snd (?save db)) (h_store h)\<rparr>"
  let ?a = "case h_store h of None \<Rightarrow> None | Some db \<Rightarrow> map_option ID (fst (?save db))"
  let ?k = "case h_store h of None \<Rightarrow> missing | Some db \<Rightarrow> k (fst (?save db))"
  have same: "gs[i := (p, None)] = gs" using i(2) by (metis list_update_id)
  show "request_guar contents h ?h \<and> server_inv contents ok l ?h (gs[i := (p, ?a)]) \<and> safe contents ok l post ?k (p, ?a)"
  proof (cases "h_store h")
    case None
    then have "?h = h" by (cases h) simp
    with None inv assms(2) same show ?thesis by (simp only: option.case request_guar_refl simp_thms)
  next
    case (Some db)
    note shared = server_inv_shared [OF inv]
    from shared Some have store: "result_store (store_lib l) contents ok" and db: "ok db" "list_all result_bounds (contents db)"
      by (simp_all add: shared_ok_def)
    obtain res db' where s: "?save db = (res, db')" by fastforce
    show ?thesis
    proof (cases res)
      case None
      with result_store.save_err [OF store db(1) s [unfolded None]] db(2) Some s assms(3) server_inv_store [OF inv, of "Some db'"] same
      show ?thesis by simp
    next
      case (Some z)
      note law = result_store.save_ok [OF store db(1) s [unfolded Some]]
      then obtain t n where "z = y\<lparr>CreatedAt := t, ID := n\<rparr>" by blast
      with assms(1) have "result_bounds (persisted z)" by simp
      with law db(2) have "shared_ok contents ok l ?h"
        using shared \<open>h_store h = Some db\<close> s by (simp add: shared_ok_def)
      moreover have "acks_ok contents (Some db') ((map snd gs)[i := Some (ID z)])"
        using inv law \<open>h_store h = Some db\<close>
        by (intro acks_ok_save [of _ db _ _ _ "persisted z"]) (auto simp: server_inv_def persisted_def)
      moreover have "map fst (gs[i := (p, Some (ID z))]) = map fst gs"
        using i by (simp add: map_update list_update_same_conv)
      ultimately have "server_inv contents ok l ?h (gs[i := (p, Some (ID z))])"
        using inv \<open>h_store h = Some db\<close> s by (simp add: server_inv_def map_update)
      with law assms(4) [of z] \<open>h_store h = Some db\<close> s Some show ?thesis by simp
    qed
  qed
qed

lemma behaves_list:
  assumes "idle (fst g)" and "writer_ok l i sw"
  shows "safe contents ok l (handled_ok l i) (go_list l r sw) g"
proof -
  have list: "ok (snd (List (store_lib l) lm off db)) \<and> contents (snd (List (store_lib l) lm off db)) = contents db"
    if "result_store (store_lib l) contents ok" "ok db" for lm off db
    using result_store.list_keeps [OF that, of lm off "fst (List (store_lib l) lm off db)"] by (metis prod.collapse)
  have total: "ok (snd (Count (store_lib l) db)) \<and> contents (snd (Count (store_lib l) db)) = contents db"
    if "result_store (store_lib l) contents ok" "ok db" for db
    using result_store.count_keeps [OF that, of "fst (Count (store_lib l) db)"] by (metis prod.collapse)
  show ?thesis
    unfolding go_list_def Let_def
    by (intro behaves_db_call behaves_reply conjI)
       (auto simp: list total assms intro!: behaves_db_call behaves_reply split: option.split)
qed

lemma behaves_create:
  assumes "idle p" and "writer_ok l i sw"
  shows "safe contents ok l (handled_ok l i) (go_create l r sw) (p, None)"
proof -
  let ?B = "safe contents ok l (handled_ok l i)"
  let ?t = "wall_ms l (sw_now sw)"
  let ?reply = "\<lambda>rep. Return (Some (send (json_text l) rep sw, int (json_used l (limited_body maxResultBody r))))"
  have reply: "handled_ok l i (p, None) (Some (send (json_text l) rep sw, n))" if "reply_ok l rep" for rep n
    using assms that by (intro handled_send) simp_all
  have disabled: "?B (go_reply l writeHistoryDisabled sw) (p, None)" using assms by (simp add: behaves_reply)
  have "handled_ok l i (p, Some (ID z)) (Some (send (json_text l) (created z) sw, n))" for z n
    using assms by (auto simp: handled_ok_def writer_ok_def intro: logged_send)
  then have stored: "?B (db_call (Save (store_lib l) ?t y) (go_reply l writeHistoryDisabled sw)
      (\<lambda>res. case res of None \<Rightarrow> ?reply internalErr | Some saved \<Rightarrow> ?reply (created saved))) (p, None)"
    if "result_bounds y" for y
    using that by (intro behaves_save disabled) (simp_all add: reply)
  have located: "\<exists>y. server_result (locate_in l) (h_geoip h) ?t r x = Some y \<and> result_bounds y"
    if "server_inv contents ok l h gs" for h gs x
  proof -
    have "geo_consistent (h_geoip h)" using server_inv_shared [OF that] by (simp add: shared_ok_def)
    from locate_Some [OF this, of "locate_in l"] have "server_result (locate_in l) (h_geoip h) ?t r x \<noteq> None"
      by (auto simp: server_result_def Let_def split: option.split)
    then obtain y where y: "server_result (locate_in l) (h_geoip h) ?t r x = Some y" by blast
    with server_result_fields [OF y] show ?thesis by blast
  qed
  have "?B (case server_result (locate_in l) (h_geoip h) ?t r x of None \<Rightarrow> Return None
      | Some y \<Rightarrow> db_call (Save (store_lib l) ?t y) (go_reply l writeHistoryDisabled sw)
          (\<lambda>res. case res of None \<Rightarrow> ?reply internalErr | Some saved \<Rightarrow> ?reply (created saved))) (p, None)"
    if "server_inv contents ok l h gs" for h gs x
    using located [OF that, of x] stored by auto
  then show ?thesis
    unfolding go_create_def Let_def
    by (auto intro!: behaves_look disabled reply reply_ok_codes split: option.split)
qed

lemma behaves_export:
  assumes "idle (fst g)" and "writer_ok l i sw"
  shows "safe contents ok l (handled_ok l i) (go_export l r sw) g"
  unfolding go_export_def Let_def
proof (rule behaves_same)
  fix h gs
  assume inv: "server_inv contents ok l h gs"
  define run where "run = ResultsExport (float_json l) (float_csv l) (store_lib l) (export_stamp l (sw_now sw)) (h_store h) r"
  have shared: "shared_ok contents ok l h" by (rule server_inv_shared [OF inv])
  then have store: "result_store (store_lib l) contents ok" by (simp add: shared_ok_def)
  have "history_grows contents (h_store h) (snd run) \<and>
      (\<forall>db. snd run = Some db \<longrightarrow> ok db \<and> list_all result_bounds (contents db))"
  proof (cases "h_store h")
    case None
    then show ?thesis by (simp add: run_def ResultsExport_def)
  next
    case (Some db)
    with shared have "ok db" and "list_all result_bounds (contents db)" by (simp_all add: shared_ok_def)
    with result_store.export_keeps [OF store, of "float_json l" "float_csv l" "export_stamp l (sw_now sw)" db r "fst run" "snd run"] Some
    show ?thesis by (auto simp: run_def)
  qed
  with server_inv_store [OF inv, of "snd run"] assms
  show "request_guar contents h (h\<lparr>h_store := snd (ResultsExport (float_json l) (float_csv l) (store_lib l)
        (export_stamp l (sw_now sw)) (h_store h) r)\<rparr>) \<and>
      server_inv contents ok l (h\<lparr>h_store := snd (ResultsExport (float_json l) (float_csv l) (store_lib l)
        (export_stamp l (sw_now sw)) (h_store h) r)\<rparr>) gs \<and>
      safe contents ok l (handled_ok l i) (go_reply l (fst (ResultsExport (float_json l) (float_csv l) (store_lib l)
        (export_stamp l (sw_now sw)) (h_store h) r)) sw) g"
    by (auto simp: run_def intro!: behaves_reply)
qed

lemma behaves_serve:
  assumes "writer_ok l i sw"
  shows "safe contents ok l (handled_ok l i) (go_serve l rt r sw) (Arrived, None)"
  by (cases rt) (auto simp: go_health_def go_metrics_def reply_ok_libs reply_ok_codes assms intro!: behaves_look behaves_reply
      behaves_download behaves_upload behaves_list behaves_create behaves_export)

section \<open>The middleware and the whole request\<close>

lemma behaves_on_limiter:
  "safe contents ok l post missing g \<Longrightarrow> (\<And>x. safe contents ok l post (k x) g) \<Longrightarrow>
     safe contents ok l post (on_limiter f missing k) g"
  unfolding on_limiter_def by (rule behaves_same) (simp split: option.split)

lemma behaves_RateLimit:
  assumes "writer_ok l i sw" and "safe contents ok l (handled_ok l i) served (Arrived, a)"
  shows "safe contents ok l (handled_ok l i) (go_RateLimit l t served r sw) (Arrived, a)"
  unfolding go_RateLimit_def Let_def
  by (auto intro!: behaves_look behaves_on_limiter behaves_reply simp: assms split: option.split)

text \<open>A request on a connection on which nothing has been sent.\<close>

definition fresh_request :: "('db, 'b, 'r) libs \<Rightarrow> ('db, 'b, (conn \<times> access_log) option) srv_go \<Rightarrow> bool" where
  "fresh_request l p \<longleftrightarrow> (\<exists>i escaped r c. p = go_ServeHTTP l i escaped r c \<and> sent c = None \<and> out c = 0 \<and> \<not> dropped c)"

text \<open>The client was told that its result is saved.\<close>

definition acknowledged :: "(conn \<times> access_log) option \<Rightarrow> bool" where
  "acknowledged x \<longleftrightarrow> (\<exists>c entry. x = Some (c, entry) \<and> client_status c = Some StatusCreated)"

definition go_answered :: "('db, 'b, 'r) libs \<Rightarrow> label \<Rightarrow> (conn \<times> access_log) option \<Rightarrow> bool" where
  "go_answered l g x \<longleftrightarrow> idle (fst g) \<and> answered l x \<and>
     (lib_replies l \<and> lib_statuses l \<and> acknowledged x \<longrightarrow> snd g \<noteq> None)"

lemma behaves_request:
  assumes "fresh_request l p"
  shows "safe contents ok l (go_answered l) p (Arrived, None)"
proof -
  from assms obtain i escaped r c where p: "p = go_ServeHTTP l i escaped r c" and c: "sent c = None" "out c = 0" "\<not> dropped c"
    by (auto simp: fresh_request_def)
  define sw where "sw = new_statusWriter (Header_Set ''X-Request-Id'' i c)"
  have "logged i 0 sw" using logged_new [OF c(1,3), of i] c(2) by (simp add: sw_def id_header_def)
  then have "writer_ok l i sw" by (simp add: writer_ok_def sw_def status_codes)
  then have "safe contents ok l (handled_ok l i)
      (go_RateLimit l (now c) (go_serve l (findHandler (Method r) escaped) r sw) r sw) (Arrived, None)"
    by (intro behaves_RateLimit behaves_serve)
  then show ?thesis
    unfolding p go_ServeHTTP_def Let_def sw_def [symmetric]
  proof (rule behaves_and_then)
    fix g x
    assume "handled_ok l i g x"
    then obtain sw n where x: "x = Some (sw, n)" "idle (fst g)" and log: "lib_replies l \<longrightarrow> logged i 0 sw"
      and ack: "lib_statuses l \<longrightarrow> sw_status sw = StatusCreated \<longrightarrow> snd g \<noteq> None"
      by (auto simp: handled_ok_def)
    let ?entry = "log_entry i (now c) r sw n"
    have "lib_replies l \<longrightarrow> client_status (conn_finish (inner sw)) = Some (sw_status sw) \<and>
        out (conn_finish (inner sw)) = bytesSent sw \<and> \<not> dropped (conn_finish (inner sw))"
      using log status_agrees_finish [of sw]
      by (auto simp: logged_def conn_finish_def conn_WriteHeader_def split: if_splits)
    then have finished: "go_answered l g (Some (conn_finish (inner sw), ?entry))"
      using x(2) ack by (auto simp: go_answered_def answered_def acknowledged_def log_entry_def)
    have aborted: "go_answered l g (Some (conn_drop (inner sw), ?entry))" if "\<not> countable l ?entry"
      using that x(2) ack log
      by (auto simp: go_answered_def answered_def acknowledged_def log_entry_def conn_drop_def logged_def status_agrees_def
          client_status_def split: if_splits)
    have "safe contents ok l (go_answered l) (go_observe l r (sw_status sw) (\<lambda>counted.
        Return (Some (if counted then conn_finish (inner sw) else conn_drop (inner sw), ?entry)))) g"
      unfolding go_observe_def Let_def
    proof (rule behaves_same)
      fix h gs
      assume inv: "server_inv contents ok l h gs"
      let ?observed = "ObserveRequest (label_ok l) (Method r) (Path r) (Itoa (sw_status sw)) (tests h)"
      let ?h = "case ?observed of None \<Rightarrow> h | Some a \<Rightarrow> h\<lparr>tests := a\<rparr>"
      show "request_guar contents h ?h \<and> server_inv contents ok l ?h gs \<and>
          safe contents ok l (go_answered l) (Return (Some (if ?observed \<noteq> None then conn_finish (inner sw)
            else conn_drop (inner sw), ?entry))) g"
      proof (cases ?observed)
        case None
        then have "\<not> countable l ?entry" by (simp add: ObserveRequest_None countable_def log_entry_def)
        with None inv aborted show ?thesis by simp
      next
        case (Some a)
        with inv finished server_inv_observe [OF inv Some] show ?thesis by (simp add: request_guar_def)
      qed
    qed
    then show "safe contents ok l (go_answered l) (case x of None \<Rightarrow> Return None
        | Some (sw, recv) \<Rightarrow> go_observe l r (sw_status sw) (\<lambda>counted.
            Return (Some (if counted then conn_finish (inner sw) else conn_drop (inner sw),
              log_entry i (now c) r sw recv)))) g"
      by (simp add: x(1))
  qed
qed

section \<open>The server process\<close>

text \<open>What else changes the handler: the updater swaps a database in, the limiter collects, and the
  shutdown closes the database.\<close>

inductive server_event :: "('db, 'b) handler \<Rightarrow> ('db, 'b) handler \<Rightarrow> bool" where
  updated: "x \<notin> set (opened (h_geoip h)) \<Longrightarrow> g = (h_geoip h)\<lparr>opened := x # opened (h_geoip h)\<rparr> \<Longrightarrow>
    server_event h (h\<lparr>h_geoip := SetGeoIP (Some x) g\<rparr>)"
| evicted: "server_event h (h\<lparr>limiter := map_option (gc t ratelimitIdleTTL) (limiter h)\<rparr>)"
| closed: "server_event h (h\<lparr>h_geoip := CloseGeoIP (h_geoip h)\<rparr>)"

lemma geo_consistent_Close: "geo_consistent (CloseGeoIP g)"
  by (auto simp: geo_consistent_def CloseGeoIP_def Close_def Let_def split: option.splits)

lemma server_event_inv: "server_event h h' \<Longrightarrow> server_inv contents ok l h gs \<Longrightarrow> server_inv contents ok l h' gs"
proof (induction rule: server_event.induct)
  case (updated x h g)
  then show ?case using geo_consistent_swap [of "h_geoip h" x] by (simp add: server_inv_def shared_ok_def)
qed (auto simp: server_inv_def shared_ok_def geo_consistent_Close)

lemma server_spawn_inv: "server_inv contents ok l h gs \<Longrightarrow> server_inv contents ok l h (gs @ [(Arrived, None)])"
  using sem_inv_step [OF sem_step.arrive [of "\<lparr>adm = tests h, threads = map fst gs\<rparr>"]]
  by (simp add: server_inv_def acks_ok_spawn)

interpretation goserver: goroutines "server_inv contents ok l" "request_guar contents" "(Arrived, None)" "go_answered l"
    "fresh_request l" server_event
  for contents ok l
  by unfold_locales (auto intro: server_spawn_inv server_event_inv behaves_request)

abbreviation requests_inv ::
  "('db \<Rightarrow> result list) \<Rightarrow> ('db \<Rightarrow> bool) \<Rightarrow> ('db, 'b, 'r) libs \<Rightarrow> (('db, 'b) handler, (conn \<times> access_log) option) process \<Rightarrow> bool" where
  "requests_inv contents ok l \<equiv> proc_inv (server_inv contents ok l) (request_guar contents) (go_answered l)"

definition server_run :: "('db, 'b, 'r) libs \<Rightarrow> ('db, 'b) handler \<Rightarrow> (('db, 'b) handler, (conn \<times> access_log) option) process \<Rightarrow> bool" where
  "server_run l h0 s \<longleftrightarrow> (go_step (fresh_request l) server_event)\<^sup>*\<^sup>* \<lparr>shared = h0, gos = []\<rparr> s"

lemma server_start_inv: "srv_init contents ok l h0 \<Longrightarrow> server_inv contents ok l h0 []"
proof -
  assume init: "srv_init contents ok l h0"
  have "sem_inv \<lparr>adm = tests h0, threads = []\<rparr>"
    using init by (intro sem_inv_init) (auto simp: srv_init_def sem_init_def buildMux_def New_def Let_def)
  with srv_inv_init [OF init] show ?thesis by (simp add: server_inv_def shared_ok_def srv_inv_def acks_ok_def)
qed

lemma server_run_inv:
  assumes "srv_init contents ok l h0" and "server_run l h0 s"
  shows "requests_inv contents ok l s"
  using goserver.reach_inv [OF assms(2) [unfolded server_run_def] idle_inv, OF server_start_inv [OF assms(1)]] .

text \<open>Each request that was told its result is saved has a row of its own in the history.\<close>

definition acked :: "('db, 'b, (conn \<times> access_log) option) srv_go list \<Rightarrow> nat set" where
  "acked ps = {i. i < length ps \<and> (\<exists>x. ps ! i = Return x \<and> acknowledged x)}"

definition own_rows :: "('db \<Rightarrow> result list) \<Rightarrow> 'db option \<Rightarrow> ('db, 'b, (conn \<times> access_log) option) srv_go list \<Rightarrow> bool" where
  "own_rows contents s ps \<longleftrightarrow>
     (\<exists>f. inj_on f (acked ps) \<and> (\<forall>i \<in> acked ps. \<exists>db. s = Some db \<and> f i \<in> ID ` set (contents db)))"

lemma proc_inv_facts:
  assumes "requests_inv contents ok l s"
  shows "shared_ok contents ok l (shared s)" and "sem_len (tests (shared s)) \<le> sem_cap (tests (shared s))"
    and "Return x \<in> set (gos s) \<Longrightarrow> answered l x"
    and "lib_replies l \<Longrightarrow> lib_statuses l \<Longrightarrow> own_rows contents (h_store (shared s)) (gos s)"
proof -
  from assms obtain gs where inv: "server_inv contents ok l (shared s) gs"
    and b: "list_all2 (safe contents ok l (go_answered l)) (gos s) gs"
    by (rule proc_invE)
  show "shared_ok contents ok l (shared s)" and "sem_len (tests (shared s)) \<le> sem_cap (tests (shared s))"
    using inv by (simp_all add: server_inv_def sem_inv_def)
  {
    assume "Return x \<in> set (gos s)"
    then obtain i where "i < length (gos s)" "gos s ! i = Return x" by (metis in_set_conv_nth)
    with list_all2_nthD [OF b this(1)] show "answered l x" by (simp add: go_answered_def)
  }
  assume l: "lib_replies l" "lib_statuses l"
  have len: "length (gos s) = length gs" using b by (rule list_all2_lengthD)
  have told: "snd (gs ! i) \<noteq> None" if "i \<in> acked (gos s)" for i
    using that list_all2_nthD [OF b, of i] l by (auto simp: acked_def go_answered_def)
  have acks: "acks_ok contents (h_store (shared s)) (map snd gs)" using inv by (simp add: server_inv_def)
  show "own_rows contents (h_store (shared s)) (gos s)"
    unfolding own_rows_def
  proof (rule exI, intro conjI ballI)
    show "inj_on (\<lambda>i. the (snd (gs ! i))) (acked (gos s))"
    proof (rule inj_onI)
      fix i j
      assume i: "i \<in> acked (gos s)" and j: "j \<in> acked (gos s)" and eq: "the (snd (gs ! i)) = the (snd (gs ! j))"
      with told obtain n where "snd (gs ! i) = Some n" "snd (gs ! j) = Some n" by (metis option.collapse)
      with acks i j len show "i = j" unfolding acks_ok_def acked_def by (metis (no_types, lifting) length_map mem_Collect_eq nth_map)
    qed
    fix i
    assume i: "i \<in> acked (gos s)"
    with told [OF i] len have "Some (the (snd (gs ! i))) \<in> set (map snd gs)"
      by (auto simp: acked_def)
    with acks show "\<exists>db. h_store (shared s) = Some db \<and> the (snd (gs ! i)) \<in> ID ` set (contents db)"
      unfolding acks_ok_def by blast
  qed
qed

lemma all_returned_facts:
  assumes "requests_inv contents ok l s" and "list_all returned (gos s)"
  shows "sem_len (tests (shared s)) = 0 \<and> (\<forall>p \<in> set (gos s). \<exists>x. p = Return x \<and> answered l x)"
proof -
  from results [OF assms] obtain gs xs where inv: "server_inv contents ok l (shared s) gs"
    and xs: "gos s = map Return xs" "list_all2 (go_answered l) gs xs" by blast
  have "\<not> holds p" if "p \<in> set (map fst gs)" for p
  proof -
    from that obtain i where "i < length gs" "p = fst (gs ! i)" by (auto simp: in_set_conv_nth)
    then show ?thesis using list_all2_nthD [OF xs(2), of i] by (simp add: go_answered_def idle_not_holds)
  qed
  then have "sem_len (tests (shared s)) = 0"
    using inv by (simp add: server_inv_def sem_inv_def) (rule cnt_none, force)
  moreover have "\<forall>x \<in> set xs. answered l x"
    using xs(2) by (auto simp: list_all2_conv_all_nth go_answered_def in_set_conv_nth)
  ultimately show ?thesis using xs(1) by auto
qed

text \<open>Nothing that runs beside the requests touches the history.\<close>

lemma server_event_store: "server_event h h' \<Longrightarrow> h_store h' = h_store h"
  by (induction rule: server_event.induct) simp_all

lemma server_run_history:
  assumes "requests_inv contents ok l s" and "(go_step (fresh_request l) server_event)\<^sup>*\<^sup>* s t"
  shows "history_grows contents (h_store (shared s)) (h_store (shared t))"
  by (rule goserver.reach_guar [OF assms(2,1), where R = "\<lambda>h h'. history_grows contents (h_store h) (h_store h')"])
     (auto simp: request_guar_def server_event_store intro: history_grows_trans)

lemma server_run_idle: "server_run l h0 \<lparr>shared = h0, gos = []\<rparr>"
  by (simp add: server_run_def)

lemma server_run_sched: "server_run l h0 s \<Longrightarrow> sched\<^sup>*\<^sup>* s t \<Longrightarrow> server_run l h0 t"
  unfolding server_run_def
  by (erule rtranclp_trans) (erule rtranclp_mono [THEN predicate2D, rotated], auto intro: go_step.scheduled)

lemma server_run_spawn: "server_run l h0 s \<Longrightarrow> fresh_request l p \<Longrightarrow> server_run l h0 (s\<lparr>gos := gos s @ [p]\<rparr>)"
  unfolding server_run_def by (erule rtranclp.rtrancl_into_rtrancl) (rule go_step.spawn)

section \<open>Properties\<close>

text \<open>C7: in every state of the concurrent server, whatever requests are in flight and however their steps
  interleave with each other, with the updater, with the collector and with the shutdown: no more tests
  hold a slot than the configuration allows, the history only has results in range with distinct ids,
  and every request that is done was answered, with the status and the number of bytes that the access
  log reports, or was dropped because the metrics do not accept its path as a label.\<close>

theorem concurrent_safe:
  assumes "srv_init contents ok l h0" and "server_run l h0 s"
  shows "sem_len (tests (shared s)) \<le> sem_cap (tests (shared s)) \<and>
    (\<forall>db. h_store (shared s) = Some db \<longrightarrow> list_all result_bounds (contents db) \<and> distinct (map ID (contents db))) \<and>
    (\<forall>x. Return x \<in> set (gos s) \<longrightarrow> answered l x)"
proof -
  note facts = proc_inv_facts [OF server_run_inv [OF assms]]
  then have "list_all result_bounds (contents db) \<and> distinct (map ID (contents db))" if "h_store (shared s) = Some db" for db
    using that result_store.ids by (fastforce simp: shared_ok_def)
  with facts show ?thesis by blast
qed

definition demo_process :: "((table option, bucket) handler, (conn \<times> access_log) option) process" where
  "demo_process = \<lparr>shared = demo_server defaults,
     gos = [go_ServeHTTP demo_libs ''a'' ''/api/results'' demo_post demo_conn,
            go_ServeHTTP demo_libs ''b'' ''/api/download'' (demo_request MethodGet [] []) demo_conn]\<rparr>"

lemma demo_run: "server_run demo_libs (demo_server defaults) demo_process"
proof -
  have fresh: "fresh_request demo_libs (go_ServeHTTP demo_libs i escaped r demo_conn)" for i escaped r
    unfolding fresh_request_def by (intro exI conjI) (rule refl, simp_all add: demo_conn_def)
  show ?thesis
    using server_run_spawn [OF server_run_spawn [OF server_run_idle fresh] fresh] by (simp add: demo_process_def)
qed

theorem concurrent_safe_witness:
  "\<exists>t. sched\<^sup>*\<^sup>* demo_process t \<and> (\<nexists>u. sched t u) \<and>
     (\<forall>db. h_store (shared t) = Some db \<longrightarrow> list_all result_bounds (stored_results id db))"
proof -
  obtain t where t: "sched\<^sup>*\<^sup>* demo_process t" "\<forall>u. \<not> sched t u" using sched_normalises by blast
  with concurrent_safe [OF demo_init server_run_sched [OF demo_run t(1)]] show ?thesis by blast
qed



end
