(* ===== verification/Lifecycle.thy ===== *)
theory Lifecycle
  imports Boot Concurrent_Safe
begin

text \<open>
  The life of the process after the start: the rest of \<open>main\<close> (the goroutine that waits for the signal,
  \<open>ListenAndServe\<close>, the exit) together with the requests as the goroutines of \<open>Concurrent\<close> and the updater.
  Its steps refine the shutdown of \<open>Boot\<close>, whose invariant then says who owns which database; what the
  requests guarantee says that the history only grows.
\<close>

section \<open>The process\<close>

text \<open>
  \<open>procs\<close> are the handler and the goroutines of the requests. \<open>delivered\<close> is a database that a tick of the updater has opened
  and not yet handed to \<open>SetGeoIP\<close>, or closed because the file could not be renamed.
\<close>

record ('db, 'b) life =
  procs :: "(('db, 'b) handler, (conn \<times> access_log) option) process"
  l_phase :: phase
  l_timed_out :: bool
  delivered :: "handle option"
  exit_code :: "nat option"

definition life_handler :: "('db, 'b) life \<Rightarrow> ('db, 'b) handler" where
  "life_handler s = shared (procs s)"

definition on_handler :: "(('db, 'b) handler \<Rightarrow> ('db, 'b) handler) \<Rightarrow> ('db, 'b) life \<Rightarrow> ('db, 'b) life" where
  "on_handler f s = s\<lparr>procs := (procs s)\<lparr>shared := f (shared (procs s))\<rparr>\<rparr>"

text \<open>\<open>(*SQLite).Close\<close>, on a store that may not be there; \<open>close\<close> is \<open>(*sql.DB).Close\<close>.\<close>

definition SQLite_Close :: "('db \<Rightarrow> 'db) \<Rightarrow> 'db option \<Rightarrow> 'db option" where
  "SQLite_Close close s = map_option close s"

text \<open>What the process does by itself. \<open>srv.Shutdown\<close> returns when every request has returned, or at its deadline.\<close>

inductive work :: "('db \<Rightarrow> 'db) \<Rightarrow> ('db, 'b) life \<Rightarrow> ('db, 'b) life \<Rightarrow> bool" for close where
  request: "exit_code s = None \<Longrightarrow> sched (procs s) p \<Longrightarrow> work close s (s\<lparr>procs := p\<rparr>)"
| begin_drain: "exit_code s = None \<Longrightarrow> l_phase s = Cancelled_updater \<Longrightarrow> work close s (s\<lparr>l_phase := Draining\<rparr>)"
| drained: "exit_code s = None \<Longrightarrow> l_phase s = Draining \<Longrightarrow> list_all returned (gos (procs s)) \<Longrightarrow>
    work close s (s\<lparr>l_phase := Drained\<rparr>)"
| deadline: "exit_code s = None \<Longrightarrow> l_phase s = Draining \<Longrightarrow> work close s (s\<lparr>l_phase := Drained, l_timed_out := True\<rparr>)"
| close_store: "exit_code s = None \<Longrightarrow> l_phase s = Drained \<Longrightarrow>
    work close s (on_handler (\<lambda>h. h\<lparr>h_store := SQLite_Close close (h_store h)\<rparr>) (s\<lparr>l_phase := Store_closed\<rparr>))"
| close_geoip: "exit_code s = None \<Longrightarrow> l_phase s = Store_closed \<Longrightarrow>
    work close s (on_handler (\<lambda>h. h\<lparr>h_geoip := CloseGeoIP (h_geoip h)\<rparr>) (s\<lparr>l_phase := Stopped\<rparr>))"
| return: "exit_code s = None \<Longrightarrow> l_phase s = Stopped \<Longrightarrow> work close s (s\<lparr>exit_code := Some 0\<rparr>)"

text \<open>
  What comes from outside: requests (once the listener is closed only on connections it had accepted), the
  signal, an error of the listener before the shutdown began, the ticks of the updater, and the collector of
  the rate limiter.
\<close>

inductive life_step :: "('db, 'b, 'r) libs \<Rightarrow> ('db \<Rightarrow> 'db) \<Rightarrow> ('db, 'b) life \<Rightarrow> ('db, 'b) life \<Rightarrow> bool" for l close where
  works: "work close s t \<Longrightarrow> life_step l close s t"
| accept: "exit_code s = None \<Longrightarrow> fresh_request l p \<Longrightarrow> l_phase s \<in> {Up, Cancelled_updater, Draining} \<or> l_timed_out s \<Longrightarrow>
    life_step l close s (s\<lparr>procs := (procs s)\<lparr>gos := gos (procs s) @ [p]\<rparr>\<rparr>)"
| signal: "exit_code s = None \<Longrightarrow> l_phase s = Up \<Longrightarrow> life_step l close s (s\<lparr>l_phase := Cancelled_updater\<rparr>)"
| listen_error: "exit_code s = None \<Longrightarrow> l_phase s \<in> {Up, Cancelled_updater} \<Longrightarrow> life_step l close s (s\<lparr>exit_code := Some 1\<rparr>)"
| verified: "exit_code s = None \<Longrightarrow> delivered s = None \<Longrightarrow> x \<notin> set (opened (h_geoip (life_handler s))) \<Longrightarrow>
    life_step l close s (on_handler (\<lambda>h. h\<lparr>h_geoip := (h_geoip h)\<lparr>opened := x # opened (h_geoip h)\<rparr>\<rparr>) (s\<lparr>delivered := Some x\<rparr>))"
| rename_failed: "exit_code s = None \<Longrightarrow> delivered s = Some x \<Longrightarrow>
    life_step l close s (on_handler (\<lambda>h. h\<lparr>h_geoip := Close x (h_geoip h)\<rparr>) (s\<lparr>delivered := None\<rparr>))"
| swapped: "exit_code s = None \<Longrightarrow> delivered s = Some x \<Longrightarrow>
    life_step l close s (on_handler (\<lambda>h. h\<lparr>h_geoip := SetGeoIP (Some x) (h_geoip h)\<rparr>) (s\<lparr>delivered := None\<rparr>))"
| evicts: "exit_code s = None \<Longrightarrow>
    life_step l close s (on_handler (\<lambda>h. h\<lparr>limiter := map_option (gc t ratelimitIdleTTL) (limiter h)\<rparr>) s)"

definition life_start :: "('db, 'b) handler \<Rightarrow> ('db, 'b) life" where
  "life_start h = \<lparr>procs = \<lparr>shared = h, gos = []\<rparr>, l_phase = Up, l_timed_out = False, delivered = None, exit_code = None\<rparr>"

lemma on_handler_simps [simp]:
  "procs (on_handler f s) = (procs s)\<lparr>shared := f (shared (procs s))\<rparr>" "l_phase (on_handler f s) = l_phase s"
  "l_timed_out (on_handler f s) = l_timed_out s" "delivered (on_handler f s) = delivered s"
  "exit_code (on_handler f s) = exit_code s"
  by (simp_all add: on_handler_def)

section \<open>The outline of the shutdown\<close>

definition running :: "('db, 'b) life \<Rightarrow> nat" where
  "running s = length (filter (\<lambda>p. \<not> returned p) (gos (procs s)))"

text \<open>In the outline a tick delivers its database in one step: before that the database does not count.\<close>

definition settled_geo :: "handle option \<Rightarrow> geo_state \<Rightarrow> geo_state" where
  "settled_geo d g = (case d of None \<Rightarrow> g | Some x \<Rightarrow> Close x g)"

definition outline :: "('db, 'b) life \<Rightarrow> live" where
  "outline s = \<lparr>phase = l_phase s, in_flight = running s, timed_out = l_timed_out s,
     store_open = l_phase s \<notin> {Store_closed, Stopped},
     live_geo = settled_geo (delivered s) (h_geoip (life_handler s))\<rparr>"

lemma settled_geo_simps [simp]: "settled_geo None g = g" "settled_geo (Some x) g = Close x g"
  by (simp_all add: settled_geo_def)

text \<open>A delivered database is the last that was opened.\<close>

definition delivered_ok :: "('db, 'b) life \<Rightarrow> bool" where
  "delivered_ok s \<longleftrightarrow> (\<forall>x. delivered s = Some x \<longrightarrow>
     (\<exists>xs. opened (h_geoip (life_handler s)) = x # xs \<and> x \<notin> set xs \<and> geoip (h_geoip (life_handler s)) \<noteq> Some x))"

lemma running_0 [simp]: "running s = 0 \<longleftrightarrow> list_all returned (gos (procs s))"
  by (auto simp: running_def filter_empty_conv list_all_iff)

lemma running_update:
  "i < length ps \<Longrightarrow> \<not> returned (ps ! i) \<Longrightarrow>
     length (filter (\<lambda>p. \<not> returned p) (ps[i := q])) + (if returned q then 1 else 0) = length (filter (\<lambda>p. \<not> returned p) ps)"
  by (induction ps arbitrary: i) (auto split: nat.split simp: nth_Cons')

lemma outline_sched:
  assumes "sched p p'" and "h_geoip (shared p') = h_geoip (shared p)" and "procs s = p"
  shows "outline (s\<lparr>procs := p'\<rparr>) = outline s \<or>
    0 < in_flight (outline s) \<and> outline (s\<lparr>procs := p'\<rparr>) = (outline s)\<lparr>in_flight := in_flight (outline s) - 1\<rparr>"
  using assms(1)
proof (cases rule: sched.cases)
  case (moves i can upd cont)
  from running_update [of i "gos p" "cont (shared p)"] moves
  have "length (filter (\<lambda>p. \<not> returned p) (gos p')) + (if returned (cont (shared p)) then 1 else 0) =
      length (filter (\<lambda>p. \<not> returned p) (gos p))" by simp
  with assms(2,3) show ?thesis
    by (auto simp: outline_def running_def life_handler_def split: if_splits)
qed

lemma Close_CloseGeoIP: "geoip g \<noteq> Some x \<Longrightarrow> Close x (CloseGeoIP g) = CloseGeoIP (Close x g)"
  by (auto simp: CloseGeoIP_def Close_def Let_def remove1_commute split: option.split)

lemma opened_CloseGeoIP:
  "opened g = x # xs \<Longrightarrow> x \<notin> set xs \<Longrightarrow> geoip g \<noteq> Some x \<Longrightarrow>
     \<exists>ys. opened (CloseGeoIP g) = x # ys \<and> x \<notin> set ys \<and> geoip (CloseGeoIP g) \<noteq> Some x"
  by (auto simp: CloseGeoIP_def Close_def Let_def split: option.split)

text \<open>Every step of the process is a step of the outline, or invisible there.\<close>

lemma outline_step:
  assumes "life_step l close s t" and "requests_inv contents ok l (procs s)" and "delivered_ok s"
  shows "live_step\<^sup>=\<^sup>= (outline s) (outline t) \<and> delivered_ok t"
  using assms(1)
proof (cases rule: life_step.cases)
  case works
  then show ?thesis
  proof (cases rule: work.cases)
    case (request p)
    have geo: "h_geoip (shared p) = h_geoip (life_handler s)"
      using sched_inv [OF request(3) assms(2)] by (simp add: request_guar_def life_handler_def)
    with outline_sched [OF request(3), of s] request(1) show ?thesis
      using live_step.finish [of "outline s"] assms(3) by (auto simp: delivered_ok_def life_handler_def)
  next
    case begin_drain
    then show ?thesis
      using live_step.begin_drain [of "outline s"] assms(3)
      by (auto simp: outline_def delivered_ok_def life_handler_def running_def)
  next
    case drained
    then show ?thesis
      using live_step.end_drain [of "outline s"] assms(3) running_0 [of s]
      by (auto simp: outline_def delivered_ok_def life_handler_def running_def)
  next
    case deadline
    then show ?thesis
      using live_step.give_up [of "outline s"] assms(3)
      by (auto simp: outline_def delivered_ok_def life_handler_def running_def)
  next
    case close_store
    then show ?thesis
      using live_step.close_store [of "outline s"] assms(3)
      by (auto simp: outline_def delivered_ok_def life_handler_def running_def)
  next
    case close_geoip
    have "outline t = (outline s)\<lparr>phase := Stopped, live_geo := CloseGeoIP (live_geo (outline s))\<rparr>"
      using close_geoip assms(3)
      by (auto simp: outline_def delivered_ok_def life_handler_def running_def Close_CloseGeoIP settled_geo_def split: option.split)
    moreover have "delivered_ok t"
      using close_geoip assms(3) opened_CloseGeoIP [of "h_geoip (life_handler s)"]
      by (fastforce simp: delivered_ok_def life_handler_def)
    ultimately show ?thesis using live_step.close_geo [of "outline s"] close_geoip by (simp add: outline_def)
  next
    case return
    then show ?thesis
      using assms(3) by (auto simp: outline_def delivered_ok_def life_handler_def running_def)
  qed
next
  case (accept p)
  then have "outline t = outline s \<or> outline t = (outline s)\<lparr>in_flight := in_flight (outline s) + 1\<rparr>"
    by (auto simp: outline_def life_handler_def running_def)
  then show ?thesis
    using live_step.arrive [of "outline s"] accept assms(3)
    by (auto simp: outline_def delivered_ok_def life_handler_def)
next
  case signal
  then show ?thesis
    using live_step.signal [of "outline s"] assms(3)
    by (auto simp: outline_def delivered_ok_def life_handler_def running_def)
next
  case listen_error
  then show ?thesis
    using assms(3) by (auto simp: outline_def delivered_ok_def life_handler_def running_def)
next
  case (verified x)
  have "geo_consistent (h_geoip (life_handler s))"
    using proc_inv_facts(1) [OF assms(2)] by (simp add: shared_ok_def life_handler_def)
  with verified show ?thesis
    by (auto simp: outline_def delivered_ok_def life_handler_def running_def geo_consistent_def)
next
  case (rename_failed x)
  then show ?thesis by (auto simp: outline_def delivered_ok_def life_handler_def running_def)
next
  case (swapped x)
  from assms(3) swapped obtain xs where xs: "opened (h_geoip (life_handler s)) = x # xs" "x \<notin> set xs"
    by (auto simp: delivered_ok_def)
  then have g: "live_geo (outline s) = (h_geoip (life_handler s))\<lparr>opened := xs\<rparr>"
    using swapped by (simp add: outline_def Close_def)
  then have "(live_geo (outline s))\<lparr>opened := x # opened (live_geo (outline s))\<rparr> = h_geoip (life_handler s)"
    using xs by simp
  then have "outline t = (outline s)\<lparr>live_geo := SetGeoIP_swap x
      ((live_geo (outline s))\<lparr>opened := x # opened (live_geo (outline s))\<rparr>)\<rparr>"
    using swapped by (simp add: outline_def life_handler_def running_def SetGeoIP_swap_def)
  with live_step.swap [of x "outline s"] g xs swapped show ?thesis by (auto simp: delivered_ok_def)
next
  case evicts
  then show ?thesis
    using assms(3) by (auto simp: outline_def delivered_ok_def life_handler_def running_def)
qed

section \<open>The invariant of the process\<close>

text \<open>Documented behaviour of \<open>(*sql.DB).Close\<close>: it loses nothing, and statements afterwards fail, which
  the contract of a store allows them to.\<close>

definition close_law :: "('db \<Rightarrow> result list) \<Rightarrow> ('db \<Rightarrow> bool) \<Rightarrow> ('db \<Rightarrow> 'db) \<Rightarrow> bool" where
  "close_law contents ok close \<longleftrightarrow> (\<forall>db. ok db \<longrightarrow> ok (close db) \<and> contents (close db) = contents db)"

definition life_init ::
  "('db \<Rightarrow> result list) \<Rightarrow> ('db \<Rightarrow> bool) \<Rightarrow> ('db, 'b, 'r) libs \<Rightarrow> ('db \<Rightarrow> 'db) \<Rightarrow> ('db, 'b) life \<Rightarrow> bool" where
  "life_init contents ok l close s \<longleftrightarrow>
     close_law contents ok close \<and>
     (\<exists>h. s = life_start h \<and> srv_init contents ok l h \<and> owns (h_geoip h) \<and> \<not> geoipClosed (h_geoip h))"

definition life_inv ::
  "('db \<Rightarrow> result list) \<Rightarrow> ('db \<Rightarrow> bool) \<Rightarrow> ('db, 'b, 'r) libs \<Rightarrow> ('db \<Rightarrow> 'db) \<Rightarrow> ('db, 'b) life \<Rightarrow> bool" where
  "life_inv contents ok l close s \<longleftrightarrow>
     close_law contents ok close \<and> requests_inv contents ok l (procs s) \<and> delivered_ok s \<and> live_inv (outline s) \<and>
     (\<forall>k. exit_code s = Some k \<longrightarrow> k = 0 \<and> l_phase s = Stopped \<or> k = 1 \<and> l_phase s \<in> {Up, Cancelled_updater})"

lemma server_inv_geo:
  "server_inv contents ok l h gs \<Longrightarrow> geo_consistent g \<Longrightarrow> server_inv contents ok l (h\<lparr>h_geoip := g\<rparr>) gs"
  by (simp add: server_inv_def shared_ok_def)

lemma geo_consistent_delivery:
  "geo_consistent g \<Longrightarrow> geo_consistent (g\<lparr>opened := x # opened g\<rparr>)"
  "geo_consistent g \<Longrightarrow> geoip g \<noteq> Some x \<Longrightarrow> geo_consistent (Close x g)"
  "geo_consistent g \<Longrightarrow> geoip g \<noteq> Some x \<Longrightarrow> x \<in> set (opened g) \<Longrightarrow> geo_consistent (SetGeoIP (Some x) g)"
  by (auto simp: geo_consistent_def Close_def SetGeoIP_def Let_def split: option.split)

text \<open>The requests and the history under a step of the process.\<close>

lemma life_requests:
  assumes "life_step l close s t" and "close_law contents ok close" and "requests_inv contents ok l (procs s)"
    and "delivered_ok s"
  shows "requests_inv contents ok l (procs t) \<and>
    history_grows contents (h_store (life_handler s)) (h_store (life_handler t))"
proof -
  have shared: "shared_ok contents ok l (life_handler s)"
    using proc_inv_facts(1) [OF assms(3)] by (simp add: life_handler_def)
  then have geo: "geo_consistent (h_geoip (life_handler s))" by (simp add: shared_ok_def)
  have delivery: "x \<in> set (opened (h_geoip (life_handler s))) \<and> geoip (h_geoip (life_handler s)) \<noteq> Some x"
    if "delivered s = Some x" for x
    using assms(4) that by (auto simp: delivered_ok_def)
  have handler: "requests_inv contents ok l ((procs s)\<lparr>shared := f (shared (procs s))\<rparr>)"
    if "\<And>gs. server_inv contents ok l (shared (procs s)) gs \<Longrightarrow> server_inv contents ok l (f (shared (procs s))) gs" for f
    using that by (rule proc_inv_shared [OF assms(3)])
  show ?thesis
    using assms(1)
  proof (cases rule: life_step.cases)
    case works
    then show ?thesis
    proof (cases rule: work.cases)
      case (request p)
      with sched_inv [OF request(3) assms(3)] show ?thesis by (simp add: request_guar_def life_handler_def)
    next
      case close_store
      have "history_grows contents (h_store (life_handler s)) (SQLite_Close close (h_store (life_handler s))) \<and>
          (\<forall>db. SQLite_Close close (h_store (life_handler s)) = Some db \<longrightarrow> ok db \<and> list_all result_bounds (contents db))"
        using shared assms(2) by (cases "h_store (life_handler s)") (auto simp: shared_ok_def close_law_def SQLite_Close_def)
      with close_store show ?thesis
        by (auto simp: life_handler_def intro!: handler server_inv_store)
    next
      case close_geoip
      then show ?thesis
        by (auto simp: life_handler_def intro!: handler server_inv_geo geo_consistent_Close)
    qed (use assms(3) in \<open>simp_all add: life_handler_def\<close>)
  next
    case (accept p)
    then show ?thesis
      using assms(3) by (auto simp: life_handler_def intro: proc_inv_spawn server_spawn_inv behaves_request)
  next
    case (verified x)
    then show ?thesis
      using geo by (auto simp: life_handler_def intro!: handler server_inv_geo geo_consistent_delivery)
  next
    case (rename_failed x)
    then show ?thesis
      using geo delivery [of x] by (auto simp: life_handler_def intro!: handler server_inv_geo geo_consistent_delivery)
  next
    case (swapped x)
    then show ?thesis
      using geo delivery [of x] by (auto simp: life_handler_def intro!: handler server_inv_geo geo_consistent_delivery)
  next
    case (evicts t)
    then show ?thesis by (auto simp: life_handler_def intro!: handler)
  qed (use assms(3) in \<open>simp_all add: life_handler_def\<close>)
qed

lemma exit_step:
  assumes "life_step l close s t"
  shows "exit_code s = None \<and> (exit_code t = None \<or> exit_code t = Some 0 \<and> l_phase t = Stopped \<or>
    exit_code t = Some 1 \<and> l_phase t \<in> {Up, Cancelled_updater})"
  using assms by (induction rule: life_step.induct) (auto elim: work.cases)

lemma life_inv_step: "life_step l close s t \<Longrightarrow> life_inv contents ok l close s \<Longrightarrow> life_inv contents ok l close t"
  using life_requests [of l close s t contents ok] outline_step [of l close s t contents ok] exit_step [of l close s t]
    live_inv_step [of "outline s" "outline t"]
  by (auto simp: life_inv_def)

lemma life_inv_init: "life_init contents ok l close s \<Longrightarrow> life_inv contents ok l close s"
  by (auto simp: life_init_def life_inv_def life_start_def delivered_ok_def outline_def running_def life_handler_def
      live_inv_def intro: server_run_inv [OF _ server_run_idle])

interpretation life: machine "life_init contents ok l close" "life_step l close" "life_inv contents ok l close"
  for contents ok l close
  by unfold_locales (auto intro: life_inv_init life_inv_step)

lemma life_history:
  assumes "(life_step l close)\<^sup>*\<^sup>* s t" and "life_inv contents ok l close s"
  shows "history_grows contents (h_store (life_handler s)) (h_store (life_handler t))"
  using assms(1)
proof (induction rule: rtranclp_induct)
  case (step t u)
  from step.hyps(1) have "life_inv contents ok l close t"
    by (induction rule: rtranclp_induct) (auto intro: assms(2) life_inv_step)
  with step life_requests [OF step.hyps(2)] show ?case by (auto simp: life_inv_def intro: history_grows_trans)
qed simp

section \<open>The shutdown comes to its end\<close>

fun phases_left :: "phase \<Rightarrow> nat" where
  "phases_left Up = 6"
| "phases_left Cancelled_updater = 5"
| "phases_left Draining = 4"
| "phases_left Drained = 3"
| "phases_left Store_closed = 2"
| "phases_left Stopped = 1"

definition left :: "('db, 'b) life \<Rightarrow> nat" where
  "left s = (if exit_code s = None then phases_left (l_phase s) else 0)"

lemma work_wf: "wf {(t, s). work close s t}"
proof (rule wf_subset)
  show "wf (inv_image (less_than <*lex*> {(t, s). sched s t}) (\<lambda>s. (left s, procs s)))"
    by (intro wf_inv_image wf_lex_prod sched_wf wf_less_than)
  show "{(t, s). work close s t} \<subseteq> inv_image (less_than <*lex*> {(t, s). sched s t}) (\<lambda>s. (left s, procs s))"
    by (auto simp: left_def elim!: work.cases)
qed

text \<open>Once the signal has come, something can always be done until the process has exited.\<close>

lemma work_ready:
  assumes "exit_code s = None" and "l_phase s \<noteq> Up"
  shows "\<exists>t. work close s t"
  using assms by (cases "l_phase s") (blast intro: work.intros)+

lemma work_phase: "work close s t \<Longrightarrow> l_phase s \<noteq> Up \<Longrightarrow> l_phase t \<noteq> Up"
  by (auto elim!: work.cases)

lemma work_reach_phase: "(work close)\<^sup>*\<^sup>* s t \<Longrightarrow> l_phase s \<noteq> Up \<Longrightarrow> l_phase t \<noteq> Up"
  by (induction rule: rtranclp_induct) (auto dest: work_phase)

lemma works_reach: "(work close)\<^sup>*\<^sup>* s t \<Longrightarrow> (life_step l close)\<^sup>*\<^sup>* s t"
  by (erule rtranclp_mono [THEN predicate2D, rotated]) (auto intro: life_step.works)

text \<open>The requests can all return before the deadline.\<close>

lemma work_requests:
  "sched\<^sup>*\<^sup>* (procs s) p \<Longrightarrow> exit_code s = None \<Longrightarrow> (work close)\<^sup>*\<^sup>* s (s\<lparr>procs := p\<rparr>)"
proof (induction rule: rtranclp_induct)
  case (step p q)
  then have "(work close)\<^sup>*\<^sup>* s (s\<lparr>procs := p\<rparr>)" by simp
  moreover have "work close (s\<lparr>procs := p\<rparr>) (s\<lparr>procs := p\<rparr>\<lparr>procs := q\<rparr>)"
    using step by (intro work.request) simp_all
  ultimately show ?case by simp
qed simp

lemma drains_in_time:
  assumes "life_inv contents ok l close s" and "exit_code s = None" and "l_phase s \<in> {Cancelled_updater, Draining}"
    and "\<not> l_timed_out s"
  shows "\<exists>t. (work close)\<^sup>*\<^sup>* s t \<and> exit_code t = Some 0 \<and> \<not> l_timed_out t"
proof -
  obtain p where p: "sched\<^sup>*\<^sup>* (procs s) p" "\<forall>u. \<not> sched p u" using sched_normalises by blast
  have "requests_inv contents ok l p"
    using assms(1) by (intro sched_reach_inv [OF p(1)]) (simp add: life_inv_def)
  then have fin: "list_all returned (gos p)" by (rule all_return [OF _ p(2)])
  define s1 where "s1 = s\<lparr>procs := p, l_phase := Draining\<rparr>"
  define s2 where "s2 = s1\<lparr>l_phase := Drained\<rparr>"
  define s3 where "s3 = on_handler (\<lambda>h. h\<lparr>h_store := SQLite_Close close (h_store h)\<rparr>) (s2\<lparr>l_phase := Store_closed\<rparr>)"
  define s4 where "s4 = on_handler (\<lambda>h. h\<lparr>h_geoip := CloseGeoIP (h_geoip h)\<rparr>) (s3\<lparr>l_phase := Stopped\<rparr>)"
  define s5 where "s5 = s4\<lparr>exit_code := Some 0\<rparr>"
  note defs = s1_def s2_def s3_def s4_def s5_def
  have start: "(work close)\<^sup>*\<^sup>* s (s\<lparr>procs := p\<rparr>)" by (rule work_requests [OF p(1) assms(2)])
  have drain: "(work close)\<^sup>*\<^sup>* (s\<lparr>procs := p\<rparr>) s1"
  proof (cases "l_phase s = Draining")
    case True
    then have "s\<lparr>procs := p\<rparr> = s1" by (simp add: s1_def)
    then show ?thesis by simp
  next
    case False
    then show ?thesis
      using assms(2,3) work.begin_drain [of "s\<lparr>procs := p\<rparr>" close] by (auto simp: s1_def)
  qed
  have "work close s1 s2" unfolding s2_def by (rule work.drained) (use assms(2) fin in \<open>simp_all add: s1_def\<close>)
  moreover have "work close s2 s3" unfolding s3_def by (rule work.close_store) (use assms(2) in \<open>simp_all add: defs\<close>)
  moreover have "work close s3 s4" unfolding s4_def by (rule work.close_geoip) (use assms(2) in \<open>simp_all add: defs\<close>)
  moreover have "work close s4 s5" unfolding s5_def by (rule work.return) (use assms(2) in \<open>simp_all add: defs\<close>)
  ultimately have "(work close)\<^sup>*\<^sup>* s1 s5" by (meson rtranclp.rtrancl_refl rtranclp.rtrancl_into_rtrancl)
  with start drain have "(work close)\<^sup>*\<^sup>* s s5" by (meson rtranclp_trans)
  moreover have "exit_code s5 = Some 0 \<and> \<not> l_timed_out s5" using assms(4) by (simp add: defs)
  ultimately show ?thesis by blast
qed

lemma work_exit: "(work close)\<^sup>*\<^sup>* s t \<Longrightarrow> exit_code s = None \<Longrightarrow> exit_code t \<in> {None, Some 0}"
  by (induction rule: rtranclp_induct) (auto elim!: work.cases)

lemma life_init_outline: "life_init contents ok l close s \<Longrightarrow> live_init (outline s)"
  by (auto simp: life_init_def life_start_def live_init_def outline_def running_def life_handler_def)

section \<open>A database that can be closed\<close>

text \<open>An engine with a flag: once it is set every statement fails.\<close>

definition closing_engine :: "'db engine \<Rightarrow> ('db \<times> bool) engine" where
  "closing_engine e = \<lparr>
     sql_exec = (\<lambda>s vs (db, closed). if closed then (None, db, closed)
       else (case sql_exec e s vs db of (x, db) \<Rightarrow> (x, db, closed))),
     sql_query = (\<lambda>s vs (db, closed). if closed then (None, db, closed)
       else (case sql_query e s vs db of (x, db) \<Rightarrow> (x, db, closed)))\<rparr>"

definition sql_close :: "'db \<times> bool \<Rightarrow> 'db \<times> bool" where
  "sql_close db = (fst db, True)"

lemma closing_engine_laws:
  assumes "sqlite_laws e tbl"
  shows "sqlite_laws (closing_engine e) (tbl \<circ> fst)"
  unfolding sqlite_laws_def
proof (intro conjI allI)
  fix st vs and c :: "'a \<times> bool"
  obtain db closed where c: "c = (db, closed)" by (cases c)
  obtain x db1 where x: "sql_exec e st vs db = (x, db1)" by fastforce
  then have "case x of None \<Rightarrow> tbl db1 = tbl db | Some x \<Rightarrow> exec_meaning st vs (tbl db) = Some (tbl db1, x)"
    using exec_law [OF assms, of st vs db] by (cases x) auto
  then show "case sql_exec (closing_engine e) st vs c of (None, c') \<Rightarrow> (tbl \<circ> fst) c' = (tbl \<circ> fst) c
      | (Some x, c') \<Rightarrow> exec_meaning st vs ((tbl \<circ> fst) c) = Some ((tbl \<circ> fst) c', x)"
    using x c by (cases closed) (auto simp: closing_engine_def split: option.splits)
  obtain q db2 where q: "sql_query e st vs db = (q, db2)" by fastforce
  then have "tbl db2 = tbl db \<and> (\<forall>rs. q = Some rs \<longrightarrow> query_meaning st vs (tbl db) = Some rs)"
    using query_law [OF assms, of st vs db] by auto
  then show "case sql_query (closing_engine e) st vs c of (None, c') \<Rightarrow> (tbl \<circ> fst) c' = (tbl \<circ> fst) c
      | (Some rs, c') \<Rightarrow> query_meaning st vs ((tbl \<circ> fst) c) = Some rs \<and> (tbl \<circ> fst) c' = (tbl \<circ> fst) c"
    using q c by (cases closed) (auto simp: closing_engine_def split: option.splits)
qed

lemma close_law_flag: "close_law (stored_results (tbl \<circ> fst)) (store_ok (tbl \<circ> fst)) sql_close"
  by (simp add: close_law_def sql_close_def stored_results_def store_ok_def)

definition demo_closing :: "(table option \<times> bool, bucket, int) libs" where
  "demo_closing = \<lparr>json_text = (\<lambda>_. ''{}''), json_value = demo_decode, json_used = (\<lambda>_. 0), parse_float = demo_parse_float,
     float_json = (\<lambda>_. ''1''), float_csv = (\<lambda>_. ''1''), locate_in = (\<lambda>_ _. ''X''),
     store_lib = sqlite_store (closing_engine mem_engine),
     rate = bucket_lib, exposition = (\<lambda>_ _. demo_reply), file_server = (\<lambda>_. demo_reply), embedded_icon = (\<lambda>_. demo_reply),
     redirect_to = (\<lambda>_ _. demo_reply), disk_icon = None, embedded_sw = None, wall_ms = (\<lambda>t. 1700),
     export_stamp = (\<lambda>_. ''T''), copy_time = (\<lambda>_. 0), label_ok = utf8\<rparr>"

lemma demo_closing_replies: "lib_replies demo_closing" "lib_statuses demo_closing"
  by (simp_all add: lib_replies_def lib_statuses_def demo_closing_def demo_reply_def final_reply_def informational_def
      status_codes)

definition demo_life :: "(table option \<times> bool, bucket) life" where
  "demo_life = life_start (buildMux defaults (Some (demo_empty, False)) None demo_build geoip0 0)"

lemma demo_life_init:
  "life_init (stored_results (id \<circ> fst)) (store_ok (id \<circ> fst)) demo_closing sql_close demo_life"
proof -
  have "result_store (store_lib demo_closing) (stored_results (id \<circ> fst)) (store_ok (id \<circ> fst))"
    using sqlite_refines [OF closing_engine_laws [OF mem_engine_laws]] by (simp add: demo_closing_def)
  moreover have "stored_results id demo_empty = []" by code_simp
  then have "stored_results (id \<circ> fst) (demo_empty, False) = []" by (simp add: stored_results_def)
  moreover have "store_ok (id \<circ> fst) (demo_empty, False)" using demo_empty_ok by (simp add: store_ok_def)
  moreover have dur: "Duration defaults \<le> 2 ^ 46" by (simp add: defaults_def Second_def)
  ultimately have "srv_init (stored_results (id \<circ> fst)) (store_ok (id \<circ> fst)) demo_closing
      (buildMux defaults (Some (demo_empty, False)) None demo_build geoip0 0)"
    unfolding srv_init_def
    by (intro conjI exI [of _ defaults] exI [of _ "Some (demo_empty, False)"] exI [of _ None] exI [of _ geoip0] exI)
       (auto simp: wf_defaults geoip0_def dur)
  then show ?thesis
    unfolding life_init_def demo_life_def
    by (intro conjI close_law_flag exI) (rule refl, assumption, simp_all add: owns_def geoip0_def SetGeoIP_def)
qed

text \<open>Requests come in, then the signal.\<close>

definition signalled :: "('db, 'b) handler \<Rightarrow> ('db, 'b, (conn \<times> access_log) option) srv_go list \<Rightarrow> ('db, 'b) life" where
  "signalled h ps = (life_start h)\<lparr>procs := \<lparr>shared = h, gos = ps\<rparr>, l_phase := Cancelled_updater\<rparr>"

lemma signalled_reached:
  assumes "\<And>p. p \<in> set ps \<Longrightarrow> fresh_request l p"
  shows "(life_step l close)\<^sup>*\<^sup>* (life_start h) (signalled h ps)"
proof -
  let ?up = "\<lambda>ps. (life_start h)\<lparr>procs := \<lparr>shared = h, gos = ps\<rparr>\<rparr>"
  have "(life_step l close)\<^sup>*\<^sup>* (?up []) (?up ps)"
    using assms
  proof (induction ps rule: rev_induct)
    case (snoc p ps)
    have "life_step l close (?up ps) ((?up ps)\<lparr>procs := (procs (?up ps))\<lparr>gos := gos (procs (?up ps)) @ [p]\<rparr>\<rparr>)"
      using snoc.prems by (intro life_step.accept) (simp_all add: life_start_def)
    with snoc show ?case by simp
  qed simp
  moreover have "life_step l close (?up ps) ((?up ps)\<lparr>l_phase := Cancelled_updater\<rparr>)"
    by (rule life_step.signal) (simp_all add: life_start_def)
  ultimately show ?thesis by (simp add: life_start_def signalled_def)
qed

lemma serves_and_exits:
  assumes "life_init contents ok l close (life_start h)" and "\<And>p. p \<in> set ps \<Longrightarrow> fresh_request l p"
  obtains t where "(work close)\<^sup>*\<^sup>* (signalled h ps) t" "exit_code t = Some 0" "\<not> l_timed_out t"
    "(life_step l close)\<^sup>*\<^sup>* (life_start h) t"
proof -
  note reached = signalled_reached [OF assms(2)]
  have "life_inv contents ok l close (signalled h ps)" by (rule life.reach_inv [OF assms(1) reached])
  then obtain t where "(work close)\<^sup>*\<^sup>* (signalled h ps) t" "exit_code t = Some 0" "\<not> l_timed_out t"
    using drains_in_time [of contents ok l close "signalled h ps"] by (auto simp: signalled_def life_start_def)
  with that works_reach [of close "signalled h ps" t l] reached show ?thesis by (meson rtranclp_trans)
qed

definition demo_requests :: "(table option \<times> bool, bucket, (conn \<times> access_log) option) srv_go list" where
  "demo_requests = [go_ServeHTTP demo_closing ''a'' ''/api/results'' demo_post demo_conn,
     go_ServeHTTP demo_closing ''b'' ''/api/download'' (demo_request MethodGet [] []) demo_conn]"

definition demo_serving :: "(table option \<times> bool, bucket) life" where
  "demo_serving = signalled (shared (procs demo_life)) demo_requests"

lemma demo_fresh:
  assumes "p \<in> set demo_requests"
  shows "fresh_request demo_closing p"
proof -
  have "fresh_request demo_closing (go_ServeHTTP demo_closing i escaped r demo_conn)" for i escaped r
    unfolding fresh_request_def by (intro exI conjI) (rule refl, simp_all add: demo_conn_def)
  with assms show ?thesis by (auto simp: demo_requests_def)
qed

lemma demo_life_start: "life_start (shared (procs demo_life)) = demo_life"
  by (simp add: demo_life_def life_start_def)

lemma demo_serving_reached: "(life_step demo_closing sql_close)\<^sup>*\<^sup>* demo_life demo_serving"
  unfolding demo_serving_def
  using signalled_reached [OF demo_fresh, where close = sql_close and h = "shared (procs demo_life)"]
  by (simp add: demo_life_start)

lemma demo_exit:
  obtains t where "(work sql_close)\<^sup>*\<^sup>* demo_serving t" "exit_code t = Some 0" "\<not> l_timed_out t"
    "(life_step demo_closing sql_close)\<^sup>*\<^sup>* demo_life t"
proof -
  have "life_init (stored_results (id \<circ> fst)) (store_ok (id \<circ> fst)) demo_closing sql_close
      (life_start (shared (procs demo_life)))"
    using demo_life_init by (simp only: demo_life_start)
  from serves_and_exits [OF this demo_fresh] that show ?thesis
    unfolding demo_serving_def demo_life_start by blast
qed

section \<open>What the invariant says\<close>

lemma life_inv_facts:
  assumes "life_inv contents ok l close s"
  shows "l_phase s \<in> {Store_closed, Stopped} \<Longrightarrow> \<not> l_timed_out s \<Longrightarrow>
      sem_len (tests (life_handler s)) = 0 \<and> (\<forall>p \<in> set (gos (procs s)). \<exists>x. p = Return x \<and> answered l x)"
    and "l_phase s = Stopped \<Longrightarrow> opened (h_geoip (life_handler s)) = (case delivered s of None \<Rightarrow> [] | Some x \<Rightarrow> [x])"
    and "exit_code s = Some k \<Longrightarrow> k = 0 \<and> l_phase s = Stopped \<or> k = 1 \<and> l_phase s \<in> {Up, Cancelled_updater}"
    and "lib_replies l \<Longrightarrow> lib_statuses l \<Longrightarrow> own_rows contents (h_store (life_handler s)) (gos (procs s))"
    and "h_store (life_handler s) = Some db \<Longrightarrow> list_all result_bounds (contents db) \<and> distinct (map ID (contents db))"
proof -
  from assms have live: "live_inv (outline s)" and reqs: "requests_inv contents ok l (procs s)" and del: "delivered_ok s"
    by (simp_all add: life_inv_def)
  {
    assume "l_phase s \<in> {Store_closed, Stopped}" and "\<not> l_timed_out s"
    with live have "running s = 0" by (auto simp: live_inv_def outline_def)
    then have "list_all returned (gos (procs s))" by (simp only: running_0)
    from all_returned_facts [OF reqs this]
    show "sem_len (tests (life_handler s)) = 0 \<and> (\<forall>p \<in> set (gos (procs s)). \<exists>x. p = Return x \<and> answered l x)"
      by (simp add: life_handler_def)
  }
  {
    assume "l_phase s = Stopped"
    with live del show "opened (h_geoip (life_handler s)) = (case delivered s of None \<Rightarrow> [] | Some x \<Rightarrow> [x])"
      by (auto simp: live_inv_def outline_def owns_def delivered_ok_def Close_def split: option.splits)
  }
  show "exit_code s = Some k \<Longrightarrow> k = 0 \<and> l_phase s = Stopped \<or> k = 1 \<and> l_phase s \<in> {Up, Cancelled_updater}"
    using assms by (simp add: life_inv_def)
  note facts = proc_inv_facts(1,4) [OF reqs]
  show "lib_replies l \<Longrightarrow> lib_statuses l \<Longrightarrow> own_rows contents (h_store (life_handler s)) (gos (procs s))"
    using facts(2) by (simp add: life_handler_def)
  show "h_store (life_handler s) = Some db \<Longrightarrow> list_all result_bounds (contents db) \<and> distinct (map ID (contents db))"
    using facts(1) result_store.ids by (fastforce simp: shared_ok_def life_handler_def)
qed

section \<open>Properties\<close>

text \<open>C12: the process refines the outline of its shutdown: every run of the requests, the updater and
  \<open>main\<close> is a run of \<open>live_step\<close>, where requests are only counted.\<close>

theorem shutdown_refines:
  assumes "life_init contents ok l close s0" and "(life_step l close)\<^sup>*\<^sup>* s0 s"
  shows "live_init (outline s0) \<and> live_step\<^sup>*\<^sup>* (outline s0) (outline s)"
proof -
  have "live_step\<^sup>*\<^sup>* (outline s0) (outline s)"
    using assms(2)
  proof (induction rule: rtranclp_induct)
    case (step s t)
    have inv: "life_inv contents ok l close s" by (rule life.reach_inv [OF assms(1) step.hyps(1)])
    then have "live_step\<^sup>=\<^sup>= (outline s) (outline t)"
      using outline_step [OF step.hyps(2)] by (auto simp: life_inv_def)
    with step.IH show ?case by (auto intro: rtranclp.rtrancl_into_rtrancl)
  qed simp
  with life_init_outline [OF assms(1)] show ?thesis by blast
qed

theorem shutdown_refines_witness:
  "\<exists>t :: (table option \<times> bool, bucket) life. exit_code t = Some 0 \<and> live_step\<^sup>*\<^sup>* (outline demo_life) (outline t)"
proof -
  obtain t where t: "exit_code t = Some 0" "(life_step demo_closing sql_close)\<^sup>*\<^sup>* demo_life t"
    by (rule demo_exit)
  with shutdown_refines [OF demo_life_init t(2)] show ?thesis by blast
qed

text \<open>C4: the shutdown is graceful under every schedule of requests, updater and collector: the
  store is closed only after every request has been answered and has given its test slot back, unless the
  deadline of thirty seconds is over; when the process is done no geoip database is open but one the
  updater has just opened, which it then closes itself; and the process exits with 0 after the shutdown or
  with 1 before it, when the listener fails.\<close>

theorem graceful_shutdown:
  assumes "life_init contents ok l close s0" and "(life_step l close)\<^sup>*\<^sup>* s0 s"
  shows "(l_phase s \<in> {Store_closed, Stopped} \<and> \<not> l_timed_out s \<longrightarrow>
      sem_len (tests (life_handler s)) = 0 \<and> (\<forall>p \<in> set (gos (procs s)). \<exists>x. p = Return x \<and> answered l x)) \<and>
    (l_phase s = Stopped \<longrightarrow> opened (h_geoip (life_handler s)) = (case delivered s of None \<Rightarrow> [] | Some x \<Rightarrow> [x])) \<and>
    (\<forall>k. exit_code s = Some k \<longrightarrow> k = 0 \<and> l_phase s = Stopped \<or> k = 1 \<and> l_phase s \<in> {Up, Cancelled_updater})"
  using life_inv_facts(1-3) [OF life.reach_inv [OF assms]] by simp

theorem graceful_shutdown_witness:
  "\<exists>t. (work sql_close)\<^sup>*\<^sup>* demo_serving t \<and> exit_code t = Some 0 \<and> sem_len (tests (life_handler t)) = 0 \<and>
     (\<forall>p \<in> set (gos (procs t)). \<exists>x. p = Return x \<and> answered demo_closing x)"
proof -
  obtain t where t: "(work sql_close)\<^sup>*\<^sup>* demo_serving t" "exit_code t = Some 0" "\<not> l_timed_out t"
    "(life_step demo_closing sql_close)\<^sup>*\<^sup>* demo_life t" by (rule demo_exit)
  with graceful_shutdown [OF demo_life_init t(4)] show ?thesis by auto
qed

text \<open>C3: what a client was told is saved stays saved: from any state of the process to any later
  one, through the shutdown and the closing of the database up to the exit, results are only appended to the
  history; every request that was answered with 201 has a row of its own in it; all rows are in range and
  their ids are distinct.\<close>

theorem history_durable:
  assumes "life_init contents ok l close s0" and "(life_step l close)\<^sup>*\<^sup>* s0 s" and "(life_step l close)\<^sup>*\<^sup>* s t"
    and "lib_replies l" and "lib_statuses l"
  shows "history_grows contents (h_store (life_handler s)) (h_store (life_handler t)) \<and>
    own_rows contents (h_store (life_handler t)) (gos (procs t)) \<and>
    (\<forall>db. h_store (life_handler t) = Some db \<longrightarrow> list_all result_bounds (contents db) \<and> distinct (map ID (contents db)))"
proof -
  note inv = life.reach_inv [OF assms(1,2)]
  have "life_inv contents ok l close t"
    by (rule life.reach_inv [OF assms(1)]) (use assms(2,3) in \<open>rule rtranclp_trans\<close>)
  from life_history [OF assms(3) inv] life_inv_facts(4,5) [OF this] assms(4,5) show ?thesis by simp
qed

theorem history_durable_witness:
  "\<exists>t :: (table option \<times> bool, bucket) life. exit_code t = Some 0 \<and>
     own_rows (stored_results (id \<circ> fst)) (h_store (life_handler t)) (gos (procs t)) \<and>
     history_grows (stored_results (id \<circ> fst)) (Some (demo_empty, False)) (h_store (life_handler t))"
proof -
  obtain t where t: "exit_code t = Some 0" "(life_step demo_closing sql_close)\<^sup>*\<^sup>* demo_life t" by (rule demo_exit)
  have "h_store (life_handler demo_life) = Some (demo_empty, False)"
    by (simp add: demo_life_def life_start_def life_handler_def)
  with history_durable [OF demo_life_init rtranclp.rtrancl_refl t(2) demo_closing_replies] t(1)
  show ?thesis by (intro exI [of _ t]) simp
qed



text \<open>C32: the updater of \<open>Updater\<close> is the one of the process: whatever a whole tick does to the holder
  of the database, over any files, network and faults, the process does by delivering a database and swapping it in, or by
  nothing at all, and the requests and the history are not touched by it.\<close>

theorem tick_delivers:
  assumes "temps_new env u w" and "h_geoip (life_handler s) = holder w" and "next_handle w \<notin> set (opened (holder w))"
    and "delivered s = None" and "exit_code s = None"
  shows "\<exists>t. (life_step l close)\<^sup>*\<^sup>* s t \<and> delivered t = None \<and>
    life_handler t = (life_handler s)\<lparr>h_geoip := holder (tickSafe env u (Some SetGeoIP_swap) w)\<rparr> \<and>
    gos (procs t) = gos (procs s)"
  using tickSafe_cases [OF assms(1), of "Some SetGeoIP_swap"]
proof
  let ?x = "next_handle w" and ?w = "tickSafe env u (Some SetGeoIP_swap) w"
  assume "installed env u (Some SetGeoIP_swap) w ?w"
  then have new: "holder ?w = SetGeoIP (Some ?x) ((holder w)\<lparr>opened := ?x # opened (holder w)\<rparr>)"
    by (auto simp: installed_def swapped_def open_lookup_def SetGeoIP_swap_def)
  define s1 where "s1 = on_handler (\<lambda>h. h\<lparr>h_geoip := (h_geoip h)\<lparr>opened := ?x # opened (h_geoip h)\<rparr>\<rparr>) (s\<lparr>delivered := Some ?x\<rparr>)"
  define s2 where "s2 = on_handler (\<lambda>h. h\<lparr>h_geoip := SetGeoIP (Some ?x) (h_geoip h)\<rparr>) (s1\<lparr>delivered := None\<rparr>)"
  have "life_step l close s s1"
    unfolding s1_def by (rule life_step.verified) (use assms in simp_all)
  moreover have "life_step l close s1 s2"
    unfolding s2_def by (rule life_step.swapped) (use assms in \<open>simp_all add: s1_def\<close>)
  ultimately have "(life_step l close)\<^sup>*\<^sup>* s s2" by simp
  then show ?thesis
    using new assms(2,4) by (intro exI [of _ s2]) (simp add: s2_def s1_def life_handler_def)
next
  assume "skipped env u w (tickSafe env u (Some SetGeoIP_swap) w)"
  then have "holder (tickSafe env u (Some SetGeoIP_swap) w) = h_geoip (life_handler s)"
    using assms(2) by (simp add: skipped_def)
  with assms(4) show ?thesis by (intro exI [of _ s]) simp
qed

theorem tick_delivers_witness:
  "\<exists>t. (life_step demo_closing sql_close)\<^sup>*\<^sup>* demo_life t \<and>
     h_geoip (life_handler t) = holder (tickSafe demo_environment demo_updater (Some SetGeoIP_swap) demo_world)"
proof -
  have "h_geoip (life_handler demo_life) = holder demo_world" "next_handle demo_world \<notin> set (opened (holder demo_world))"
    "delivered demo_life = None" "exit_code demo_life = None"
    by (simp_all add: demo_life_def life_start_def life_handler_def demo_world_def geoip0_def SetGeoIP_def)
  from tick_delivers [OF demo_temps this, of demo_closing sql_close] show ?thesis by auto
qed

end
