(* ===== verification/Payload.thy ===== *)
theory Payload
  imports Speed_Tests "HOL-Library.Sublist"
begin

text \<open>
  The bytes a download sends: the shared random buffer of \<open>handler.go\<close>, how it is filled when the process
  starts, and the download loops with the slices they write. The loops of \<open>Handler\<close> only count bytes; here
  they are shown to be these loops without the bytes, no slice is ever out of range, and the client gets
  the random buffer over and over.
\<close>

section \<open>The buffer\<close>

text \<open>\<open>init\<close> of the package: \<open>rand.Read\<close> fills the whole array, or the process panics (\<open>None\<close>).\<close>

definition init_payload :: "(nat \<Rightarrow> 8 word list option) \<Rightarrow> 8 word list option" where
  "init_payload rand_Read = rand_Read (nat payloadSize)"

definition fills :: "(nat \<Rightarrow> 8 word list option) \<Rightarrow> bool" where
  "fills rand_Read \<longleftrightarrow> (\<forall>n bs. rand_Read n = Some bs \<longrightarrow> length bs = n)"

text \<open>A slice \<open>xs[:n]\<close> panics when \<open>n\<close> is out of range.\<close>

datatype panic = Slice_out_of_range

definition slice :: "8 word list \<Rightarrow> int \<Rightarrow> panic + 8 word list" where
  "slice xs n = (if 0 \<le> n \<and> n \<le> int (length xs) then Inr (take (nat n) xs) else Inl Slice_out_of_range)"

section \<open>The loops with their bytes\<close>

type_synonym 's data_op = "8 word list \<Rightarrow> 's \<Rightarrow> nat \<times> bool \<times> 's"

definition intStr :: "int \<Rightarrow> string" where
  "intStr n = Itoa n"

partial_function (option) stream_size ::
  "8 word list \<Rightarrow> 's data_op \<Rightarrow> int \<Rightarrow> int \<Rightarrow> 's \<Rightarrow> (panic + int \<times> 's) option" where
  "stream_size buffer put want written s =
     (if written < want
      then
        (let n = int (length buffer);
             n = (if i64 (written + n) > want then want - written else n)
         in case slice buffer n of
              Inl p \<Rightarrow> Some (Inl p)
            | Inr chunk \<Rightarrow>
                (case put chunk s of (m, e, s') \<Rightarrow>
                   if e then Some (Inr (i64 (written + int m), s'))
                   else stream_size buffer put want (i64 (written + int m)) s'))
      else Some (Inr (written, s)))"

partial_function (option) stream_time ::
  "8 word list \<Rightarrow> 's data_op \<Rightarrow> ('s \<Rightarrow> 's) \<Rightarrow> ('s \<Rightarrow> int) \<Rightarrow> int \<Rightarrow> int \<Rightarrow> 's \<Rightarrow> (int \<times> 's) option" where
  "stream_time chunk put flush clock deadline written s =
     (if clock s < deadline
      then (case put chunk s of (m, e, s') \<Rightarrow>
              if e then Some (i64 (written + int m), s')
              else stream_time chunk put flush clock deadline (i64 (written + int m)) (flush s'))
      else Some (written, s))"

text \<open>A writer that also remembers the bytes it accepted.\<close>

definition recording :: "'s write_op \<Rightarrow> ('s \<times> 8 word list) data_op" where
  "recording put bs s = (case put (length bs) (fst s) of (m, e, s') \<Rightarrow> (m, e, s', snd s @ take m bs))"

definition downloadBySize_data ::
  "8 word list \<Rightarrow> int \<Rightarrow> statusWriter \<Rightarrow> (panic + int \<times> statusWriter \<times> 8 word list) option" where
  "downloadBySize_data buffer want sw =
     stream_size buffer (recording sw_Write) want 0 (sw_Header_Set ''Content-Length'' (intStr want) sw, [])"

definition downloadByTime_data ::
  "8 word list \<Rightarrow> int \<Rightarrow> statusWriter \<Rightarrow> (panic + int \<times> statusWriter \<times> 8 word list) option" where
  "downloadByTime_data buffer duration sw =
     (let deadline = sw_now sw + duration;
          sw = sw_SetWriteDeadline (deadline + writeDeadlineGrace) sw
      in case slice buffer (int writeChunk) of
           Inl p \<Rightarrow> Some (Inl p)
         | Inr chunk \<Rightarrow> map_option Inr
             (stream_time chunk (recording sw_Write) (apfst sw_Flush) (sw_now \<circ> fst) deadline 0 (sw, [])))"

definition download_data ::
  "8 word list \<Rightarrow> config \<Rightarrow> request \<Rightarrow> statusWriter \<Rightarrow> (panic + int \<times> statusWriter \<times> 8 word list) option" where
  "download_data buffer c r sw =
     (if query_Get r ''bytes'' \<noteq> [] \<or> query_Get r ''size'' \<noteq> [] then downloadBySize_data buffer (download_bytes c r) sw
      else if Mode c = ModeTime then downloadByTime_data buffer (download_duration c r) sw
      else downloadBySize_data buffer (download_bytes c r) sw)"

section \<open>The bytes are the buffer, over and over\<close>

definition repeated :: "nat \<Rightarrow> 'a list \<Rightarrow> 'a list" where
  "repeated k xs = concat (replicate k xs)"

lemma repeated_simps [simp]:
  "repeated 0 xs = []" "length (repeated k xs) = k * length xs" "repeated k xs @ xs = repeated (Suc k) xs"
  by (simp_all add: repeated_def length_concat sum_list_replicate concat_replicate_trivial)
     (induction k; simp)

lemma repeated_prefix: "prefix (repeated k xs @ take m xs) (repeated (Suc k) xs)"
  by (metis repeated_simps(3) same_prefix_prefix take_is_prefix)

lemma slice_ok: "0 \<le> n \<Longrightarrow> n \<le> int (length xs) \<Longrightarrow> slice xs n = Inr (take (nat n) xs)"
  by (simp add: slice_def)

context timed_writer begin

lemma recording_take:
  assumes "put n s = (m, e, s')" and "n \<le> length bs"
  shows "recording put (take n bs) (s, got) = (m, e, s', got @ take m bs)"
proof -
  have "m \<le> n" by (rule write_le [OF assms(1)])
  with assms show ?thesis by (simp add: recording_def min_absorb1 min_absorb2)
qed

lemma stream_size_effect:
  assumes "int (length buffer) = payloadSize" and "written = int (k * length buffer)" and "written \<le> want" and "want \<le> 2 ^ 62"
  shows "\<exists>w s' got. size_loop put want written s = Some (w, s') \<and>
    stream_size buffer (recording put) want written (s, repeated k buffer) = Some (Inr (w, s', got)) \<and>
    int (length got) = w \<and> (\<exists>j. prefix got (repeated j buffer))"
  using assms(2-)
proof (induction "nat (want - written)" arbitrary: written s k rule: less_induct)
  case less
  show ?case
  proof (cases "written < want")
    case False
    with less.prems show ?thesis
      by (subst size_loop.simps, subst stream_size.simps) (auto intro: exI [of _ k])
  next
    case True
    define n where "n = (if i64 (written + payloadSize) > want then want - written else payloadSize)"
    have "i64 (written + payloadSize) = written + payloadSize"
      using less.prems True by (intro i64_id) (simp add: in_i64_def payloadSize_def)
    then have n: "0 < n" "n \<le> payloadSize" "n < payloadSize \<Longrightarrow> written + n = want"
      using True by (auto simp: n_def payloadSize_def)
    obtain m e s1 where p: "put (nat n) s = (m, e, s1)" by (metis prod_cases3)
    have r: "written + int m \<le> want \<and> i64 (written + int m) = written + int m \<and> (\<not> e \<longrightarrow> 0 < m)"
      using size_loop_round [of written want s m e s1] less.prems True p by (simp add: n_def)
    have m: "m \<le> nat n" by (rule write_le [OF p])
    have len: "nat n \<le> length buffer" using n assms(1) by simp
    have rec: "recording put (take (nat n) buffer) (s, repeated k buffer) = (m, e, s1, repeated k buffer @ take m buffer)"
      by (rule recording_take [OF p len])
    have slice: "slice buffer n = Inr (take (nat n) buffer)" using n assms(1) by (intro slice_ok) simp_all
    have got: "int (length (repeated k buffer @ take m buffer)) = written + int m"
      using less.prems(1) m len by (simp add: min_absorb2)
    have size: "size_loop put want written s = (if e then Some (written + int m, s1) else size_loop put want (written + int m) s1)"
      using True p r by (subst size_loop.simps) (simp add: Let_def flip: n_def)
    have stream: "stream_size buffer (recording put) want written (s, repeated k buffer) =
        (if e then Some (Inr (written + int m, s1, repeated k buffer @ take m buffer))
         else stream_size buffer (recording put) want (written + int m) (s1, repeated k buffer @ take m buffer))"
      using True r assms(1) slice rec by (subst stream_size.simps) (simp add: Let_def flip: n_def)
    show ?thesis
    proof (cases e)
      case True
      with size stream got repeated_prefix show ?thesis by (intro exI conjI) auto
    next
      case False
      have full: "m = nat n" using write_full [of "nat n" s m s1] p False by simp
      show ?thesis
      proof (cases "n < payloadSize")
        case True
        with n(1,3) full have "written + int m = want" by simp
        moreover have "size_loop put want want s1 = Some (want, s1)"
          by (subst size_loop.simps) simp
        moreover have "stream_size buffer (recording put) want want (s1, repeated k buffer @ take m buffer) =
            Some (Inr (want, s1, repeated k buffer @ take m buffer))"
          by (subst stream_size.simps) simp
        ultimately show ?thesis
          using size stream \<open>\<not> e\<close> got repeated_prefix [of k buffer m] by (intro exI conjI) auto
      next
        case False
        with n(2) full assms(1) have whole: "m = length buffer" by simp
        have "written + int m = int (Suc k * length buffer)" using less.prems(1) whole by simp
        from less.hyps [OF _ this] r \<open>\<not> e\<close> less.prems(3) True
        obtain w s' got where "size_loop put want (written + int m) s1 = Some (w, s')"
          "stream_size buffer (recording put) want (written + int m) (s1, repeated (Suc k) buffer) = Some (Inr (w, s', got))"
          "int (length got) = w" "\<exists>j. prefix got (repeated j buffer)"
          by fastforce
        with size stream \<open>\<not> e\<close> whole show ?thesis by auto
      qed
    qed
  qed
qed

lemma stream_time_effect:
  assumes "length chunk = writeChunk" and "deadline s = Some (stop_at + grace)" and "written = int (k * length chunk)"
    and "written + int writeChunk * (stop_at - clock s) < 2 ^ 63" and "written < 2 ^ 63"
  shows "\<exists>w s' got. time_loop put flush clock stop_at written s = Some (w, s') \<and>
    stream_time chunk (recording put) (apfst flush) (clock \<circ> fst) stop_at written (s, repeated k chunk) = Some (w, s', got) \<and>
    int (length got) = w \<and> (\<exists>j. prefix got (repeated j chunk))"
  using assms(2-)
proof (induction "nat (stop_at - clock s)" arbitrary: written s k rule: less_induct)
  case less
  show ?case
  proof (cases "clock s < stop_at")
    case False
    with less.prems show ?thesis
      by (subst time_loop.simps, subst stream_time.simps) (auto intro: exI [of _ k])
  next
    case True
    obtain m e s1 where p: "put writeChunk s = (m, e, s1)" by (metis prod_cases3)
    have m: "m \<le> writeChunk" by (rule write_le [OF p])
    have room: "int writeChunk \<le> int writeChunk * (stop_at - clock s)"
      using True by (simp add: writeChunk_def)
    moreover have "0 \<le> written" using less.prems(2) by simp
    ultimately have w: "i64 (written + int m) = written + int m"
      using m less.prems(3) unfolding in_i64_def by (intro i64_id) (simp add: in_i64_def)
    have rec: "recording put chunk (s, repeated k chunk) = (m, e, s1, repeated k chunk @ take m chunk)"
      using recording_take [OF p, of chunk] assms(1) by simp
    have got: "int (length (repeated k chunk @ take m chunk)) = written + int m"
      using less.prems(2) m assms(1) by (simp add: min_absorb2)
    have time: "time_loop put flush clock stop_at written s =
        (if e then Some (written + int m, s1) else time_loop put flush clock stop_at (written + int m) (flush s1))"
      using True p w by (subst time_loop.simps) simp
    have stream: "stream_time chunk (recording put) (apfst flush) (clock \<circ> fst) stop_at written (s, repeated k chunk) =
        (if e then Some (written + int m, s1, repeated k chunk @ take m chunk)
         else stream_time chunk (recording put) (apfst flush) (clock \<circ> fst) stop_at (written + int m)
           (flush s1, repeated k chunk @ take m chunk))"
      using True rec w by (subst stream_time.simps) simp
    show ?thesis
    proof (cases e)
      case True
      with time stream got repeated_prefix show ?thesis by (intro exI conjI) auto
    next
      case False
      then have whole: "m = length chunk" using write_full [of writeChunk s m s1] p assms(1) by simp
      have tick: "clock s < clock s1" using write_tick [of writeChunk s m s1] p False by simp
      have next_written: "written + int m = int (Suc k * length chunk)" using less.prems(2) whole by simp
      have "deadline (flush s1) = Some (stop_at + grace)"
        using write_keeps [OF p] less.prems(1) by (simp add: flush_deadline)
      moreover have "int writeChunk * (stop_at - clock s1) + int writeChunk \<le> int writeChunk * (stop_at - clock s)"
        using tick by (simp add: writeChunk_def)
      ultimately obtain w s' got where "time_loop put flush clock stop_at (written + int m) (flush s1) = Some (w, s')"
        "stream_time chunk (recording put) (apfst flush) (clock \<circ> fst) stop_at (written + int m)
          (flush s1, repeated (Suc k) chunk) = Some (w, s', got)"
        "int (length got) = w" "\<exists>j. prefix got (repeated j chunk)"
        using less.hyps [of "flush s1" "written + int m" "Suc k"] next_written tick True m room less.prems(3)
        by (auto simp: flush_clock)
      with time stream False whole show ?thesis by auto
    qed
  qed
qed

end

lemma downloadBySize_bytes:
  assumes "int (length buffer) = payloadSize" and "0 \<le> want" and "want \<le> 2 ^ 62"
  shows "\<exists>n sw' got. downloadBySize want sw = Some (n, sw') \<and> downloadBySize_data buffer want sw = Some (Inr (n, sw', got)) \<and>
    int (length got) = n \<and> (\<exists>j. prefix got (repeated j buffer))"
  using sw.stream_size_effect [OF assms(1), of 0 0 want "sw_Header_Set ''Content-Length'' (Itoa want) sw"] assms(2,3)
  by (simp add: downloadBySize_def downloadBySize_data_def intStr_def)

lemma downloadByTime_bytes:
  assumes "int (length buffer) = payloadSize" and "d \<le> 2 ^ 46"
  shows "\<exists>n sw' got. downloadByTime d sw = Some (n, sw') \<and> downloadByTime_data buffer d sw = Some (Inr (n, sw', got)) \<and>
    int (length got) = n \<and> (\<exists>j. prefix got (repeated j (take writeChunk buffer)))"
proof -
  define sw0 where "sw0 = sw_SetWriteDeadline (sw_now sw + d + writeDeadlineGrace) sw"
  define chunk where "chunk = take writeChunk buffer"
  have sw0: "write_deadline (inner sw0) = Some (sw_now sw + d + writeDeadlineGrace)" "sw_now sw0 = sw_now sw"
    by (simp_all add: sw0_def sw_SetWriteDeadline_def conn_SetWriteDeadline_def sw_now_def)
  have len: "writeChunk \<le> length buffer" using assms(1) by (simp add: payloadSize_def writeChunk_def)
  then have chunk: "length chunk = writeChunk" "slice buffer (int writeChunk) = Inr chunk"
    by (simp_all add: chunk_def slice_def)
  have "int writeChunk * d < 2 ^ 63" using assms(2) by (simp add: writeChunk_def)
  then obtain w s' got where
    "time_loop sw_Write sw_Flush sw_now (sw_now sw + d) 0 sw0 = Some (w, s')"
    "stream_time chunk (recording sw_Write) (apfst sw_Flush) (sw_now \<circ> fst) (sw_now sw + d) 0 (sw0, []) = Some (w, s', got)"
    "int (length got) = w" "\<exists>j. prefix got (repeated j chunk)"
    using sw.stream_time_effect [OF chunk(1), of sw0 "sw_now sw + d" writeDeadlineGrace 0 0] sw0 by auto
  then show ?thesis
    by (simp add: downloadByTime_def downloadByTime_data_def chunk(2) Let_def flip: sw0_def chunk_def)
qed

section \<open>Properties\<close>

text \<open>C31: a download sends the random buffer: for every buffer the start of the process can have filled,
  every configuration and request, and whatever the network does, no slice of the buffer is out of range,
  the loops with their bytes do exactly what the counting loops do, and the bytes on the wire are
  as many as are reported and are the buffer, or in time mode its first 64 KB, repeated.\<close>

theorem download_sends_buffer:
  assumes "init_payload rand_Read = Some buffer" and "fills rand_Read" and "wf_config c"
    and "timed c r \<Longrightarrow> download_duration c r \<le> 2 ^ 46"
  shows "\<exists>n sw' got. download_stream c r sw = Some (n, sw') \<and> download_data buffer c r sw = Some (Inr (n, sw', got)) \<and>
    int (length got) = n \<and>
    (\<exists>j. prefix got (repeated j (if timed c r then take writeChunk buffer else buffer)))"
proof -
  have len: "int (length buffer) = payloadSize"
    using assms(1,2) by (auto simp: init_payload_def fills_def payloadSize_def)
  show ?thesis
  proof (cases "timed c r")
    case True
    with downloadByTime_bytes [OF len assms(4)] show ?thesis
      by (simp add: timed_def download_stream_def download_data_def)
  next
    case False
    have "download_stream c r sw = downloadBySize (download_bytes c r) sw"
      "download_data buffer c r sw = downloadBySize_data buffer (download_bytes c r) sw"
      using False by (auto simp: timed_def download_stream_def download_data_def)
    with False downloadBySize_bytes [OF len, of "download_bytes c r" sw] download_bytes_range [OF assms(3), of r]
    show ?thesis by simp
  qed
qed

theorem download_sends_buffer_witness:
  "\<exists>n sw' got. download_data (replicate (nat payloadSize) 7) defaults (demo_request MethodGet [] [])
      (new_statusWriter slow_conn) = Some (Inr (n, sw', got)) \<and> int (length got) = n \<and> set got \<subseteq> {7}"
proof -
  let ?rand = "\<lambda>n. Some (replicate n (7 :: 8 word))" and ?buffer = "replicate (nat payloadSize) (7 :: 8 word)"
  let ?r = "demo_request MethodGet [] []"
  have init: "init_payload ?rand = Some ?buffer" "fills ?rand" by (simp_all add: init_payload_def fills_def)
  have dur: "download_duration defaults ?r \<le> 2 ^ 46" by (simp add: demo_duration Second_def)
  obtain n sw' got j where run: "download_data ?buffer defaults ?r (new_statusWriter slow_conn) = Some (Inr (n, sw', got))"
    "int (length got) = n" and pre: "prefix got (repeated j (if timed defaults ?r then take writeChunk ?buffer else ?buffer))"
    using download_sends_buffer [OF init wf_defaults dur, of "new_statusWriter slow_conn"] by blast
  have "set got \<subseteq> {7}"
    using set_mono_prefix [OF pre] by (auto simp: repeated_def dest!: in_set_takeD split: if_splits)
  with run show ?thesis by blast
qed

end
