(* ===== verification/Request_Metrics.thy ===== *)
theory Request_Metrics
  imports Concurrent_Safe
begin

text \<open>
  What \<open>/metrics\<close> says about the requests, while they run concurrently: \<open>http_requests_total\<close> has one count
  for each request that has returned, under the method, path and status that its access log entry has,
  as long as the vector accepts them as labels.
\<close>

section \<open>The vector and the access log\<close>

definition counted :: "('db, 'b) handler \<Rightarrow> bool" where
  "counted h \<longleftrightarrow> metrics (tests h) \<noteq> None"

definition requests_seen :: "('db, 'b) handler \<Rightarrow> ((string \<times> string \<times> string) \<times> int) list" where
  "requests_seen h = (case metrics (tests h) of None \<Rightarrow> [] | Some m \<Rightarrow> httpRequestsTotal m)"

definition log_labels :: "access_log \<Rightarrow> string \<times> string \<times> string" where
  "log_labels entry = (l_method entry, l_path entry, Itoa (l_status entry))"

definition due_count :: "('db, 'b, 'r) libs \<Rightarrow> (conn \<times> access_log) option \<Rightarrow> ((string \<times> string \<times> string) \<times> int) list" where
  "due_count l x = (case x of None \<Rightarrow> [] | Some (c, entry) \<Rightarrow> if countable l entry then [(log_labels entry, 1)] else [])"

section \<open>The steps of a request on the registry\<close>

text \<open>The calls that no vector panics on: the label values of its declaration and an amount that is not negative.\<close>

definition acceptable :: "('db, 'b, 'r) libs \<Rightarrow> metricsRegistry \<Rightarrow> bool" where
  "acceptable l m \<longleftrightarrow>
     list_all (\<lambda>(k, v). k \<in> {''accepted'', ''rejected''} \<and> 0 \<le> v) (totalTests m) \<and>
     list_all (\<lambda>(k, v). k \<in> {''up'', ''down''} \<and> 0 \<le> v) (bytesTransferred m) \<and>
     list_all (\<lambda>((meth, path, code), v). list_all (label_ok l) [meth, path, code] \<and> 0 \<le> v) (httpRequestsTotal m)"

definition registry_step :: "('db, 'b, 'r) libs \<Rightarrow> metricsRegistry \<Rightarrow> metricsRegistry \<Rightarrow> bool" where
  "registry_step l m m' \<longleftrightarrow>
     prefix (totalTests m) (totalTests m') \<and> prefix (bytesTransferred m) (bytesTransferred m') \<and>
     prefix (testDuration m) (testDuration m') \<and> prefix (httpRequestsTotal m) (httpRequestsTotal m') \<and>
     (acceptable l m \<longrightarrow> acceptable l m')"

definition metrics_step :: "('db, 'b, 'r) libs \<Rightarrow> ('db, 'b) handler \<Rightarrow> ('db, 'b) handler \<Rightarrow> bool" where
  "metrics_step l h h' \<longleftrightarrow> rel_option (registry_step l) (metrics (tests h)) (metrics (tests h'))"

text \<open>The steps of the handlers do not count the request itself.\<close>

definition handler_step :: "('db, 'b, 'r) libs \<Rightarrow> ('db, 'b) handler \<Rightarrow> ('db, 'b) handler \<Rightarrow> bool" where
  "handler_step l h h' \<longleftrightarrow> metrics_step l h h' \<and> requests_seen h' = requests_seen h"

lemma registry_step_refl [simp]: "registry_step l m m"
  by (simp add: registry_step_def)

lemma metrics_step_refl [simp]: "metrics_step l h h"
  by (simp add: metrics_step_def option.rel_refl)

lemma metrics_step_trans: "metrics_step l h h1 \<Longrightarrow> metrics_step l h1 h2 \<Longrightarrow> metrics_step l h h2"
  by (cases "metrics (tests h)"; cases "metrics (tests h1)"; cases "metrics (tests h2)")
     (auto simp: metrics_step_def registry_step_def intro: prefix_order.trans)

lemma metrics_step_same: "metrics (tests h') = metrics (tests h) \<Longrightarrow> metrics_step l h h'"
  by (simp add: metrics_step_def option.rel_refl)

lemma registry_step_calls:
  "registry_step l m (recordAdmission b m)"
  "d \<in> {''up'', ''down''} \<Longrightarrow> registry_step l m (reg_ObserveTest d n t m)"
  "list_all (label_ok l) [meth, path, code] \<Longrightarrow> registry_step l m (observeRequest meth path code m)"
  by (auto simp: registry_step_def acceptable_def recordAdmission_def reg_ObserveTest_def observeRequest_def Let_def)

lemma handler_step_same: "metrics (tests h') = metrics (tests h) \<Longrightarrow> handler_step l h h'"
  by (simp add: handler_step_def metrics_step_same requests_seen_def)

lemma handler_step_call:
  "(\<And>m. registry_step l m (f m) \<and> httpRequestsTotal (f m) = httpRequestsTotal m) \<Longrightarrow>
     handler_step l h (on_tests (with_metrics f) h)"
  by (cases "metrics (tests h)") (simp_all add: handler_step_def metrics_step_def requests_seen_def on_tests_def)

lemma handler_step_simps [simp]:
  "handler_step l h h" "handler_step l h (on_tests reserve h)" "handler_step l h (on_tests release h)"
  "handler_step l h (on_tests count_accepted h)" "handler_step l h (on_tests count_rejected h)"
  "handler_step l h (h\<lparr>h_store := st\<rparr>)" "handler_step l h (h\<lparr>limiter := rl\<rparr>)" "handler_step l h (h\<lparr>h_geoip := g\<rparr>)"
  by (simp_all add: handler_step_same on_tests_def reserve_def release_def count_accepted_def count_rejected_def)

lemma handler_step_calls [simp]:
  "handler_step l h (on_tests (with_metrics (recordAdmission b)) h)"
  "d \<in> {''up'', ''down''} \<Longrightarrow> handler_step l h (on_tests (ObserveTest d n t) h)"
  unfolding ObserveTest_def
  by (intro handler_step_call conjI registry_step_calls(1), simp add: recordAdmission_def,
      intro handler_step_call conjI registry_step_calls(2), simp_all add: reg_ObserveTest_def Let_def)

lemma step_reply [simp]: "each_step (handler_step l) (go_reply l' rep sw)"
  by (simp add: go_reply_def)

lemma step_acquire [simp]: "each_step (handler_step l) go_acquire"
  by (auto simp: go_acquire_def intro!: each_step_modify)

lemma step_finish:
  "d \<in> {''up'', ''down''} \<Longrightarrow> each_step (handler_step l) p \<Longrightarrow> each_step (handler_step l) (go_finish d n t p)"
  unfolding go_finish_def by (intro each_step_modify handler_step_calls) simp_all

lemma step_db_call:
  "each_step (handler_step l) missing \<Longrightarrow> (\<And>x. each_step (handler_step l) (k x)) \<Longrightarrow> each_step (handler_step l) (db_call f missing k)"
  by (simp add: db_call_def split: option.split)

lemma step_on_limiter:
  "each_step (handler_step l) missing \<Longrightarrow> (\<And>x. each_step (handler_step l) (k x)) \<Longrightarrow> each_step (handler_step l) (on_limiter f missing k)"
  by (simp add: on_limiter_def split: option.split)

lemmas steps = each_step_look each_step_and_then step_finish step_db_call step_on_limiter

lemma step_download: "each_step (handler_step l) (go_download l' r sw)"
  by (auto simp: go_download_def Let_def intro!: steps split: option.split)

lemma step_upload: "each_step (handler_step l) (go_upload l' r sw)"
  by (auto simp: go_upload_def Let_def intro!: steps split: option.split)

lemma step_results:
  "each_step (handler_step l) (go_list l' r sw)" "each_step (handler_step l) (go_create l' r sw)"
  "each_step (handler_step l) (go_export l' r sw)"
  by (auto simp: go_list_def go_create_def go_export_def Let_def intro!: steps split: option.split)

lemma step_serve: "each_step (handler_step l) (go_serve l' rt r sw)"
  by (cases rt) (auto simp: go_health_def go_metrics_def step_download step_upload step_results intro!: steps)

lemma step_RateLimit: "each_step (handler_step l) served \<Longrightarrow> each_step (handler_step l) (go_RateLimit l' t served r sw)"
  by (auto simp: go_RateLimit_def Let_def intro!: steps split: option.split)

text \<open>The last step of a request counts it.\<close>

lemma step_observe:
  assumes "\<And>ok. each_step (metrics_step l) (k ok)"
  shows "each_step (metrics_step l) (go_observe l r code k)"
proof -
  have "metrics_step l h (case ObserveRequest (label_ok l) (Method r) (Path r) (Itoa code) (tests h) of
      None \<Rightarrow> h | Some a \<Rightarrow> h\<lparr>tests := a\<rparr>)" for h :: "('a, 'b) handler"
  proof (cases "ObserveRequest (label_ok l) (Method r) (Path r) (Itoa code) (tests h)")
    case (Some a)
    with ObserveRequest_Some [OF Some] registry_step_calls(3) [of l "Method r" "Path r" "Itoa code"] show ?thesis
      by (cases "metrics (tests h)") (auto simp: metrics_step_def)
  qed simp
  with assms show ?thesis by (simp add: go_observe_def Let_def)
qed

lemma request_steps:
  assumes "fresh_request l p"
  shows "each_step (metrics_step l) p"
proof -
  obtain i escaped r c where p: "p = go_ServeHTTP l i escaped r c"
    using assms by (auto simp: fresh_request_def)
  have "each_step (metrics_step l) (go_RateLimit l t (go_serve l rt r sw) r sw)" for t rt sw
    using step_RateLimit [OF step_serve [of l]] by (rule each_step_mono) (simp add: handler_step_def)
  then show ?thesis
    unfolding p go_ServeHTTP_def Let_def by (auto intro!: each_step_and_then step_observe split: option.split)
qed

section \<open>What a request reports\<close>

lemma observe_counts:
  assumes "counted h"
  shows "ObserveRequest acc m p s (tests h) = None \<longleftrightarrow> \<not> list_all acc [m, p, s]"
    and "ObserveRequest acc m p s (tests h) = Some a \<Longrightarrow>
      counted (h\<lparr>tests := a\<rparr>) \<and> requests_seen (h\<lparr>tests := a\<rparr>) = requests_seen h @ [((m, p, s), 1)] \<and> list_all acc [m, p, s]"
  using assms by (auto simp: requests_seen_def counted_def ObserveRequest_None observeRequest_def dest!: ObserveRequest_Some)

text \<open>Counting is the last step, and counts just what is due for the result.\<close>

lemma reports_observe:
  assumes "\<And>ok. \<exists>x. k ok = Return x \<and> due_count l x =
    (if list_all (label_ok l) [Method r, Path r, Itoa code] then [((Method r, Path r, Itoa code), 1)] else [])"
  shows "reports counted requests_seen (due_count l) (go_observe l r code k) \<and> due_of (due_count l) (go_observe l r code k) = []"
proof -
  have "reports counted requests_seen (due_count l) (k ok)" for ok using assms [of ok] by auto
  moreover have "due_of (due_count l) (k ok) =
      (if list_all (label_ok l) [Method r, Path r, Itoa code] then [((Method r, Path r, Itoa code), 1)] else [])" for ok
    using assms [of ok] by auto
  ultimately show ?thesis
    unfolding go_observe_def Let_def
    by (auto simp: observe_counts split: option.split dest!: observe_counts(2) [rotated])
qed

lemma silent_request: "silent counted requests_seen (go_RateLimit l t (go_serve l rt r sw) r sw)"
proof (rule silent_each_step [OF step_RateLimit [OF step_serve [of l]]])
  show "handler_step l h h' \<Longrightarrow> counted h \<Longrightarrow> counted h' \<and> requests_seen h' = requests_seen h" for h h' :: "('a, 'b) handler"
    by (cases "metrics (tests h')") (auto simp: handler_step_def metrics_step_def counted_def)
qed

lemma request_reports:
  assumes "fresh_request l p"
  shows "reports counted requests_seen (due_count l) p \<and> due_of (due_count l) p = []"
proof -
  obtain i escaped r c where p: "p = go_ServeHTTP l i escaped r c"
    using assms by (auto simp: fresh_request_def)
  have "reports counted requests_seen (due_count l) (go_observe l r (sw_status sw) (\<lambda>counted.
        Return (Some (if counted then conn_finish (inner sw) else conn_drop (inner sw), log_entry i (now c) r sw n)))) \<and>
      due_of (due_count l) (go_observe l r (sw_status sw) (\<lambda>counted.
        Return (Some (if counted then conn_finish (inner sw) else conn_drop (inner sw), log_entry i (now c) r sw n)))) = []" for sw n
    by (rule reports_observe) (simp add: due_count_def countable_def log_labels_def log_entry_def)
  then show ?thesis
    unfolding p go_ServeHTTP_def Let_def
    by (intro reports_and_then silent_request) (simp add: due_count_def split: option.split)
qed

lemma event_counted: "server_event h h' \<Longrightarrow> counted h \<Longrightarrow> counted h' \<and> requests_seen h' = requests_seen h"
  by (induction rule: server_event.induct) (simp_all add: counted_def requests_seen_def)

lemma event_step: "server_event h h' \<Longrightarrow> metrics_step l h h'"
  by (induction rule: server_event.induct) (simp_all add: metrics_step_same)

section \<open>Properties\<close>

definition returned_with :: "string \<times> string \<times> string \<Rightarrow> ('db, 'b, (conn \<times> access_log) option) srv_go \<Rightarrow> bool" where
  "returned_with k p \<longleftrightarrow> (\<exists>c entry. p = Return (Some (c, entry)) \<and> log_labels entry = k)"

lemma due_value:
  "sum_mset (image_mset snd (filter_mset (\<lambda>(j, _). j = (meth, path, code)) (mset (due_of (due_count l) p)))) =
     (if list_all (label_ok l) [meth, path, code] \<and> returned_with (meth, path, code) p then 1 else 0)"
proof (cases p)
  case (Return x)
  then show ?thesis
    by (cases x) (auto simp: due_count_def returned_with_def countable_def log_labels_def)
qed (simp add: returned_with_def)

lemma counter_reported:
  assumes "mset counts = reported (due_count l) ps"
  shows "counter_value counts (meth, path, code) =
    (if list_all (label_ok l) [meth, path, code] then int (cnt (returned_with (meth, path, code)) ps) else 0)"
proof -
  let ?k = "(meth, path, code)"
  have "counter_value counts ?k = sum_mset (image_mset snd (filter_mset (\<lambda>(j, _). j = ?k) (mset counts)))"
    unfolding counter_value_def by (simp flip: sum_mset_sum_list mset_map mset_filter)
  also have "\<dots> = (if list_all (label_ok l) [meth, path, code] then int (cnt (returned_with ?k) ps) else 0)"
    unfolding assms
  proof (induction ps)
    case (Cons p ps)
    then show ?case using due_value [of meth path code l p] by (simp add: reported_def cnt_def)
  qed (simp add: reported_def cnt_def)
  finally show ?thesis .
qed

text \<open>C9: the metrics agree with the access log, and with the clients, in every state of the concurrent server:
  under every method, path and status that are labels, \<open>http_requests_total\<close> is the number of requests that have
  returned and were logged with them, and the status is the one the client got; requests in flight are not
  counted yet, no request is counted twice, and one that has a label the vector does not accept is never counted.\<close>

theorem metrics_match_access_log:
  assumes "srv_init contents ok l h0" and "server_run l h0 s"
  shows "\<exists>m. metrics (tests (shared s)) = Some m \<and>
    (\<forall>meth path code. counter_value (httpRequestsTotal m) (meth, path, code) =
       (if list_all (label_ok l) [meth, path, code] then int (cnt (returned_with (meth, path, code)) (gos s)) else 0)) \<and>
    (\<forall>c entry. lib_replies l \<longrightarrow> Return (Some (c, entry)) \<in> set (gos s) \<longrightarrow> countable l entry \<longrightarrow>
       client_status c = Some (l_status entry))"
proof -
  have "counted h0" "requests_seen h0 = []"
    using assms(1) by (auto simp: srv_init_def counted_def requests_seen_def buildMux_def New_def new_admission_def
        newMetricsRegistry_def Let_def)
  then have "records counted requests_seen (due_count l) {#} \<lparr>shared = h0, gos = []\<rparr>"
    by (simp add: records_def reported_def)
  from records_run [OF assms(2) [unfolded server_run_def] this request_reports [where l = l] event_counted]
  have "counted (shared s)" and "mset (requests_seen (shared s)) = reported (due_count l) (gos s)"
    by (simp_all add: records_def)
  then obtain m where m: "metrics (tests (shared s)) = Some m" "mset (httpRequestsTotal m) = reported (due_count l) (gos s)"
    by (auto simp: counted_def requests_seen_def)
  have "client_status c = Some (l_status entry)"
    if "lib_replies l" "Return (Some (c, entry)) \<in> set (gos s)" "countable l entry" for c entry
    using proc_inv_facts(3) [OF server_run_inv [OF assms] that(2)] that(1,3) by (auto simp: answered_def split: if_splits)
  with m counter_reported [OF m(2)] show ?thesis by blast
qed

theorem metrics_match_access_log_witness:
  "\<exists>t m. sched\<^sup>*\<^sup>* demo_process t \<and> (\<nexists>u. sched t u) \<and> metrics (tests (shared t)) = Some m \<and>
     (\<forall>code. counter_value (httpRequestsTotal m) (''POST'', ''/'', Itoa code) =
        int (cnt (returned_with (''POST'', ''/'', Itoa code)) (gos t)))"
proof -
  obtain t where t: "sched\<^sup>*\<^sup>* demo_process t" "\<forall>u. \<not> sched t u" using sched_normalises by blast
  have "list_all (label_ok demo_libs) [''POST'', ''/'', Itoa code]" for code
    by (auto simp: demo_libs_def utf8_Itoa byte_of_def intro!: utf8_ascii)
  with t metrics_match_access_log [OF demo_init server_run_sched [OF demo_run t(1)]] show ?thesis by auto
qed

end
