(* ===== verification/Exposition.thy ===== *)
theory Exposition
  imports Request_Metrics
begin

text \<open>
  The collectors of \<open>metrics_handler.go\<close> as they are declared, and what a scrape of \<open>/metrics\<close> can rely on.
  The collectors themselves are the Prometheus client library: used here are its documented conditions for
  declarations and label values (it panics otherwise), that a counter is the sum of what was added, and
  that the buckets of a histogram are cumulative. The text format is the library's.
\<close>

section \<open>The declarations\<close>

definition durationBuckets :: "rat list" where
  "durationBuckets = [1 / 2, 1, 5 / 2, 5, 10, 15, 30, 60, 120]"

datatype metric_kind = GaugeFunc | CounterVec "string list" | Histogram "rat list"

record collector =
  Name :: string
  Help :: string
  metric :: metric_kind

text \<open>In the order of \<open>MustRegister\<close>.\<close>

definition collectors :: "collector list" where
  "collectors =
     [\<lparr>Name = ''speedtest_active_tests'',
       Help = ''Number of speed-test slots currently held in the concurrency semaphore.'', metric = GaugeFunc\<rparr>,
      \<lparr>Name = ''speedtest_total_tests_total'',
       Help = ''Speed-test attempts partitioned by admission outcome (accepted/rejected).'', metric = CounterVec [''status'']\<rparr>,
      \<lparr>Name = ''speedtest_bytes_transferred_total'',
       Help = ''Total bytes streamed during speed tests, partitioned by direction (up/down).'', metric = CounterVec [''direction'']\<rparr>,
      \<lparr>Name = ''speedtest_test_duration_seconds'',
       Help = ''Wall-clock duration of a single download or upload test.'', metric = Histogram durationBuckets\<rparr>,
      \<lparr>Name = ''speedtest_http_requests_total'',
       Help = ''Total HTTP requests processed, partitioned by method, path and status.'',
       metric = CounterVec [''method'', ''path'', ''status'']\<rparr>]"

text \<open>The conditions under which neither the constructors nor \<open>MustRegister\<close> panic.\<close>

definition name_char :: "char \<Rightarrow> bool" where
  "name_char c \<longleftrightarrow> CHR ''a'' \<le> c \<and> c \<le> CHR ''z'' \<or> CHR ''A'' \<le> c \<and> c \<le> CHR ''Z'' \<or> c = CHR ''_''"

definition digit_or_name_char :: "char \<Rightarrow> bool" where
  "digit_or_name_char c \<longleftrightarrow> name_char c \<or> CHR ''0'' \<le> c \<and> c \<le> CHR ''9''"

fun metric_name :: "string \<Rightarrow> bool" where
  "metric_name [] \<longleftrightarrow> False"
| "metric_name (c # cs) \<longleftrightarrow> name_char c \<and> list_all digit_or_name_char cs"

definition label_name :: "string \<Rightarrow> bool" where
  "label_name s \<longleftrightarrow> metric_name s \<and> take 2 s \<noteq> ''__''"

fun kind_ok :: "metric_kind \<Rightarrow> bool" where
  "kind_ok GaugeFunc \<longleftrightarrow> True"
| "kind_ok (CounterVec ls) \<longleftrightarrow> list_all label_name ls \<and> distinct ls"
| "kind_ok (Histogram bs) \<longleftrightarrow> bs \<noteq> [] \<and> sorted_wrt (<) bs"

definition registrable :: "collector list \<Rightarrow> bool" where
  "registrable cs \<longleftrightarrow> distinct (map Name cs) \<and> list_all (\<lambda>c. metric_name (Name c) \<and> kind_ok (metric c)) cs"

lemma collectors_registrable: "registrable collectors"
  by code_simp

section \<open>The samples\<close>

text \<open>\<open>Observe(elapsed.Seconds())\<close> counts in every bucket whose bound is not below the value.\<close>

definition bucket_count :: "rat \<Rightarrow> metricsRegistry \<Rightarrow> nat" where
  "bucket_count bound m = length (filter (\<lambda>d. of_int d \<le> bound * of_int Second) (testDuration m))"

lemma bucket_mono: "b \<le> b' \<Longrightarrow> bucket_count b m \<le> bucket_count b' m"
proof -
  assume "b \<le> b'"
  then have "b * of_int Second \<le> b' * of_int Second" by (intro mult_right_mono) (simp_all add: Second_def)
  then have "filter (\<lambda>d. of_int d \<le> b * of_int Second) xs =
      filter (\<lambda>d. of_int d \<le> b * of_int Second) (filter (\<lambda>d. of_int d \<le> b' * of_int Second) xs)" for xs :: "int list"
    by (induction xs) auto
  then show ?thesis unfolding bucket_count_def by (metis length_filter_le)
qed

lemma buckets_cumulative: "sorted_wrt (<) bs \<Longrightarrow> sorted_wrt (\<le>) (map (\<lambda>b. bucket_count b m) bs)"
  by (induction bs) (auto intro!: bucket_mono simp: less_imp_le)

lemma bucket_prefix: "prefix (testDuration m) (testDuration m') \<Longrightarrow> bucket_count b m \<le> bucket_count b m'"
  by (auto simp: bucket_count_def prefix_def)

lemma counter_prefix:
  assumes "prefix xs ys" and "\<forall>(k, v) \<in> set ys. 0 \<le> v"
  shows "counter_value xs k \<le> counter_value ys k"
proof -
  obtain zs where ys: "ys = xs @ zs" using assms(1) by (auto simp: prefix_def)
  have "0 \<le> counter_value zs k"
    unfolding counter_value_def using assms(2) ys by (intro sum_list_nonneg) auto
  then show ?thesis by (simp add: ys counter_value_def)
qed

lemma acceptable_new: "acceptable l newMetricsRegistry"
  by (simp add: acceptable_def newMetricsRegistry_def)

lemma acceptable_amounts:
  assumes "acceptable l m"
  shows "\<forall>(k, v) \<in> set (totalTests m). 0 \<le> v" and "\<forall>(k, v) \<in> set (bytesTransferred m). 0 \<le> v"
    and "\<forall>(k, v) \<in> set (httpRequestsTotal m). 0 \<le> v"
  using assms by (auto simp: acceptable_def list_all_iff)

section \<open>The registry over a run\<close>

lemma run_metrics:
  assumes "(go_step (fresh_request l) server_event)\<^sup>*\<^sup>* s t" and "list_all (each_step (metrics_step l)) (gos s)"
  shows "metrics_step l (shared s) (shared t) \<and> list_all (each_step (metrics_step l)) (gos t)"
  by (rule each_step_run [OF assms]) (auto intro: metrics_step_trans request_steps event_step)

lemma tests_observed:
  assumes "requests_inv contents ok l s" and "metrics (tests (shared s)) = Some m"
  shows "int (length (testDuration m)) \<le> counter_value (totalTests m) ''accepted''"
  using assms(1)
proof (rule proc_invE)
  fix gs
  assume "server_inv contents ok l (shared s) gs"
  then have "reg_inv (map fst gs) m" using assms(2) by (auto simp: server_inv_def sem_inv_def)
  moreover have "cnt tested ps \<le> cnt recorded_in ps" for ps
    by (induction ps) (auto simp: cnt_def pc_classes)
  ultimately show ?thesis by (simp add: reg_inv_def)
qed

section \<open>Properties\<close>



end
