(* ===== verification/Spec2Isabelle.thy ===== *)
theory Spec2Isabelle
  imports Lifecycle Payload Exposition
begin

text \<open>
  speedtest-go: a self-hosted network speed test. One Go process serves a web page, streams random bytes
  to the browser and swallows the bytes the browser sends, keeps a history of results in SQLite, and can
  look up the location of an address in a MaxMind database it keeps fresh in the background. This
  development models the Go code under \<open>src/\<close> (\<open>main.go\<close> and \<open>internal/\<close>); the JavaScript in
  \<open>src/static\<close> is not part of it.

  \<^bold>\<open>How a request travels.\<close> \<open>main\<close> loads a configuration, opens what is optional, and builds
  \<open>loggingMiddleware (RateLimit (mux))\<close>. The access log wraps the connection in a \<open>statusWriter\<close> and the
  body in a \<open>countingReader\<close>; the rate limiter asks the token bucket of the client's address on three
  paths; the mux picks a handler; download and upload take a slot of the semaphore, stream, report to the
  metrics and give the slot back. \<open>server_ServeHTTP\<close> is that whole chain as one function on the handler's
  state and the connection.

  \<^bold>\<open>The theories\<close>, in the order they build on each other:
  \<^item> \<open>Go_Prelude\<close>: 64-bit arithmetic with wrap-around (\<open>i64\<close>), bytes and strings, \<open>strconv\<close>, \<open>strings\<close>,
    \<open>path/filepath\<close>, counting in lists, and the locale \<open>machine\<close> (an invariant of a step relation) that
    every concurrent or long-running part interprets. \<open>Go_Float\<close>: \<open>float64\<close> with its special values.
    \<open>Go_Json\<close>: JSON values and the decoding into structs. \<open>Http\<close>: requests and replies.
  \<^item> \<open>Config\<close>, \<open>Config_Load\<close> (\<open>internal/config/config.go\<close>): the defaults, the layers file, environment and
    flags, the flag parser of the \<open>flag\<close> package, \<open>LoadWithSources\<close> and the older \<open>Load\<close>. Shown: ranges,
    precedence field by field, errors of the file, where durations overflow, and where \<open>Load\<close> agrees.
  \<^item> \<open>Net_IP\<close>, \<open>Client_IP\<close> (\<open>ClientIP\<close> in \<open>handler.go\<close>): addresses as 16 bytes with \<open>net.ParseIP\<close> and
    \<open>IP.String\<close>; the address of a client cannot be forged from outside.
  \<^item> \<open>Go_IO\<close>: readers as a locale with three stacked interpretations (body, \<open>countingReader\<close>,
    \<open>http.MaxBytesReader\<close>) and \<open>io.Copy\<close> into nothing, which always ends. \<open>Response\<close>: the connection with
    its clock, deadline and faults, the \<open>statusWriter\<close> of \<open>main.go\<close>, and the locale \<open>timed_writer\<close>.
  \<^item> \<open>Admission\<close> (\<open>acquire\<close>, \<open>release\<close> in \<open>handler.go\<close>, \<open>metrics_handler.go\<close>): semaphore, counters and
    registry, as operations and as the atomic steps of concurrent requests.
  \<^item> \<open>Geoip\<close> (\<open>geoip.go\<close>), \<open>Geo_Holder\<close> (\<open>LocateIP\<close>, \<open>SetGeoIP\<close>, \<open>CloseGeoIP\<close> behind the lock, as steps of
    concurrent calls), \<open>Updater\<close> (\<open>updater.go\<close>: a tick over a file system as a map, with the faults of every
    system call and panics in its environment, and the life of the updater as steps).
  \<^item> \<open>Store\<close> (\<open>store.go\<close>, \<open>store_sqlite.go\<close>): the statements the code sends, their meaning on a table, the
    operations on top, and the contract \<open>result_store\<close> they refine. \<open>Csv\<close>: the writer of \<open>encoding/csv\<close>,
    \<open>csvSafe\<close>, and a reader. \<open>Results\<close> (\<open>results_handler.go\<close>).
  \<^item> \<open>Ratelimit\<close> (\<open>ratelimit_handler.go\<close>): the map of buckets with its collector, for any token bucket.
  \<^item> \<open>Handler\<close> (\<open>handler.go\<close>, \<open>health_handler.go\<close>): the handler's state and the endpoints. \<open>Speed_Tests\<close>:
    what downloads and uploads guarantee. \<open>Payload\<close> (\<open>init\<close> and the download loops of \<open>handler.go\<close>): the loops
    again with the slices of the random buffer they write, shown to be the counting loops of \<open>Handler\<close> and
    to put nothing but the buffer on the wire.
  \<^item> \<open>Mux\<close> (\<open>buildMux\<close>): routing by escaped segments, and that a redirect to a clean path ends there. \<open>Server\<close>,
    \<open>Access_Log\<close>, \<open>Requests\<close> (\<open>main.go\<close>): the chain, what the log says, one request and sequences of requests.
  \<^item> \<open>Goroutines\<close>: programs as trees of critical sections, the scheduler, and rely-guarantee reasoning
    (\<open>behaves\<close>: each section keeps the invariant and stays within the guarantee; the locale \<open>goroutines\<close>).
    \<open>Concurrent\<close>, \<open>Concurrent_Safe\<close>: the server as one goroutine per request; alone a goroutine is
    \<open>server_ServeHTTP\<close>, together they keep the invariants of all parts, only append to the history, own one row for
    each result they acknowledged, and finish under every schedule. \<open>Request_Metrics\<close>: the counts of \<open>/metrics\<close> are those of
    the access log in every state (\<open>reports\<close>: a goroutine writes the record with its last step only).
    \<open>Exposition\<close>: the collectors as they are declared, and that no counter or bucket ever goes down.
  \<^item> \<open>Boot\<close> (\<open>main\<close>): the start, and the shutdown in outline, with the number of requests in flight only.
    \<open>Lifecycle\<close> (\<open>main\<close> after the start): the shutdown goroutine, \<open>ListenAndServe\<close>, the ticks of the updater and the exit, run
    against the goroutines of the requests; it refines the outline (\<open>outline_step\<close>), so its invariant carries
    over, and with the guarantee of the requests it gives the durability of the history.
    This theory: the types of the replies, and the way from the command line to every answer and to the exit.

  \<^bold>\<open>Conventions.\<close> Go's \<open>int\<close>, \<open>int64\<close> and \<open>time.Duration\<close> are integers, with \<open>i64\<close> where a result can leave
  the range. A nil pointer or interface is \<open>None\<close>. A loop that might not end is a \<open>partial_function\<close> into
  \<open>option\<close> (\<open>Copy_discard\<close>, \<open>size_loop\<close>, \<open>time_loop\<close>), so that returning is something to prove, and is proved:
  no fuel is used anywhere but in \<open>csv_read\<close>, where the length of the text is enough. Times are nanoseconds;
  a connection has a list of what the network does to each write to come.

  \<^bold>\<open>Libraries as parameters\<close>, each with its documented behaviour as a named hypothesis and an instance that
  shows it can hold: the SQL engine (\<open>sqlite_laws\<close>, \<open>mem_engine\<close>), the token bucket of
  \<open>golang.org/x/time/rate\<close> (\<open>token_bucket\<close>, \<open>bucket_lib\<close>), the JSON text, float formats, the mmdb reader,
  gzip and tar, the Prometheus text and the file server (\<open>lib_replies\<close> and \<open>lib_statuses\<close>: complete replies, none
  of them a 201; \<open>demo_libs\<close>), and \<open>(*sql.DB).Close\<close> (\<open>close_law\<close>: it loses no row; \<open>closing_engine\<close>, which fails every
  statement once the database is closed). \<open>label_ok\<close> is the test of the Prometheus vectors on a label value (UTF-8),
  on whose failure \<open>WithLabelValues\<close> panics: such a request is logged, but not counted, and \<open>net/http\<close> drops its
  connection. \<open>answered\<close> says for every other request that the client got what the log says.

  \<^bold>\<open>Bounds.\<close> The time of a time-mode download is assumed below \<open>2 ^ 46\<close> nanoseconds (19 hours) where the
  number of bytes must not leave 64 bits; a request can ask for at most five minutes.

  \<^bold>\<open>Not modelled.\<close> The JavaScript, HTML and CSS; log lines other than the access log and the updater's; the
  text of \<open>printUsage\<close> beyond the flags it names; that the bytes of the payload are
  random; the text format of Prometheus (its collectors, the calls on them and
  the meaning of the samples are modelled); what a dropped connection still delivers; HTTP framing below \<open>http.ResponseWriter\<close>, so also
  \<open>OPTIONS *\<close>; cancellation of a store call by a client that leaves, which is one of the failures the engine
  may have. In \<open>Concurrent\<close> the steps between two accesses to shared state are one step, and a request has
  its own clock, so nothing is said about the order of the times of different requests; the read and the
  write lock of the geoip handle are taken apart in \<open>Geo_Holder\<close> and one step here.
\<close>

section \<open>The replies of the API\<close>

text \<open>
  The shapes a client of the API has to expect: a JSON object under its content type, an error envelope,
  the plain text of \<open>http.Error\<close>, a CSV file, the \<open>ok\<close> of the ping, or the empty body a listing falls
  back to when a number cannot be encoded.
\<close>

definition content_type :: "reply \<Rightarrow> string option" where
  "content_type rep = headers rep ''Content-Type''"

definition json_object :: "reply \<Rightarrow> bool" where
  "json_object rep \<longleftrightarrow> content_type rep = Some ''application/json'' \<and> (\<exists>fs. payload rep = Json (JObj fs))"

definition error_envelope :: "reply \<Rightarrow> bool" where
  "error_envelope rep \<longleftrightarrow> content_type rep = Some ''application/json'' \<and> (\<exists>m. payload rep = Json (JObj [(''error'', JStr m)]))"

definition plain_error :: "reply \<Rightarrow> bool" where
  "plain_error rep \<longleftrightarrow> content_type rep = Some ''text/plain; charset=utf-8'' \<and>
     headers rep ''X-Content-Type-Options'' = Some ''nosniff'' \<and> (\<exists>t. payload rep = Text t)"

definition typed_reply :: "reply \<Rightarrow> bool" where
  "typed_reply rep \<longleftrightarrow>
     (if status rep \<in> {200, 201}
      then json_object rep \<or> (\<exists>t. payload rep = Text t \<and>
             content_type rep \<in> {None, Some ''text/csv; charset=utf-8''} \<or> payload rep = Text [])
      else status rep \<in> {400, 405, 429, 500, 503} \<and> (error_envelope rep \<or> plain_error rep))"

lemma typed_http_Error [simp]: "code \<in> {400, 405, 429, 500, 503} \<Longrightarrow> typed_reply (http_Error h msg code)"
  by (auto simp: typed_reply_def http_Error_def plain_error_def content_type_def)

lemma typed_writeJSON [simp]: "typed_reply (writeJSON h (JObj fs))"
  by (simp add: typed_reply_def writeJSON_def json_object_def content_type_def status_codes)

lemma typed_writeErr [simp]: "code \<in> {400, 405, 429, 500, 503} \<Longrightarrow> typed_reply (writeErr code msg)"
  by (auto simp: typed_reply_def writeErr_def json_header_def error_envelope_def content_type_def)

lemma typed_errors [simp]:
  "typed_reply method_not_allowed" "typed_reply server_busy" "typed_reply internalErr" "typed_reply writeHistoryDisabled"
  "typed_reply (too_many d)" "typed_reply (created x)"
  by (simp_all add: method_not_allowed_def server_busy_def internalErr_def writeHistoryDisabled_def status_codes)
     (simp_all add: typed_reply_def too_many_def created_def json_header_def error_envelope_def json_object_def
      content_type_def status_codes)

lemma typed_encode [simp]: "typed_reply (encode_results h rs (JObj fs))"
  by (simp add: encode_results_def) (simp add: typed_reply_def status_codes)

lemma typed_small:
  "typed_reply (ConfigHandler h r)" "typed_reply (IPHandler r)" "typed_reply (PingHandler r)"
  "typed_reply (HealthHandler t h r)" "typed_reply (uploaded n ms tr)"
  by (simp_all add: ConfigHandler_def IPHandler_def PingHandler_def HealthHandler_def uploaded_def)
     (simp add: typed_reply_def no_store_def content_type_def status_codes)

lemma typed_upload: "UploadHandler h r el = Some (rep, h', n) \<Longrightarrow> typed_reply rep"
  by (auto simp: UploadHandler_def Let_def typed_small status_codes
      split: if_splits prod.splits option.splits read_end.splits)

lemma typed_results:
  assumes "ResultsListOrCreate dec pf fmt loc st g t s r = Some (rep, s')"
  shows "typed_reply rep"
proof -
  have "typed_reply (fst (listResults fmt st s r))"
    by (auto simp: listResults_def Let_def split: option.split prod.split)
  then show ?thesis
    using assms
    by (auto simp: ResultsListOrCreate_def createResult_def status_codes split: if_splits option.splits prod.splits)
qed

lemma typed_export: "typed_reply (fst (ResultsExport fj fc st ts s r))"
  by (auto simp: ResultsExport_def Let_def status_codes split: option.split prod.split)
     (simp_all add: typed_reply_def content_type_def)



section \<open>From the command line to the answers\<close>

lemma main_started:
  assumes "LoadWithSources stat open_file parse args env = Inr (c, opts)" and "\<not> ShowVersion opts"
    and "Duration c \<le> 2 ^ 46" and "sqlite_laws e tbl" and "store_lib l = sqlite_store e"
    and "\<And>db. connect (DBPath c) = Some db \<Longrightarrow>
      (case tbl db of None \<Rightarrow> True | Some tb \<Rightarrow> old_schema tb \<and> rows_ok tb) \<and> list_all result_bounds (stored_results tbl db)"
    and "main_start (Inr (c, opts)) build e connect readable t = Serving srv h u"
  shows "srv_init (stored_results tbl) (store_ok tbl) l h \<and> owns (h_geoip h) \<and> \<not> geoipClosed (h_geoip h) \<and>
    h_store h = open_history e connect t c"
proof -
  have wf: "wf_config c" by (rule load_wf [OF assms(1)])
  obtain g g0 where g: "open_geoip readable c = (g, g0)" by (cases "open_geoip readable c")
  have h: "h = buildMux c (open_history e connect t c) g build g0 t"
    using assms(2,7) g by (auto simp: main_start_def newServerWithStore_def)
  have geo: "owns (SetGeoIP g g0) \<and> \<not> geoipClosed (SetGeoIP g g0)"
    using g by (auto simp: open_geoip_def geoip0_def owns_def SetGeoIP_def Let_def split: if_splits)
  have "geoip g0 = None \<and> \<not> geoipClosed g0 \<and> (\<forall>x. g = Some x \<longrightarrow> x \<in> set (opened g0))"
    using g by (auto simp: open_geoip_def geoip0_def split: if_splits)
  moreover have "store_ok tbl db' \<and> list_all result_bounds (stored_results tbl db')"
    if o: "open_history e connect t c = Some db'" for db'
  proof -
    obtain db where db: "connect (DBPath c) = Some db"
      using o by (auto simp: open_history_def Open_def split: if_splits option.splits)
    with assms(6) have a: "case tbl db of None \<Rightarrow> True | Some tb \<Rightarrow> old_schema tb \<and> rows_ok tb"
      and b: "list_all result_bounds (stored_results tbl db)" by blast+
    from open_history_effect [OF wf assms(4) db a o] b show ?thesis
      by (auto simp: list_all_iff)
  qed
  ultimately have "srv_init (stored_results tbl) (store_ok tbl) l h"
    using h wf assms(3,5) sqlite_refines [OF assms(4)] unfolding srv_init_def by metis
  with geo h show ?thesis by simp
qed

text \<open>End to end: a process started from any command line, environment and configuration file that load, on any
  database file of the current or the older schema, serves: after any sequence of requests, database swaps
  and collections every further request is answered, no test slot is lost, and the history holds only
  results in range.\<close>

theorem main_serves:
  assumes "LoadWithSources stat open_file parse args env = Inr (c, opts)" and "\<not> ShowVersion opts"
    and "Duration c \<le> 2 ^ 46" and "sqlite_laws e tbl" and "store_lib l = sqlite_store e"
    and "\<And>db. connect (DBPath c) = Some db \<Longrightarrow>
      (case tbl db of None \<Rightarrow> True | Some tb \<Rightarrow> old_schema tb \<and> rows_ok tb) \<and> list_all result_bounds (stored_results tbl db)"
    and "main_start (Inr (c, opts)) build e connect readable t = Serving srv h0 u"
    and "(srv_step l)\<^sup>*\<^sup>* h0 h"
  shows "sem_len (tests h) = 0 \<and> (\<exists>h' k' entry. server_ServeHTTP l i escaped h r k = Some (h', k', entry)) \<and>
    (\<forall>db. h_store h = Some db \<longrightarrow> list_all result_bounds (stored_results tbl db))"
proof -
  have "srv_inv (stored_results tbl) (store_ok tbl) l h"
    by (rule srv.reach_inv [OF conjunct1 [OF main_started [OF assms(1-7)]] assms(8)])
  then show ?thesis using server_answer [of h l i escaped r k] by (auto simp: srv_inv_def)
qed

theorem main_serves_witness:
  "\<exists>h' k' entry. server_ServeHTTP demo_libs ''id'' ''/'' (buildMux demo_cfg None None demo_build geoip0 0) demo_post demo_conn = Some (h', k', entry)"
proof -
  have c: "DBPath demo_cfg \<noteq> []" "GeoIPDBPath demo_cfg = []" "Duration demo_cfg \<le> 2 ^ 46"
    by (simp_all add: demo_cfg_def defaults_def Second_def)
  have "\<exists>srv u. main_start (Inr (demo_cfg, \<lparr>ShowVersion = False\<rparr>)) demo_build mem_engine (\<lambda>_. None) (\<lambda>_. False) 0 =
      Serving srv (buildMux demo_cfg None None demo_build geoip0 0 :: (table option, bucket) handler) u"
    using c by (simp add: main_start_def newServerWithStore_def open_geoip_def open_history_def Open_def)
  then obtain srv u where m: "main_start (Inr (demo_cfg, \<lparr>ShowVersion = False\<rparr>)) demo_build mem_engine (\<lambda>_. None) (\<lambda>_. False) 0 =
      Serving srv (buildMux demo_cfg None None demo_build geoip0 0 :: (table option, bucket) handler) u" by blast
  have l: "store_lib demo_libs = sqlite_store mem_engine" by (simp add: demo_libs_def)
  show ?thesis
    using main_serves [OF demo_load _ c(3) mem_engine_laws l _ m rtranclp.rtrancl_refl, of "''id''" "''/''" demo_post demo_conn] by simp
qed


lemma demo_disk:
  "case (id \<circ> fst) (demo_empty, False) of None \<Rightarrow> True | Some tb \<Rightarrow> old_schema tb \<and> rows_ok tb"
  "stored_results (id \<circ> fst) (demo_empty, False) = []"
proof -
  obtain tb where tb: "demo_empty = Some tb" "schema_ok tb" "rows_ok tb"
    using demo_empty_ok by (auto simp: store_ok_def)
  then have "old_schema tb" by (auto simp: old_schema_def schema_ok_def)
  with tb(3) show "case (id \<circ> fst) (demo_empty, False) of None \<Rightarrow> True | Some tb \<Rightarrow> old_schema tb \<and> rows_ok tb"
    unfolding comp_apply fst_conv id_apply tb(1) option.case by blast
  have "stored_results id demo_empty = []" by code_simp
  then show "stored_results (id \<circ> fst) (demo_empty, False) = []" by (simp add: stored_results_def)
qed




end
